(* ===== verification/Prelude.thy ===== *)
theory Prelude
  imports Complex_Main "HOL-Library.AList"
begin

text \<open>
  Shared vocabulary of the development.

  The simulator is Python, so an operation either returns a value or raises. A raise is a
  value of \<open>py_error\<close> on the left of a sum; \<open>rbind\<close> is the sequencing of two
  statements, which stops at the first raise, and \<open>rmap\<close> and \<open>rfold\<close> are the
  list comprehension and the \<open>for\<close> loop over a sequence with such a body.

  The second half models the selections Python performs with \<open>max(xs, key=...)\<close> and
  \<open>min(xs, key=...)\<close>: a left to right scan that replaces the incumbent only by a
  strictly better element, so that ties go to the first one, and a \<open>ValueError\<close> on an
  empty sequence.
\<close>

section \<open>Collections of rewrite rules\<close>

named_theorems flt_eval \<open>equations that evaluate binary64 arithmetic on closed terms\<close>
named_theorems flt_order \<open>order reasoning on floats that are not NaN\<close>
named_theorems dict_simps \<open>keys and lookups of insertion-ordered dictionaries\<close>

section \<open>Exceptions\<close>

datatype py_error =
    ZeroDivisionError
  | ValueError
  | IndexError
  | KeyError
  | OverflowError
  | TypeError
  | AssertionError
  | UsageError
  | BadParameter
  | AttributeError

type_synonym 'a res = "py_error + 'a"

definition rbind :: "'a res \<Rightarrow> ('a \<Rightarrow> 'b res) \<Rightarrow> 'b res" where
  "rbind m f = (case m of Inl e \<Rightarrow> Inl e | Inr x \<Rightarrow> f x)"

lemma rbind_simps [simp]:
  "rbind (Inl e) f = Inl e"
  "rbind (Inr x) f = f x"
  by (simp_all add: rbind_def)

lemma rbind_eq_Inr [simp]: "rbind m f = Inr y \<longleftrightarrow> (\<exists>x. m = Inr x \<and> f x = Inr y)"
  by (cases m) auto

lemma rbind_eq_Inl: "rbind m f = Inl e \<longleftrightarrow> m = Inl e \<or> (\<exists>x. m = Inr x \<and> f x = Inl e)"
  by (cases m) auto

lemma rbind_cong [fundef_cong]:
  "m = m' \<Longrightarrow> (\<And>x. m' = Inr x \<Longrightarrow> f x = f' x) \<Longrightarrow> rbind m f = rbind m' f'"
  by (cases m') auto

definition returns :: "'a res \<Rightarrow> bool" where
  "returns m \<longleftrightarrow> (case m of Inl e \<Rightarrow> False | Inr x \<Rightarrow> True)"

lemma returns_simps [simp]: "returns (Inr x)" "\<not> returns (Inl e)"
  by (simp_all add: returns_def)

lemma returns_iff: "returns m \<longleftrightarrow> (\<exists>x. m = Inr x)"
  by (cases m) auto

lemma returns_rbind:
  "returns (rbind m f) \<longleftrightarrow> (\<exists>x. m = Inr x \<and> returns (f x))"
  by (cases m) auto

text \<open>\<open>for x in xs: acc = f(acc, x)\<close>\<close>

fun rfold :: "('a \<Rightarrow> 's \<Rightarrow> 's res) \<Rightarrow> 'a list \<Rightarrow> 's \<Rightarrow> 's res" where
  "rfold f [] s = Inr s"
| "rfold f (x # xs) s = rbind (f x s) (rfold f xs)"

text \<open>\<open>[f(x) for x in xs]\<close>\<close>

fun rmap :: "('a \<Rightarrow> 'b res) \<Rightarrow> 'a list \<Rightarrow> 'b list res" where
  "rmap f [] = Inr []"
| "rmap f (x # xs) = rbind (f x) (\<lambda>y. rbind (rmap f xs) (\<lambda>ys. Inr (y # ys)))"

lemma rmap_Inr_length: "rmap f xs = Inr ys \<Longrightarrow> length ys = length xs"
  by (induction xs arbitrary: ys) auto

lemma rmap_Inr_set:
  "rmap f xs = Inr ys \<Longrightarrow> y \<in> set ys \<longleftrightarrow> (\<exists>x \<in> set xs. f x = Inr y)"
proof (induction xs arbitrary: ys)
  case Nil
  then show ?case by simp
next
  case (Cons x xs)
  then obtain z zs where z: "f x = Inr z" "rmap f xs = Inr zs" "ys = z # zs" by auto
  with Cons.IH have "y \<in> set zs \<longleftrightarrow> (\<exists>x \<in> set xs. f x = Inr y)" by blast
  with z show ?case by auto
qed

lemma rmap_returns: "(\<And>x. x \<in> set xs \<Longrightarrow> returns (f x)) \<Longrightarrow> returns (rmap f xs)"
proof (induction xs)
  case Nil
  then show ?case by simp
next
  case (Cons x xs)
  have "returns (f x)" using Cons.prems by simp
  moreover have "returns (rmap f xs)" using Cons.prems by (intro Cons.IH) simp
  ultimately show ?case by (auto simp: returns_iff)
qed

text \<open>Loop rules: an invariant of \<open>for k in range(n)\<close>, and one that also gives that it returns\<close>

lemma rfold_append: "rfold f (xs @ ys) s = rbind (rfold f xs s) (rfold f ys)"
proof (induction xs arbitrary: s)
  case (Cons x xs)
  then show ?case by (cases "f x s") simp_all
qed simp

lemma rfold_upt_inv:
  assumes "rfold f [0..<n] s0 = Inr s" and "P 0 s0"
    and "\<And>k s s'. k < n \<Longrightarrow> P k s \<Longrightarrow> f k s = Inr s' \<Longrightarrow> P (Suc k) s'"
  shows "P n s"
  using assms(1,3)
proof (induction n arbitrary: s)
  case 0
  then show ?case using assms(2) by simp
next
  case (Suc n)
  from Suc.prems(1) obtain s1 where s1: "rfold f [0..<n] s0 = Inr s1" "f n s1 = Inr s"
    by (auto simp: rfold_append)
  have "P n s1" using Suc.IH [OF s1(1)] Suc.prems(2) by simp
  then show ?case using Suc.prems(2) s1(2) by blast
qed

lemma rfold_upt_returns:
  assumes "P 0 s0" and "\<And>k s. k < n \<Longrightarrow> P k s \<Longrightarrow> \<exists>s'. f k s = Inr s' \<and> P (Suc k) s'"
  shows "\<exists>s. rfold f [0..<n] s0 = Inr s \<and> P n s"
  using assms(2)
proof (induction n)
  case (Suc n)
  then obtain s where "rfold f [0..<n] s0 = Inr s" "P n s" by fastforce
  moreover obtain s' where "f n s = Inr s'" "P (Suc n) s'" using Suc.prems \<open>P n s\<close> by blast
  ultimately show ?case by (auto simp: rfold_append)
qed (simp add: assms(1))

section \<open>First-wins selection\<close>

text \<open>
  \<open>select_by lt xs\<close> scans \<open>xs\<close> from the left and replaces the incumbent \<open>b\<close>
  by \<open>x\<close> only when \<open>lt x b\<close>. Python's \<open>min(xs, key=k)\<close> is
  \<open>select_by (\<lambda>x b. k x < k b)\<close> and \<open>max(xs, key=k)\<close> is
  \<open>select_by (\<lambda>x b. k b < k x)\<close>.
\<close>

fun select_from :: "('a \<Rightarrow> 'a \<Rightarrow> bool) \<Rightarrow> 'a \<Rightarrow> 'a list \<Rightarrow> 'a" where
  "select_from lt b [] = b"
| "select_from lt b (x # xs) = select_from lt (if lt x b then x else b) xs"

fun select_by :: "('a \<Rightarrow> 'a \<Rightarrow> bool) \<Rightarrow> 'a list \<Rightarrow> 'a res" where
  "select_by lt [] = Inl ValueError"
| "select_by lt (x # xs) = Inr (select_from lt x xs)"

lemma select_from_mem: "select_from lt b xs \<in> insert b (set xs)"
proof (induction xs arbitrary: b)
  case Nil
  then show ?case by simp
next
  case (Cons x xs)
  then show ?case using Cons.IH [of b] Cons.IH [of x] by auto
qed

lemma select_by_mem: "select_by lt xs = Inr b \<Longrightarrow> b \<in> set xs"
proof (cases xs)
  case (Cons a as)
  assume "select_by lt xs = Inr b"
  with Cons select_from_mem [of lt a as] show ?thesis by auto
qed simp

lemma select_by_returns [simp]: "returns (select_by lt xs) \<longleftrightarrow> xs \<noteq> []"
  by (cases xs) auto

lemma select_by_Inr_iff: "(\<exists>b. select_by lt xs = Inr b) \<longleftrightarrow> xs \<noteq> []"
  by (cases xs) auto

text \<open>
  On a carrier \<open>S\<close> where \<open>lt\<close> is a strict weak order the winner is beaten by
  nobody, and everything before it is strictly worse.
\<close>

definition weak_order_on :: "'a set \<Rightarrow> ('a \<Rightarrow> 'a \<Rightarrow> bool) \<Rightarrow> bool" where
  "weak_order_on S lt \<longleftrightarrow>
     (\<forall>x\<in>S. \<not> lt x x) \<and>
     (\<forall>x\<in>S. \<forall>y\<in>S. \<forall>z\<in>S. lt x y \<longrightarrow> lt y z \<longrightarrow> lt x z) \<and>
     (\<forall>x\<in>S. \<forall>y\<in>S. \<forall>z\<in>S. \<not> lt x y \<longrightarrow> \<not> lt y z \<longrightarrow> \<not> lt x z)"

lemma weak_order_onI:
  assumes "\<And>x. x \<in> S \<Longrightarrow> \<not> lt x x"
    and "\<And>x y z. x \<in> S \<Longrightarrow> y \<in> S \<Longrightarrow> z \<in> S \<Longrightarrow> lt x y \<Longrightarrow> lt y z \<Longrightarrow> lt x z"
    and "\<And>x y z. x \<in> S \<Longrightarrow> y \<in> S \<Longrightarrow> z \<in> S \<Longrightarrow> \<not> lt x y \<Longrightarrow> \<not> lt y z \<Longrightarrow> \<not> lt x z"
  shows "weak_order_on S lt"
  unfolding weak_order_on_def using assms by blast

lemma weak_order_onD:
  assumes "weak_order_on S lt" and "x \<in> S" "y \<in> S" "z \<in> S"
  shows "\<not> lt x x"
    and "lt x y \<Longrightarrow> lt y z \<Longrightarrow> lt x z"
    and "\<not> lt x y \<Longrightarrow> \<not> lt y z \<Longrightarrow> \<not> lt x z"
    and "lt x y \<Longrightarrow> \<not> lt y x"
proof -
  show irr: "\<not> lt x x" using assms unfolding weak_order_on_def by blast
  show "lt x y \<Longrightarrow> lt y z \<Longrightarrow> lt x z" using assms unfolding weak_order_on_def by blast
  show "\<not> lt x y \<Longrightarrow> \<not> lt y z \<Longrightarrow> \<not> lt x z" using assms unfolding weak_order_on_def by blast
  show "lt x y \<Longrightarrow> \<not> lt y x" using assms irr unfolding weak_order_on_def by blast
qed

lemma weak_order_on_subset: "weak_order_on S lt \<Longrightarrow> T \<subseteq> S \<Longrightarrow> weak_order_on T lt"
  unfolding weak_order_on_def by blast

lemma select_from_least:
  assumes "weak_order_on S lt" and "b \<in> S" and "set xs \<subseteq> S"
  shows "\<forall>x \<in> insert b (set xs). \<not> lt x (select_from lt b xs)"
  using assms(2,3)
proof (induction xs arbitrary: b)
  case Nil
  then show ?case using weak_order_onD(1) [OF assms(1)] by simp
next
  case (Cons x xs)
  define c where "c = (if lt x b then x else b)"
  have c: "c \<in> S" using Cons.prems by (simp add: c_def)
  have IH: "\<forall>y \<in> insert c (set xs). \<not> lt y (select_from lt c xs)"
    using Cons.IH [OF c] Cons.prems by simp
  have r: "select_from lt c xs \<in> S"
    using select_from_mem [of lt c xs] c Cons.prems by auto
  have xb: "x \<in> S" "b \<in> S" using Cons.prems by auto
  have "\<not> lt x c \<and> \<not> lt b c"
    using weak_order_onD(1,4) [OF assms(1) xb(1) xb(2) c] weak_order_onD(1) [OF assms(1) xb(2) c c]
    by (simp add: c_def)
  moreover have "\<not> lt c (select_from lt c xs)" using IH by simp
  ultimately have "\<not> lt x (select_from lt c xs)" "\<not> lt b (select_from lt c xs)"
    using weak_order_onD(3) [OF assms(1) xb(1) c r] weak_order_onD(3) [OF assms(1) xb(2) c r] by blast+
  with IH show ?case by (simp add: c_def)
qed

lemma select_by_least:
  assumes "weak_order_on (set xs) lt" and "select_by lt xs = Inr b" and "x \<in> set xs"
  shows "\<not> lt x b"
proof (cases xs)
  case Nil
  with assms(3) show ?thesis by simp
next
  case (Cons a as)
  then have "\<forall>x \<in> insert a (set as). \<not> lt x (select_from lt a as)"
    using assms(1) by (intro select_from_least) auto
  with Cons assms(2,3) show ?thesis by auto
qed

text \<open>
  \<open>before xs x y\<close>: \<open>x\<close> occurs ahead of the first \<open>y\<close>. The winner is strictly better
  than every element ahead of it, which is the tie rule "first one wins".
\<close>

definition before :: "'a list \<Rightarrow> 'a \<Rightarrow> 'a \<Rightarrow> bool" where
  "before xs x y \<longleftrightarrow> x \<in> set (takeWhile (\<lambda>z. z \<noteq> y) xs)"

lemma before_Nil [simp]: "\<not> before [] x y"
  by (simp add: before_def)

lemma before_Cons [simp]: "before (a # xs) x y \<longleftrightarrow> a \<noteq> y \<and> (x = a \<or> before xs x y)"
  by (auto simp: before_def)

lemma before_mem: "before xs x y \<Longrightarrow> x \<in> set xs"
  by (auto simp: before_def dest: set_takeWhileD)

lemma before_filter: "P y \<Longrightarrow> before (filter P xs) x y \<Longrightarrow> before xs x y"
  by (induction xs) (auto split: if_splits)

lemma before_total: "x \<in> set xs \<Longrightarrow> y \<in> set xs \<Longrightarrow> x \<noteq> y \<Longrightarrow> before xs x y \<or> before xs y x"
  by (induction xs) auto

lemma select_from_first:
  assumes wo: "weak_order_on S lt"
  shows "distinct (b # xs) \<Longrightarrow> set (b # xs) \<subseteq> S \<Longrightarrow> before (b # xs) k (select_from lt b xs) \<Longrightarrow>
    lt (select_from lt b xs) k"
proof (induction xs arbitrary: b k)
  case Nil
  then show ?case by simp
next
  case (Cons x xs)
  define c where "c = (if lt x b then x else b)"
  define r where "r = select_from lt c xs"
  have IH: "before (c # xs) j r \<Longrightarrow> lt r j" for j
    unfolding r_def using Cons.prems(1,2) by (intro Cons.IH) (auto simp: c_def)
  have r: "r = select_from lt b (x # xs)" "r \<in> insert c (set xs)"
    using select_from_mem [of lt c xs] by (simp_all add: r_def c_def)
  have S: "b \<in> S" "x \<in> S" "r \<in> S" using Cons.prems(2) r(2) by (auto simp: c_def split: if_splits)
  have k: "r \<noteq> b" "k = b \<or> (x \<noteq> r \<and> (k = x \<or> before xs k r))"
    using Cons.prems(3) r(1) by auto
  show ?case
  proof (cases "lt x b")
    case True
    then have c: "c = x" by (simp add: c_def)
    have "lt r b"
    proof (cases "r = x")
      case False
      then have "lt r x" using IH [of x] by (simp add: c)
      then show ?thesis using weak_order_onD(2) [OF wo S(3) S(2) S(1)] True by blast
    qed (simp add: True)
    then show ?thesis using k IH [of k] r(1) by (auto simp: c)
  next
    case False
    then have c: "c = b" by (simp add: c_def)
    have rb: "lt r b" using IH [of b] k(1) by (simp add: c)
    then have "lt r x" using weak_order_onD(3) [OF wo S(3) S(2) S(1)] False by blast
    then show ?thesis using k rb IH [of k] r(1) by (auto simp: c)
  qed
qed

lemma select_from_beats:
  assumes "weak_order_on (set (b # xs)) lt" and "distinct (b # xs)"
    and "k \<in> set (b # xs)" and "k \<noteq> select_from lt b xs"
  shows "lt (select_from lt b xs) k \<or>
    \<not> lt k (select_from lt b xs) \<and> before (b # xs) (select_from lt b xs) k"
proof (cases "before (b # xs) k (select_from lt b xs)")
  case True
  then show ?thesis using select_from_first [OF assms(1,2)] by blast
next
  case False
  have "select_from lt b xs \<in> set (b # xs)" using select_from_mem [of lt b xs] by simp
  then have "before (b # xs) (select_from lt b xs) k" using False assms(3,4) before_total by metis
  moreover have "\<not> lt k (select_from lt b xs)"
    using select_from_least [OF assms(1), of b xs] assms(3) by auto
  ultimately show ?thesis by blast
qed

end
