(* ===== verification/PyFloat.thy ===== *)
theory PyFloat
  imports Prelude "HOL-Library.Log_Nat"
begin

text \<open>
  Python's \<open>float\<close>: IEEE 754 binary64 with round to nearest, ties to even.

  A finite float is represented by the rational it denotes; \<open>rnd\<close> rounds an exact
  rational to the nearest binary64 value (53 significant bits, least exponent \<open>-1074\<close>,
  overflow to an infinity at \<open>2 ^ 1024\<close>), and every arithmetic operation is the exact
  operation followed by \<open>rnd\<close>. The two zeros are one value: nothing in the modelled code
  tells them apart (a division by either raises, and they compare equal).

  The order instance is Python's: every comparison with \<open>NaN\<close> is false. Division and the
  conversion of an integer raise, as Python does.
\<close>

section \<open>Rounding to binary64\<close>

definition ilog2 :: "rat \<Rightarrow> int" where
  "ilog2 x = (if 1 \<le> x then bitlen \<lfloor>x\<rfloor> - 1 else - bitlen (\<lceil>1 / x\<rceil> - 1))"

text \<open>Nearest integer, ties to even: also Python's \<open>round\<close> of a float.\<close>

definition round_even :: "rat \<Rightarrow> int" where
  "round_even x =
     (let f = \<lfloor>x\<rfloor>; r = x - of_int f in
      if r < 1 / 2 then f else if 1 / 2 < r then f + 1 else if even f then f else f + 1)"

definition ulp_exp :: "rat \<Rightarrow> int" where
  "ulp_exp x = max (ilog2 \<bar>x\<bar> - 52) (- 1074)"

definition rne :: "rat \<Rightarrow> rat" where
  "rne x = (if x = 0 then 0
            else of_int (round_even (x / 2 powi ulp_exp x)) * 2 powi ulp_exp x)"

datatype pyfloat = Fin rat | PosInf | NegInf | NaN

definition rnd :: "rat \<Rightarrow> pyfloat" where
  "rnd x = (let y = rne x in
            if 2 ^ 1024 \<le> y then PosInf else if y \<le> - (2 ^ 1024) then NegInf else Fin y)"

subsection \<open>The binary logarithm\<close>

lemma bitlen_powi:
  assumes "0 < n"
  shows "2 powi (bitlen n - 1) \<le> (of_int n :: rat)" and "(of_int n :: rat) < 2 powi bitlen n"
proof -
  have b: "0 < bitlen n" using assms bitlen_eq_zero_iff [of n] bitlen_nonneg [of n] by linarith
  have bb: "2 ^ nat (bitlen n - 1) \<le> n" "n < 2 ^ nat (bitlen n)"
    using bitlen_bounds [OF assms] by auto
  have "(of_int (2 ^ nat (bitlen n - 1)) :: rat) \<le> of_int n"
    using bb(1) by (simp only: of_int_le_iff)
  then show "2 powi (bitlen n - 1) \<le> (of_int n :: rat)"
    using b by (simp add: power_int_def)
  have "(of_int n :: rat) < of_int (2 ^ nat (bitlen n))"
    using bb(2) by (simp only: of_int_less_iff)
  then show "(of_int n :: rat) < 2 powi bitlen n"
    using b by (simp add: power_int_def)
qed

lemma ilog2_bounds:
  assumes "0 < x"
  shows "2 powi ilog2 x \<le> x \<and> x < 2 powi (ilog2 x + 1)"
proof (cases "1 \<le> x")
  case True
  let ?n = "\<lfloor>x\<rfloor>"
  have n: "0 < ?n" using True by simp
  have "x < of_int (?n + 1)" by linarith
  also have "?n + 1 \<le> 2 ^ nat (bitlen ?n)" using bitlen_bounds [OF n] by linarith
  then have "of_int (?n + 1) \<le> (of_int (2 ^ nat (bitlen ?n)) :: rat)" by (simp only: of_int_le_iff)
  also have "\<dots> = 2 powi bitlen ?n" using bitlen_nonneg by (simp add: power_int_def)
  finally have "x < 2 powi bitlen ?n" .
  moreover have "2 powi (bitlen ?n - 1) \<le> x"
    using bitlen_powi(1) [OF n] by linarith
  ultimately show ?thesis using True by (simp add: ilog2_def)
next
  case False
  let ?y = "1 / x" and ?n = "\<lceil>1 / x\<rceil> - 1"
  have y: "1 < ?y" using False assms by simp
  then have n: "0 < ?n" by linarith
  have up: "?y \<le> of_int (?n + 1)" by linarith
  also have "?n + 1 \<le> 2 ^ nat (bitlen ?n)" using bitlen_bounds [OF n] by linarith
  then have "of_int (?n + 1) \<le> (of_int (2 ^ nat (bitlen ?n)) :: rat)" by (simp only: of_int_le_iff)
  also have "\<dots> = 2 powi bitlen ?n" using bitlen_nonneg by (simp add: power_int_def)
  finally have 1: "?y \<le> 2 powi bitlen ?n" .
  have 2: "2 powi (bitlen ?n - 1) < ?y"
    using bitlen_powi(1) [OF n] by linarith
  have "2 powi (- bitlen ?n) \<le> x"
    using 1 assms by (simp add: power_int_minus field_simps)
  moreover have "x < inverse (2 powi (bitlen ?n - 1))"
    using 2 assms by (simp add: field_simps)
  then have "x < 2 powi (- (bitlen ?n - 1))" by (simp only: power_int_minus)
  ultimately show ?thesis using False by (simp add: ilog2_def)
qed

lemma powi_less_imp: "(2::rat) powi a < 2 powi b \<Longrightarrow> a < b"
  using power_int_increasing [of b a "2::rat"] by (meson linorder_not_less one_le_numeral)

lemma ilog2_mono: "0 < x \<Longrightarrow> x \<le> y \<Longrightarrow> ilog2 x \<le> ilog2 y"
proof -
  assume "0 < x" "x \<le> y"
  then have "2 powi ilog2 x \<le> x" "y < 2 powi (ilog2 y + 1)"
    using ilog2_bounds [of x] ilog2_bounds [of y] by auto
  with \<open>x \<le> y\<close> have "(2::rat) powi ilog2 x < 2 powi (ilog2 y + 1)" by linarith
  then show ?thesis using powi_less_imp by fastforce
qed


subsection \<open>Rounding to an integer\<close>

lemma round_even_of_int [simp]: "round_even (of_int n) = n"
  by (simp add: round_even_def)

lemma round_even_bounds: "\<lfloor>x\<rfloor> \<le> round_even x" "round_even x \<le> \<lfloor>x\<rfloor> + 1"
  by (simp_all add: round_even_def Let_def)

lemma round_even_mono:
  assumes "x \<le> y"
  shows "round_even x \<le> round_even y"
proof (cases "\<lfloor>x\<rfloor> = \<lfloor>y\<rfloor>")
  case True
  with assms show ?thesis by (auto simp: round_even_def Let_def)
next
  case False
  with assms floor_mono [OF assms] have "\<lfloor>x\<rfloor> + 1 \<le> \<lfloor>y\<rfloor>" by linarith
  then show ?thesis using round_even_bounds [of x] round_even_bounds [of y] by linarith
qed

lemma round_even_minus: "round_even (- x) = - round_even x"
proof (cases "x \<in> \<int>")
  case True
  then obtain n where "x = of_int n" by (auto elim: Ints_cases)
  moreover have "round_even (of_int (- n)) = - n" by (rule round_even_of_int)
  ultimately show ?thesis by simp
next
  case False
  then have "x \<noteq> of_int \<lfloor>x\<rfloor>" using Ints_of_int [of "\<lfloor>x\<rfloor>"] by metis
  then have f: "\<lfloor>- x\<rfloor> = - \<lfloor>x\<rfloor> - 1"
    using ceiling_altdef [of x] by (simp add: floor_minus)
  show ?thesis by (auto simp: round_even_def Let_def f)
qed

lemma round_even_le_of_int: "x \<le> of_int n \<Longrightarrow> round_even x \<le> n"
  using round_even_mono [of x "of_int n"] by simp

lemma round_even_ge_of_int: "of_int n \<le> x \<Longrightarrow> n \<le> round_even x"
  using round_even_mono [of "of_int n" x] by simp

subsection \<open>The grid of representable values\<close>

lemma powi_sum: "(2::rat) powi (a + b) = 2 powi a * 2 powi b"
  by (simp add: power_int_add)

lemma powi_of_int: "0 \<le> k \<Longrightarrow> (2::rat) powi k = of_int (2 ^ nat k)"
  by (simp add: power_int_def)

lemma powi_split: "a \<le> b \<Longrightarrow> (2::rat) powi b = of_int (2 ^ nat (b - a)) * 2 powi a"
  using powi_sum [of "b - a" a] powi_of_int [of "b - a"] by simp

lemma powi_mono: "a \<le> b \<Longrightarrow> (2::rat) powi a \<le> 2 powi b"
  by (rule power_int_increasing) simp_all

lemma rne_0 [simp]: "rne 0 = 0"
  by (simp add: rne_def)

lemma ulp_exp_minus [simp]: "ulp_exp (- x) = ulp_exp x"
  by (simp add: ulp_exp_def)

lemma rne_minus: "rne (- x) = - rne x"
proof -
  have "- x / 2 powi ulp_exp x = - (x / 2 powi ulp_exp x)" by simp
  then show ?thesis by (simp add: rne_def round_even_minus del: minus_divide_left)
qed

text \<open>A multiple of \<open>2 powi k\<close> with \<open>k\<close> at or above the ulp exponent is a fixed point.\<close>

lemma rne_on_grid:
  assumes "ulp_exp (of_int m * 2 powi k) \<le> k"
  shows "rne (of_int m * 2 powi k) = of_int m * 2 powi k"
proof -
  let ?x = "of_int m * (2::rat) powi k" and ?e = "ulp_exp (of_int m * (2::rat) powi k)"
  have "?x = of_int m * (of_int (2 ^ nat (k - ?e)) * 2 powi ?e)"
    using powi_split [OF assms] by simp
  then have *: "?x / 2 powi ?e = of_int (m * 2 ^ nat (k - ?e))"
    by (metis mult.assoc nonzero_mult_div_cancel_right of_int_mult power_int_not_zero zero_neq_numeral)
  show ?thesis
  proof (cases "m = 0")
    case False
    then have "rne ?x = of_int (round_even (?x / 2 powi ?e)) * 2 powi ?e" by (simp add: rne_def)
    also have "\<dots> = (?x / 2 powi ?e) * 2 powi ?e" by (simp only: * round_even_of_int)
    finally show ?thesis by simp
  qed simp
qed

lemma ulp_exp_le:
  assumes "\<bar>x\<bar> < 2 powi (k + 53)" "x \<noteq> 0" "- 1074 \<le> k"
  shows "ulp_exp x \<le> k"
proof -
  have "2 powi ilog2 \<bar>x\<bar> \<le> \<bar>x\<bar>" using ilog2_bounds [of "\<bar>x\<bar>"] assms(2) by simp
  with assms(1) have "(2::rat) powi ilog2 \<bar>x\<bar> < 2 powi (k + 53)" by linarith
  then have "ilog2 \<bar>x\<bar> < k + 53" by (rule powi_less_imp)
  with assms(3) show ?thesis by (simp add: ulp_exp_def)
qed

lemma rne_exact:
  assumes "\<bar>m\<bar> \<le> 2 ^ 53" and "- 1074 \<le> k"
  shows "rne (of_int m * 2 powi k) = of_int m * 2 powi k"
proof (cases "m = 0 \<or> \<bar>m\<bar> = 2 ^ 53")
  case False
  then have "\<bar>m\<bar> < 2 ^ 53" using assms by simp
  then have "of_int \<bar>m\<bar> < (of_int (2 ^ 53) :: rat)" by (simp only: of_int_less_iff)
  then have "\<bar>of_int m * 2 powi k\<bar> < (2::rat) powi 53 * 2 powi k"
    by (simp add: abs_mult power_int_def)
  also have "\<dots> = 2 powi (k + 53)" by (simp add: powi_sum mult.commute)
  finally have "ulp_exp (of_int m * 2 powi k) \<le> k"
    using False assms(2) by (intro ulp_exp_le) simp_all
  then show ?thesis by (rule rne_on_grid)
next
  case True
  show ?thesis
  proof (cases "m = 0")
    case False
    with True have m: "of_int m = (of_int (sgn m) * 2 powi 53 :: rat)" and s: "\<bar>sgn m\<bar> = 1"
      by (auto simp: abs_if sgn_if power_int_def split: if_splits)
    have eq: "of_int m * 2 powi k = (of_int (sgn m) * 2 powi (k + 53) :: rat)"
      by (simp add: m powi_sum mult.assoc mult.commute)
    have "\<bar>of_int (sgn m) * 2 powi (k + 53)\<bar> = (2::rat) powi (k + 53)"
      using s by (simp add: abs_mult flip: of_int_abs)
    also have "\<dots> < 2 powi ((k + 53) + 53)" by (rule power_int_strict_increasing) simp_all
    finally have "ulp_exp (of_int (sgn m) * 2 powi (k + 53)) \<le> k + 53"
      using s assms(2) False by (intro ulp_exp_le) (auto simp: sgn_if)
    then show ?thesis unfolding eq by (rule rne_on_grid)
  qed simp
qed

lemma ulp_exp_ge: "- 1074 \<le> ulp_exp x"
  by (simp add: ulp_exp_def)

lemma scaled_bound:
  assumes "x \<noteq> 0"
  shows "\<bar>x\<bar> / 2 powi ulp_exp x \<le> of_int (2 ^ 53)"
proof -
  have "\<bar>x\<bar> < 2 powi (ilog2 \<bar>x\<bar> + 1)" using ilog2_bounds [of "\<bar>x\<bar>"] assms by simp
  also have "\<dots> \<le> 2 powi (53 + ulp_exp x)" by (intro powi_mono) (simp add: ulp_exp_def)
  also have "\<dots> = 2 ^ 53 * 2 powi ulp_exp x" by (simp add: powi_sum)
  finally show ?thesis by (simp add: field_simps)
qed

lemma rne_form:
  obtains m k where "rne x = of_int m * 2 powi k" "\<bar>m\<bar> \<le> 2 ^ 53" "- 1074 \<le> k"
proof (cases "x = 0")
  case True
  then show ?thesis using that [of 0 0] by simp
next
  case False
  let ?y = "x / 2 powi ulp_exp x"
  have b: "\<bar>?y\<bar> \<le> of_int (2 ^ 53)" using scaled_bound [OF False] by simp
  have "?y \<le> of_int (2 ^ 53)" "of_int (- (2 ^ 53)) \<le> ?y"
    using b by linarith+
  then have "round_even ?y \<le> 2 ^ 53" "- (2 ^ 53) \<le> round_even ?y"
    using round_even_le_of_int [of ?y "2 ^ 53"] round_even_ge_of_int [of "- (2 ^ 53)" ?y] by blast+
  then show ?thesis
    using that [of "round_even ?y" "ulp_exp x"] False ulp_exp_ge by (simp add: rne_def abs_le_iff)
qed

lemma rne_idem [simp]: "rne (rne x) = rne x"
  by (rule rne_form [of x]) (simp add: rne_exact)

lemma rne_of_int: "\<bar>n\<bar> \<le> 2 ^ 53 \<Longrightarrow> rne (of_int n) = of_int n"
  using rne_exact [of n 0] by simp

subsection \<open>Rounding is monotone\<close>

lemma rne_nonneg: "0 \<le> x \<Longrightarrow> 0 \<le> rne x"
proof -
  assume "0 \<le> x"
  then have "0 \<le> round_even (x / 2 powi ulp_exp x)"
    by (intro round_even_ge_of_int) simp
  then show ?thesis by (simp add: rne_def)
qed

lemma rne_mono_pos:
  assumes "0 < x" "x \<le> y"
  shows "rne x \<le> rne y"
proof -
  let ?e = "ulp_exp x" and ?f = "ulp_exp y"
  have y: "0 < y" using assms by simp
  have ef: "?e \<le> ?f" using ilog2_mono [OF assms] assms y by (simp add: ulp_exp_def)
  have x_eq: "rne x = of_int (round_even (x / 2 powi ?e)) * 2 powi ?e"
    and y_eq: "rne y = of_int (round_even (y / 2 powi ?f)) * 2 powi ?f"
    using assms y by (simp_all add: rne_def)
  show ?thesis
  proof (cases "?e = ?f")
    case True
    have "x / 2 powi ?e \<le> y / 2 powi ?e" using assms by (simp add: divide_right_mono)
    then have "round_even (x / 2 powi ?e) \<le> round_even (y / 2 powi ?e)" by (rule round_even_mono)
    then show ?thesis using True by (simp add: x_eq y_eq mult_right_mono)
  next
    case False
    let ?E = "ilog2 y"
    from False ef have f: "?f = ?E - 52" "?e < ?f" using y by (auto simp: ulp_exp_def)
    have "?e \<ge> ilog2 x - 52" using assms by (simp add: ulp_exp_def)
    with f have E: "ilog2 x + 1 \<le> ?E" "?e \<le> ?E" by linarith+
    have "x \<le> 2 powi ?E" using ilog2_bounds [OF assms(1)] powi_mono [OF E(1)] by linarith
    also have "\<dots> = of_int (2 ^ nat (?E - ?e)) * 2 powi ?e"
      by (rule powi_split [OF E(2)])
    finally have "x / 2 powi ?e \<le> of_int (2 ^ nat (?E - ?e))" by (simp add: field_simps)
    then have "round_even (x / 2 powi ?e) \<le> 2 ^ nat (?E - ?e)" by (rule round_even_le_of_int)
    then have "of_int (round_even (x / 2 powi ?e)) \<le> (of_int (2 ^ nat (?E - ?e)) :: rat)"
      by (simp only: of_int_le_iff)
    then have "rne x \<le> of_int (2 ^ nat (?E - ?e)) * 2 powi ?e"
      unfolding x_eq by (intro mult_right_mono) simp_all
    also have "\<dots> = 2 powi ?E" by (rule powi_split [OF E(2), symmetric])
    finally have 1: "rne x \<le> 2 powi ?E" .
    have E52: "2 powi ?E = of_int (2 ^ 52) * (2::rat) powi ?f"
      using powi_sum [of 52 ?f] by (simp add: f(1))
    have "of_int (2 ^ 52) * 2 powi ?f \<le> y" using ilog2_bounds [OF y] E52 by simp
    then have "of_int (2 ^ 52) \<le> y / 2 powi ?f" by (simp add: field_simps)
    then have "2 ^ 52 \<le> round_even (y / 2 powi ?f)" by (rule round_even_ge_of_int)
    then have "(of_int (2 ^ 52) :: rat) \<le> of_int (round_even (y / 2 powi ?f))"
      by (simp only: of_int_le_iff)
    then have "of_int (2 ^ 52) * 2 powi ?f \<le> rne y"
      unfolding y_eq by (intro mult_right_mono) simp_all
    with 1 E52 show ?thesis by simp
  qed
qed

lemma rne_mono: "x \<le> y \<Longrightarrow> rne x \<le> rne y"
proof -
  assume xy: "x \<le> y"
  consider "0 < x" | "x \<le> 0" "0 \<le> y" | "y < 0" by linarith
  then show ?thesis
  proof cases
    case 1
    then show ?thesis using xy by (rule rne_mono_pos)
  next
    case 2
    then have "0 \<le> rne y" "0 \<le> rne (- x)" by (intro rne_nonneg; simp)+
    then show ?thesis by (simp add: rne_minus)
  next
    case 3
    then have "rne (- y) \<le> rne (- x)" using xy by (intro rne_mono_pos) simp_all
    then show ?thesis by (simp add: rne_minus)
  qed
qed

section \<open>Arithmetic and comparison\<close>

instantiation pyfloat :: "{zero, one, plus, minus, uminus, times, ord}"
begin

definition zero_pyfloat :: pyfloat where
  "zero_pyfloat = Fin 0"

definition one_pyfloat :: pyfloat where
  "one_pyfloat = Fin 1"

fun uminus_pyfloat :: "pyfloat \<Rightarrow> pyfloat" where
  "uminus_pyfloat (Fin a) = Fin (- a)"
| "uminus_pyfloat PosInf = NegInf"
| "uminus_pyfloat NegInf = PosInf"
| "uminus_pyfloat NaN = NaN"

fun plus_pyfloat :: "pyfloat \<Rightarrow> pyfloat \<Rightarrow> pyfloat" where
  "plus_pyfloat (Fin a) (Fin b) = rnd (a + b)"
| "plus_pyfloat NaN b = NaN"
| "plus_pyfloat a NaN = NaN"
| "plus_pyfloat PosInf NegInf = NaN"
| "plus_pyfloat NegInf PosInf = NaN"
| "plus_pyfloat PosInf b = PosInf"
| "plus_pyfloat a PosInf = PosInf"
| "plus_pyfloat NegInf b = NegInf"
| "plus_pyfloat a NegInf = NegInf"

definition minus_pyfloat :: "pyfloat \<Rightarrow> pyfloat \<Rightarrow> pyfloat" where
  "minus_pyfloat a b = a + - b"

definition signed_inf :: "rat \<Rightarrow> pyfloat" where
  "signed_inf s = (if s = 0 then NaN else if 0 < s then PosInf else NegInf)"

fun times_pyfloat :: "pyfloat \<Rightarrow> pyfloat \<Rightarrow> pyfloat" where
  "times_pyfloat (Fin a) (Fin b) = rnd (a * b)"
| "times_pyfloat NaN b = NaN"
| "times_pyfloat a NaN = NaN"
| "times_pyfloat PosInf (Fin b) = signed_inf b"
| "times_pyfloat NegInf (Fin b) = signed_inf (- b)"
| "times_pyfloat (Fin a) PosInf = signed_inf a"
| "times_pyfloat (Fin a) NegInf = signed_inf (- a)"
| "times_pyfloat PosInf PosInf = PosInf"
| "times_pyfloat NegInf NegInf = PosInf"
| "times_pyfloat PosInf NegInf = NegInf"
| "times_pyfloat NegInf PosInf = NegInf"

fun less_eq_pyfloat :: "pyfloat \<Rightarrow> pyfloat \<Rightarrow> bool" where
  "less_eq_pyfloat NaN b = False"
| "less_eq_pyfloat a NaN = False"
| "less_eq_pyfloat NegInf b = True"
| "less_eq_pyfloat a PosInf = True"
| "less_eq_pyfloat (Fin a) (Fin b) = (a \<le> b)"
| "less_eq_pyfloat PosInf b = False"
| "less_eq_pyfloat (Fin a) NegInf = False"

fun less_pyfloat :: "pyfloat \<Rightarrow> pyfloat \<Rightarrow> bool" where
  "less_pyfloat NaN b = False"
| "less_pyfloat a NaN = False"
| "less_pyfloat NegInf b = (b \<noteq> NegInf)"
| "less_pyfloat a PosInf = (a \<noteq> PosInf)"
| "less_pyfloat (Fin a) (Fin b) = (a < b)"
| "less_pyfloat PosInf b = False"
| "less_pyfloat (Fin a) NegInf = False"

instance ..

end

text \<open>\<open>a == b\<close> and \<open>a / b\<close> of two floats; \<open>float(n)\<close> and \<open>n * x\<close> of an integer;
  \<open>round(x)\<close>; the two-argument \<open>max\<close>.\<close>

definition feq :: "pyfloat \<Rightarrow> pyfloat \<Rightarrow> bool" where
  "feq a b \<longleftrightarrow> a \<noteq> NaN \<and> a = b"

fun fquot :: "pyfloat \<Rightarrow> pyfloat \<Rightarrow> pyfloat" where
  "fquot (Fin a) (Fin b) = rnd (a / b)"
| "fquot NaN b = NaN"
| "fquot a NaN = NaN"
| "fquot (Fin a) b = Fin 0"
| "fquot PosInf (Fin b) = signed_inf b"
| "fquot NegInf (Fin b) = signed_inf (- b)"
| "fquot a b = NaN"

definition fdiv :: "pyfloat \<Rightarrow> pyfloat \<Rightarrow> pyfloat res" where
  "fdiv a b = (if b = Fin 0 then Inl ZeroDivisionError else Inr (fquot a b))"

definition float_of_int :: "int \<Rightarrow> pyfloat res" where
  "float_of_int n = (case rnd (of_int n) of Fin q \<Rightarrow> Inr (Fin q) | _ \<Rightarrow> Inl OverflowError)"

definition int_times :: "int \<Rightarrow> pyfloat \<Rightarrow> pyfloat res" where
  "int_times n x = rbind (float_of_int n) (\<lambda>f. Inr (f * x))"

fun py_round :: "pyfloat \<Rightarrow> int res" where
  "py_round (Fin q) = Inr (round_even q)"
| "py_round NaN = Inl ValueError"
| "py_round PosInf = Inl OverflowError"
| "py_round NegInf = Inl OverflowError"

definition py_max2 :: "pyfloat \<Rightarrow> pyfloat \<Rightarrow> pyfloat" where
  "py_max2 a b = (if a < b then b else a)"

subsection \<open>The representable values\<close>

text \<open>The type invariant: a finite float denotes a value of the binary64 grid.\<close>

fun is_f64 :: "pyfloat \<Rightarrow> bool" where
  "is_f64 (Fin q) = (rnd q = Fin q)"
| "is_f64 _ = True"

abbreviation finite_f :: "pyfloat \<Rightarrow> bool" where
  "finite_f x \<equiv> \<exists>q. x = Fin q"

lemma rnd_Fin_rne: "rnd q = Fin r \<Longrightarrow> r = rne q \<and> \<bar>r\<bar> < 2 ^ 1024"
  by (auto simp: rnd_def Let_def split: if_splits)

lemma rnd_fixed: "rne q = q \<Longrightarrow> \<bar>q\<bar> < 2 ^ 1024 \<Longrightarrow> rnd q = Fin q"
  by (auto simp: rnd_def)

lemma rnd_idem: "rnd q = Fin r \<Longrightarrow> rnd r = Fin r"
  using rnd_Fin_rne [of q r] by (auto intro: rnd_fixed)

lemma rnd_not_NaN [simp]: "rnd q \<noteq> NaN" "NaN \<noteq> rnd q"
  by (auto simp: rnd_def Let_def)

lemma is_f64_rnd [simp]: "is_f64 (rnd q)"
  by (cases "rnd q") (auto intro: rnd_idem)

lemma rnd_of_int:
  assumes "\<bar>n\<bar> \<le> 2 ^ 53"
  shows "rnd (of_int n) = Fin (of_int n)"
proof (rule rnd_fixed [OF rne_of_int [OF assms]])
  have "of_int \<bar>n\<bar> \<le> (of_int (2 ^ 53) :: rat)" using assms by (simp only: of_int_le_iff)
  also have "\<dots> < 2 ^ 1024" by simp
  finally show "\<bar>of_int n\<bar> < (2::rat) ^ 1024" by simp
qed

lemma rnd_numerals [simp]:
  "rnd 0 = Fin 0" "rnd 1 = Fin 1"
  using rnd_of_int [of 0] rnd_of_int [of 1] by simp_all

lemma rnd_numeral: "(numeral w :: int) \<le> 2 ^ 53 \<Longrightarrow> rnd (numeral w) = Fin (numeral w)"
  using rnd_of_int [of "numeral w"] by simp

lemma is_f64_0 [simp]: "is_f64 0" "is_f64 1"
  by (simp_all add: zero_pyfloat_def one_pyfloat_def)

lemma is_f64_uminus [simp]: "is_f64 a \<Longrightarrow> is_f64 (- a)"
  by (cases a) (auto simp: rnd_def rne_minus Let_def split: if_splits)

lemma is_f64_plus [simp]: "is_f64 (a + b :: pyfloat)"
  by (cases a; cases b) simp_all

lemma is_f64_minus [simp]: "is_f64 (a - b :: pyfloat)"
  by (simp add: minus_pyfloat_def)

lemma is_f64_signed_inf [simp]: "is_f64 (signed_inf q)"
  by (simp add: signed_inf_def)

lemma is_f64_times [simp]: "is_f64 (a * b :: pyfloat)"
  by (cases a; cases b) simp_all

lemma is_f64_fquot [simp]: "is_f64 (fquot a b)"
  by (cases a; cases b) simp_all

lemma is_f64_float_of_int: "float_of_int n = Inr x \<Longrightarrow> is_f64 x \<and> finite_f x"
  by (auto simp: float_of_int_def dest: sym intro: rnd_idem split: pyfloat.splits)

lemma is_f64_max2 [simp]: "is_f64 a \<Longrightarrow> is_f64 b \<Longrightarrow> is_f64 (py_max2 a b)"
  by (simp add: py_max2_def)

subsection \<open>Order\<close>

lemma zero_not_NaN [simp]: "(0::pyfloat) \<noteq> NaN" "NaN \<noteq> (0::pyfloat)"
  by (simp_all add: zero_pyfloat_def)

lemma fle_refl_iff [simp]: "(a::pyfloat) \<le> a \<longleftrightarrow> a \<noteq> NaN"
  by (cases a) simp_all

lemma fle_not_NaN [flt_order]: "(a::pyfloat) \<le> b \<Longrightarrow> a \<noteq> NaN \<and> b \<noteq> NaN"
  by (cases a; cases b) simp_all

lemma flt_irrefl [simp]: "\<not> (a::pyfloat) < a"
  by (cases a) simp_all

lemma fle_trans: "(a::pyfloat) \<le> b \<Longrightarrow> b \<le> c \<Longrightarrow> a \<le> c"
  by (cases a; cases b; cases c) simp_all

lemma flt_trans: "(a::pyfloat) < b \<Longrightarrow> b < c \<Longrightarrow> a < c"
  by (cases a; cases b; cases c) auto

lemma fle_less_trans: "(a::pyfloat) \<le> b \<Longrightarrow> b < c \<Longrightarrow> a < c"
  by (cases a; cases b; cases c) auto

lemma fless_le_trans: "(a::pyfloat) < b \<Longrightarrow> b \<le> c \<Longrightarrow> a < c"
  by (cases a; cases b; cases c) auto

lemma fle_antisym: "(a::pyfloat) \<le> b \<Longrightarrow> b \<le> a \<Longrightarrow> a = b"
  by (cases a; cases b) simp_all

lemma flt_le: "(a::pyfloat) < b \<Longrightarrow> a \<le> b"
  by (cases a; cases b) auto

lemma flt_iff: "(a::pyfloat) < b \<longleftrightarrow> a \<le> b \<and> a \<noteq> b"
  by (cases a; cases b) auto

lemma fnot_less: "a \<noteq> NaN \<Longrightarrow> b \<noteq> NaN \<Longrightarrow> \<not> (a::pyfloat) < b \<longleftrightarrow> b \<le> a"
  by (cases a; cases b) auto

lemma fnot_le: "a \<noteq> NaN \<Longrightarrow> b \<noteq> NaN \<Longrightarrow> \<not> (a::pyfloat) \<le> b \<longleftrightarrow> b < a"
  by (cases a; cases b) auto

lemma feq_iff: "a \<noteq> NaN \<Longrightarrow> feq a b \<longleftrightarrow> a = b"
  by (simp add: feq_def)

lemma max2_cases: "py_max2 a b = a \<or> py_max2 a b = b"
  by (simp add: py_max2_def)

lemma max2_ge1: "a \<noteq> NaN \<Longrightarrow> a \<le> py_max2 a b"
  by (auto simp: py_max2_def flt_le)

lemma max2_ge2: "a \<noteq> NaN \<Longrightarrow> b \<noteq> NaN \<Longrightarrow> b \<le> py_max2 a b"
  by (auto simp: py_max2_def fnot_less)

lemma max2_zero_nonneg [simp]: "0 \<le> py_max2 0 b"
  by (rule max2_ge1) (simp add: zero_pyfloat_def)

lemma max2_not_NaN [simp]: "a \<noteq> NaN \<Longrightarrow> py_max2 a b \<noteq> NaN"
  by (cases a; cases b) (auto simp: py_max2_def)

subsection \<open>Monotone arithmetic\<close>

lemma rnd_mono: "x \<le> y \<Longrightarrow> rnd x \<le> rnd y"
  using rne_mono [of x y] by (auto simp: rnd_def Let_def)

lemma rnd_le_Fin: "x \<le> q \<Longrightarrow> rnd q = Fin q \<Longrightarrow> rnd x \<le> Fin q"
  using rnd_mono [of x q] by simp

lemma rnd_ge_Fin: "q \<le> x \<Longrightarrow> rnd q = Fin q \<Longrightarrow> Fin q \<le> rnd x"
  using rnd_mono [of q x] by simp

lemma rnd_nonneg: "0 \<le> x \<Longrightarrow> Fin 0 \<le> rnd x"
  by (rule rnd_ge_Fin) simp_all

lemma fnonneg_cases:
  assumes "0 \<le> (a::pyfloat)"
  obtains q where "a = Fin q" "0 \<le> q" | "a = PosInf"
  using assms by (cases a) (auto simp: zero_pyfloat_def)

lemma fnonneg_not_NaN: "0 \<le> (a::pyfloat) \<Longrightarrow> a \<noteq> NaN"
  by (auto simp: fle_not_NaN)

lemma fadd_nonneg: "0 \<le> a \<Longrightarrow> 0 \<le> b \<Longrightarrow> 0 \<le> (a + b :: pyfloat)"
  by (erule fnonneg_cases; erule fnonneg_cases) (auto intro: rnd_nonneg simp: zero_pyfloat_def)

lemma fadd_mono:
  "a \<le> b \<Longrightarrow> c \<le> d \<Longrightarrow> a + c \<noteq> NaN \<Longrightarrow> b + d \<noteq> NaN \<Longrightarrow> a + c \<le> (b + d :: pyfloat)"
  by (cases a; cases b; cases c; cases d) (auto intro: rnd_mono, (metis less_eq_pyfloat.simps rnd_not_NaN pyfloat.exhaust)+)

lemma fadd_0: "is_f64 a \<Longrightarrow> a + 0 = a" "is_f64 a \<Longrightarrow> 0 + a = (a::pyfloat)"
  by (cases a; simp add: zero_pyfloat_def)+

lemma fmul_nonneg: "0 \<le> a \<Longrightarrow> 0 \<le> b \<Longrightarrow> a * b \<noteq> NaN \<Longrightarrow> 0 \<le> (a * b :: pyfloat)"
  by (erule fnonneg_cases; erule fnonneg_cases)
    (auto intro: rnd_nonneg simp: zero_pyfloat_def signed_inf_def)

lemma fquot_nonneg: "0 \<le> a \<Longrightarrow> 0 \<le> b \<Longrightarrow> fquot a b \<noteq> NaN \<Longrightarrow> 0 \<le> fquot a b"
  by (erule fnonneg_cases; erule fnonneg_cases)
    (auto intro: rnd_nonneg simp: zero_pyfloat_def signed_inf_def)

lemma fsub_self: "finite_f a \<Longrightarrow> a - a = (0::pyfloat)"
  by (auto simp: minus_pyfloat_def zero_pyfloat_def)

lemma fsub_le_0: "a \<le> b \<Longrightarrow> \<not> 0 < (a - b :: pyfloat)"
proof (cases "\<exists>p q. a = Fin p \<and> b = Fin q")
  case True
  assume "a \<le> b"
  with True obtain p q where "a = Fin p" "b = Fin q" "p - q \<le> 0" by auto
  then show ?thesis using rnd_le_Fin [of "p - q" 0]
    by (auto simp: minus_pyfloat_def zero_pyfloat_def flt_iff dest: fle_antisym)
next
  case False
  assume "a \<le> b"
  with False show ?thesis by (cases a; cases b) (auto simp: minus_pyfloat_def zero_pyfloat_def)
qed

subsection \<open>Gradual underflow\<close>

text \<open>Every finite float is a multiple of the smallest positive one, so the difference of two
  different floats does not round to zero.\<close>

lemma rnd_grid:
  assumes "rnd q = Fin q"
  shows "\<exists>k. q = of_int k * 2 powi (- 1074)"
proof -
  have "q = rne q" using rnd_Fin_rne [OF assms] by simp
  moreover obtain m k where "rne q = of_int m * 2 powi k" "- 1074 \<le> k" by (rule rne_form)
  ultimately have "q = of_int m * (of_int (2 ^ nat (k - - 1074)) * 2 powi (- 1074))"
    using powi_split [of "- 1074" k] by simp
  then have "q = of_int (m * 2 ^ nat (k - - 1074)) * 2 powi (- 1074)"
    by (simp only: mult.assoc of_int_mult)
  then show ?thesis by blast
qed

lemma rnd_tiny: "rnd (2 powi (- 1074)) = Fin (2 powi (- 1074))"
proof (rule rnd_fixed)
  show "rne (2 powi (- 1074)) = 2 powi (- 1074)" using rne_exact [of 1 "- 1074"] by simp
  have "(2::rat) powi (- 1074) \<le> 2 powi 0" by (rule powi_mono) simp
  then have "\<bar>(2::rat) powi (- 1074)\<bar> \<le> 1" by simp
  also have "(1::rat) < 2 ^ 1024" by (rule one_less_power) simp_all
  finally show "\<bar>(2::rat) powi (- 1074)\<bar> < 2 ^ 1024" .
qed

lemma fsub_nonzero:
  assumes "is_f64 (Fin a)" "is_f64 (Fin b)" "a \<noteq> b"
  shows "Fin a - Fin b \<noteq> (0 :: pyfloat)"
proof -
  let ?t = "2 powi (- 1074) :: rat"
  obtain i j where ij: "a = of_int i * ?t" "b = of_int j * ?t"
    using rnd_grid assms(1,2) by (metis is_f64.simps(1))
  have "0 < ?t" by simp
  consider "i < j" | "j < i" using assms(3) ij by (cases i j rule: linorder_cases) auto
  then show ?thesis
  proof cases
    case 1
    then have "of_int i - of_int j \<le> (of_int (- 1) :: rat)" by (simp only: of_int_diff [symmetric] of_int_le_iff)
    then have "(of_int i - of_int j) * ?t \<le> - 1 * ?t" using \<open>0 < ?t\<close> by (intro mult_right_mono) simp_all
    then have "a - b \<le> - ?t" by (simp add: ij left_diff_distrib)
    then have "rnd (a - b) \<le> rnd (- ?t)" by (rule rnd_mono)
    moreover have "rnd (- ?t) = Fin (- ?t)" using rnd_tiny is_f64_uminus [of "Fin ?t"] by simp
    ultimately show ?thesis using \<open>0 < ?t\<close> by (auto simp: minus_pyfloat_def zero_pyfloat_def)
  next
    case 2
    then have "(of_int 1 :: rat) \<le> of_int i - of_int j" by (simp only: of_int_diff [symmetric] of_int_le_iff)
    then have "1 * ?t \<le> (of_int i - of_int j) * ?t" using \<open>0 < ?t\<close> by (intro mult_right_mono) simp_all
    then have "?t \<le> a - b" by (simp add: ij left_diff_distrib)
    then have "Fin ?t \<le> rnd (a - b)" by (rule rnd_ge_Fin) (rule rnd_tiny)
    then show ?thesis using \<open>0 < ?t\<close> by (auto simp: minus_pyfloat_def zero_pyfloat_def)
  qed
qed

subsection \<open>Evaluation of closed terms\<close>

lemma floor_rat_numeral [flt_eval]:
  "\<lfloor>numeral a / numeral b :: rat\<rfloor> = numeral a div numeral b"
  using floor_divide_of_int_eq [of "numeral a" "numeral b", where 'a = rat] by simp

lemma ceiling_rat_numeral [flt_eval]:
  "\<lceil>numeral a / numeral b :: rat\<rceil> = - (- numeral a div numeral b)"
  using floor_divide_of_int_eq [of "- numeral a" "numeral b", where 'a = rat]
  by (simp add: ceiling_def)

lemmas [flt_eval] =
  rnd_def rne_def ulp_exp_def ilog2_def round_even_def Let_def compute_bitlen
  zero_pyfloat_def one_pyfloat_def minus_pyfloat_def signed_inf_def
  feq_def fdiv_def float_of_int_def int_times_def py_max2_def

end
