(* ===== verification/PyText.thy ===== *)
theory PyText
  imports Prelude
begin

text \<open>
  The string operations of the standard library that the harness uses.

  A string is a list of 8-bit characters (code points 0 to 255); every string the program
  itself builds is in that range. \<open>py_split\<close> is \<open>str.split()\<close>, \<open>str_int\<close> is \<open>str(int)\<close>,
  \<open>join_with\<close> is \<open>sep.join\<close>, \<open>partition_at\<close> is \<open>str.partition\<close> and \<open>split_on\<close> is
  \<open>str.split(sep)\<close> for separators of one character.
\<close>

section \<open>Whitespace and words\<close>

definition is_space :: "char \<Rightarrow> bool" where
  "is_space c \<longleftrightarrow>
     (let k = (of_char c :: nat) in 9 \<le> k \<and> k \<le> 13 \<or> 28 \<le> k \<and> k \<le> 32 \<or> k = 133 \<or> k = 160)"

abbreviation nonspace :: "char \<Rightarrow> bool" where
  "nonspace c \<equiv> \<not> is_space c"

fun split_acc :: "string \<Rightarrow> string \<Rightarrow> string list" where
  "split_acc w [] = (if w = [] then [] else [w])"
| "split_acc w (c # cs) =
     (if is_space c then (if w = [] then split_acc [] cs else w # split_acc [] cs)
      else split_acc (w @ [c]) cs)"

definition py_split :: "string \<Rightarrow> string list" where
  "py_split s = split_acc [] s"

definition word :: "string \<Rightarrow> bool" where
  "word w \<longleftrightarrow> w \<noteq> [] \<and> list_all nonspace w"

lemma is_space_blank [simp]: "is_space CHR '' ''"
  by (simp add: is_space_def)

lemma py_split_Nil [simp]: "py_split [] = []"
  by (simp add: py_split_def)

lemma py_split_space [simp]: "is_space c \<Longrightarrow> py_split (c # s) = py_split s"
  by (simp add: py_split_def)

lemma split_acc_word: "list_all nonspace v \<Longrightarrow> split_acc w v = (if w @ v = [] then [] else [w @ v])"
  by (induction v arbitrary: w) auto

lemma py_split_word: "word w \<Longrightarrow> py_split w = [w]"
  by (simp add: py_split_def word_def split_acc_word)

lemma split_length: "length (py_split s) \<le> length s"
proof -
  have "length (split_acc w s) \<le> length s + (if w = [] then 0 else 1)" for w
    by (induction w s rule: split_acc.induct) (auto split: if_splits)
  from this [of "[]"] show ?thesis by (simp add: py_split_def)
qed

lemma py_split_words: "w \<in> set (py_split s) \<Longrightarrow> word w"
proof -
  have "list_all nonspace v \<Longrightarrow> list_all word (split_acc v s)" for v
  proof (induction s arbitrary: v)
    case (Cons c cs)
    show ?case
    proof (cases "is_space c")
      case True
      moreover have "list_all word (split_acc [] cs)" using Cons.IH [of "[]"] by simp
      ultimately show ?thesis using Cons.prems by (simp add: word_def [of v])
    next
      case False
      then show ?thesis using Cons.IH [of "v @ [c]"] Cons.prems by simp
    qed
  qed (simp add: word_def)
  from this [of "[]"] show "w \<in> set (py_split s) \<Longrightarrow> word w" by (auto simp: py_split_def list_all_iff)
qed

text \<open>Splitting is local: a blank between two texts separates their words.\<close>

lemma py_split_append:
  assumes "is_space b"
  shows "py_split (s @ b # t) = py_split s @ py_split t"
proof -
  have "split_acc w (s @ b # t) = split_acc w s @ py_split t" for w
    using assms by (induction s arbitrary: w) (auto simp: py_split_def)
  then show ?thesis by (simp add: py_split_def)
qed

section \<open>Joining\<close>

fun join_with :: "string \<Rightarrow> string list \<Rightarrow> string" where
  "join_with sep [] = []"
| "join_with sep [s] = s"
| "join_with sep (s # t # ts) = s @ sep @ join_with sep (t # ts)"

lemma py_split_join:
  "list_all word ws \<Longrightarrow> py_split (join_with '' '' ws) = ws"
proof (induction "'' ''" ws rule: join_with.induct)
  case (2 s)
  then show ?case using py_split_word [of s] by simp
next
  case (3 s t ts)
  then show ?case using py_split_append [of "CHR '' ''" s] py_split_word [of s] by simp
qed simp

section \<open>Decimal integers\<close>

definition digit :: "nat \<Rightarrow> char" where
  "digit d = char_of (48 + d)"

definition is_digit :: "char \<Rightarrow> bool" where
  "is_digit c \<longleftrightarrow> 48 \<le> (of_char c :: nat) \<and> (of_char c :: nat) \<le> 57"

definition digit_val :: "char \<Rightarrow> nat" where
  "digit_val c = of_char c - 48"

fun str_nat :: "nat \<Rightarrow> string" where
  "str_nat n = (if n < 10 then [digit n] else str_nat (n div 10) @ [digit (n mod 10)])"

declare str_nat.simps [simp del]

definition str_int :: "int \<Rightarrow> string" where
  "str_int i = (if i < 0 then CHR ''-'' # str_nat (nat (- i)) else str_nat (nat i))"

definition digits_val :: "string \<Rightarrow> nat" where
  "digits_val ds = foldl (\<lambda>n c. 10 * n + digit_val c) 0 ds"

lemma of_char_digit: "d < 10 \<Longrightarrow> (of_char (digit d) :: nat) = 48 + d"
  by (simp add: digit_def)

lemma digit_facts [simp]:
  assumes "d < 10"
  shows "digit_val (digit d) = d" "is_digit (digit d)" "nonspace (digit d)"
  using assms by (simp_all add: digit_val_def is_digit_def is_space_def of_char_digit Let_def)

lemma digits_val_snoc [simp]: "digits_val (ds @ [c]) = 10 * digits_val ds + digit_val c"
  by (simp add: digits_val_def)

lemma str_nat_val [simp]: "digits_val (str_nat n) = n"
proof (induction n rule: str_nat.induct)
  case (1 n)
  show ?case
  proof (cases "n < 10")
    case True
    then show ?thesis by (subst str_nat.simps) (simp add: digits_val_def)
  next
    case False
    then show ?thesis using 1 by (subst str_nat.simps) simp
  qed
qed

lemma str_nat_inj: "str_nat m = str_nat n \<longleftrightarrow> m = n"
  by (metis str_nat_val)

lemma str_nat_digits: "list_all is_digit (str_nat n) \<and> str_nat n \<noteq> []"
proof (induction n rule: str_nat.induct)
  case (1 n)
  then show ?case by (subst (1 2) str_nat.simps) simp
qed

lemma digit_nonspace: "is_digit c \<Longrightarrow> nonspace c"
  by (auto simp: is_digit_def is_space_def Let_def)

lemma str_nat_word: "word (str_nat n)"
  using str_nat_digits [of n] by (auto simp: word_def list_all_iff digit_nonspace)

text \<open>The integer a decimal string denotes, for strings of digits with an optional minus\<close>

fun int_of_str :: "string \<Rightarrow> int option" where
  "int_of_str [] = None"
| "int_of_str (c # cs) =
     (if c = CHR ''-'' then (if cs \<noteq> [] \<and> list_all is_digit cs then Some (- int (digits_val cs)) else None)
      else if list_all is_digit (c # cs) then Some (int (digits_val (c # cs))) else None)"

lemma not_digit_minus [simp]: "\<not> is_digit CHR ''-''"
  by (simp add: is_digit_def)

lemma int_of_str_str_int [simp]: "int_of_str (str_int i) = Some i"
proof (cases "i < 0")
  case True
  then show ?thesis using str_nat_digits by (simp add: str_int_def)
next
  case False
  obtain c cs where cs: "str_nat (nat i) = c # cs" using str_nat_digits by (meson neq_Nil_conv)
  then have "list_all is_digit (c # cs)" "digits_val (c # cs) = nat i"
    using str_nat_digits str_nat_val by metis+
  moreover from this(1) have "c \<noteq> CHR ''-''" by auto
  ultimately show ?thesis using False cs by (simp add: str_int_def)
qed

section \<open>Separators\<close>

text \<open>\<open>s.split(sep)\<close> for a one-character separator: never empty\<close>

fun split_on :: "char \<Rightarrow> string \<Rightarrow> string list" where
  "split_on sep [] = [[]]"
| "split_on sep (c # cs) =
     (if c = sep then [] # split_on sep cs
      else (case split_on sep cs of [] \<Rightarrow> [[c]] | p # ps \<Rightarrow> (c # p) # ps))"

text \<open>\<open>s.partition(sep)\<close>: the part before, and what follows when the separator occurs\<close>

definition partition_at :: "char \<Rightarrow> string \<Rightarrow> string \<times> string" where
  "partition_at sep s = (takeWhile (\<lambda>c. c \<noteq> sep) s, drop 1 (dropWhile (\<lambda>c. c \<noteq> sep) s))"

definition strip :: "string \<Rightarrow> string" where
  "strip s = rev (dropWhile is_space (rev (dropWhile is_space s)))"

fun starts_with :: "string \<Rightarrow> string \<Rightarrow> bool" where
  "starts_with [] s = True"
| "starts_with (p # ps) [] = False"
| "starts_with (p # ps) (c # cs) = (p = c \<and> starts_with ps cs)"

lemma starts_with_append [simp]: "starts_with p (p @ s)"
  by (induction p) simp_all

lemma starts_with_iff: "starts_with p s \<longleftrightarrow> (\<exists>t. s = p @ t)"
  by (induction p s rule: starts_with.induct) auto

lemma split_on_nonempty [simp]: "split_on sep s \<noteq> []"
  by (induction s) (auto split: list.splits)

lemma split_on_none: "sep \<notin> set s \<Longrightarrow> split_on sep s = [s]"
  by (induction s) auto

lemma split_on_append: "sep \<notin> set s \<Longrightarrow> split_on sep (s @ sep # t) = s # split_on sep t"
  by (induction s) auto

lemma split_on_join:
  "ps \<noteq> [] \<Longrightarrow> list_all (\<lambda>p. sep \<notin> set p) ps \<Longrightarrow> split_on sep (join_with [sep] ps) = ps"
  by (induction "[sep]" ps rule: join_with.induct) (auto simp: split_on_none split_on_append)

end
