(* ===== verification/Requests.thy ===== *)
theory Requests
  imports PyFloat PyText
begin

text \<open>
  \<open>TurnRequest\<close> of \<open>src/bench/sim/workload.py\<close>, the record the generator produces and the
  engine, the live sender and the policies consume, with the chat messages it carries. A
  message is a dictionary with a role and a content; an assistant message may carry tool
  calls and a tool message the id of the call it answers, which are optional fields here.
\<close>

record tool_call =
  tc_id :: string
  tc_type :: string
  tc_name :: string
  tc_arguments :: string

record message =
  m_role :: string
  m_content :: string
  m_tool_calls :: "tool_call list option"
  m_tool_call_id :: "string option"

record TurnRequest =
  r_session_id :: int
  r_turn_idx :: int
  r_arrival :: pyfloat
  r_tokens :: "int list"
  r_block_hashes :: "int list"
  r_gen_tokens :: int
  r_messages :: "message list"
  r_kind :: string
  r_conversation_id :: "int option"
  r_tool_name :: "string option"

definition plain_message :: "string \<Rightarrow> string \<Rightarrow> message" where
  "plain_message role content =
     \<lparr>m_role = role, m_content = content, m_tool_calls = None, m_tool_call_id = None\<rparr>"

end
