(* ===== verification/Prompt.thy ===== *)
theory Prompt
  imports PyText "HOL-Library.Sublist"
begin

text \<open>
  \<open>src/bench/prompt.py\<close>: the shared system prompt. \<open>build_prompt\<close> is the loop of
  \<open>_build_system_prompt\<close>, which appends the sections in order, cyclically, until their
  length (each counted with the joiner after it) reaches the target; \<open>PROMPT_SECTIONS\<close> is the
  literal text.
\<close>

section \<open>Constants\<close>

definition SYSTEM_PROMPT_TARGET_TOKENS :: int where
  "SYSTEM_PROMPT_TARGET_TOKENS = 4096"

definition CHARS_PER_TOKEN :: int where
  "CHARS_PER_TOKEN = 4"

definition PROMPT_SECTIONS :: "string list" where
  "PROMPT_SECTIONS =
    [''You are Aria, the virtual support assistant for Northwind Logistics, a '' @
      ''global freight and supply-chain company. You help customers, drivers, and '' @
      ''internal dispatch staff resolve questions about shipments, billing, '' @
      ''routing, and account administration. You are precise, calm, and never '' @
      ''invent facts about a customer's account.'',
     ''Primary objectives, in priority order: (1) keep the customer safe and '' @
      ''compliant, (2) resolve the request correctly on the first contact, (3) '' @
      ''minimize the customer's effort, and (4) protect Northwind's confidential '' @
      ''and proprietary information. When two objectives conflict, favor the one '' @
      ''higher in this list and explain the trade-off plainly.'',
     ''Tone and voice: warm, professional, and concise. Prefer plain language '' @
      ''over jargon. Address the user by name once you know it. Do not use '' @
      ''exclamation marks in error or billing contexts. Never be sarcastic. When '' @
      ''delivering bad news, lead with empathy, then state the facts, then offer '' @
      ''the next best available option.'',
     ''Formatting: default to short paragraphs. Use bullet lists for three or '' @
      ''more parallel items and numbered lists only for ordered steps the user '' @
      ''must follow in sequence. Put currency amounts in the customer's local '' @
      ''format. Render tracking numbers, order IDs, and container numbers in a '' @
      ''monospace span so they are easy to copy.'',
     ''Length: match the response to the question. A yes/no question gets a one '' @
      ''or two sentence answer plus the single most relevant caveat. A '' @
      ''troubleshooting request gets an ordered checklist. Never pad a response to '' @
      ''seem thorough; brevity that fully answers the question is preferred over '' @
      ''completeness that buries the answer.'',
     ''Handling ambiguity: if a request could reasonably mean two different '' @
      ''things and the difference changes your answer, ask exactly one clarifying '' @
      ''question before proceeding. If the ambiguity does not change the answer, '' @
      ''state your assumption in a single clause and continue rather than stalling '' @
      ''the conversation with unnecessary questions.'',
     ''Factual accuracy: only state account-specific facts that appear in the '' @
      ''tool results provided to you in this session. If you do not have the data, '' @
      ''say you will look it up or route the request, and never guess a shipment '' @
      ''status, an arrival time, or a charge. Distinguish clearly between '' @
      ''Northwind policy (stable) and live operational data (may have changed '' @
      ''since fetch).'',
     ''Safety and refusals: decline to help with anything that facilitates theft '' @
      ''of cargo, circumvention of customs, falsification of shipping documents, '' @
      ''or evasion of sanctions and export controls. Refuse briefly, without '' @
      ''lecturing, and offer a lawful alternative when one exists. Escalate '' @
      ''suspected fraud to a human agent using the escalation tool.'',
     ''Privacy and PII: treat names, addresses, phone numbers, government IDs, '' @
      ''and payment details as confidential. Never read a full payment card number '' @
      ''or government ID back to the user; reference only the last four digits. Do '' @
      ''not disclose one customer's information to another, and verify identity '' @
      ''with the standard two-factor check before discussing account specifics.'',
     ''Code and technical assistance: some internal users ask for help with API '' @
      ''integrations against the Northwind Shipments API. Provide correct, minimal '' @
      ''examples, prefer the current v3 endpoints, and always show authentication '' @
      ''and error handling. Note rate limits (600 requests/minute per key) and '' @
      ''point to the developer portal for the full schema rather than inventing '' @
      ''fields.'',
     ''Numbers and units: freight is quoted per billable weight, the greater of '' @
      ''actual and dimensional weight. Show your arithmetic when you compute a '' @
      ''quote, state the unit on every figure, and convert between metric and '' @
      ''imperial only when the user's locale calls for it. Round money to the '' @
      ''nearest cent and never round a tracking count or piece count.'',
     ''Multilingual support: respond in the language the user writes in when it '' @
      ''is one of English, Spanish, French, German, or Portuguese. If the user '' @
      ''switches languages mid-conversation, follow them. For languages outside '' @
      ''that set, answer in English and offer to continue with a human agent who '' @
      ''speaks the requested language.'',
     ''Tool use etiquette: call a tool only when you actually need fresh data or '' @
      ''an action taken; do not call tools to answer questions you can answer from '' @
      ''policy. Before a state-changing action such as canceling a pickup or '' @
      ''issuing a refund, summarize what you are about to do and get explicit '' @
      ''confirmation. Report tool failures honestly instead of pretending success.'',
     ''Escalation to humans: hand off to a human agent when the user explicitly '' @
      ''asks, when identity verification fails twice, when a claim exceeds your '' @
      ''authorization limit of 500 USD, or when the user is clearly distressed. '' @
      ''When you escalate, write a two-line summary of the issue and what you have '' @
      ''already tried so the human does not have to start over.'',
     ''Prohibited content: do not produce legal, tax, or medical advice; instead '' @
      ''point the user to the appropriate professional or Northwind department. Do '' @
      ''not speculate about the contents of a sealed shipment. Do not comment on '' @
      ''Northwind's stock price, pending litigation, or unannounced products, and '' @
      ''route press or investor questions to communications@northwind.example.'',
     ''Closing guidance: at the end of a resolved interaction, confirm the '' @
      ''outcome in one sentence, state any follow-up the user should expect and '' @
      ''when, and invite them to reply if anything is still unclear. If the issue '' @
      ''is unresolved, be explicit about what happens next and who owns it. Always '' @
      ''leave the user knowing the current state of their request.'']"

section \<open>Assembling the prompt\<close>

definition prompt_section :: "nat \<Rightarrow> string" where
  "prompt_section i = PROMPT_SECTIONS ! (i mod length PROMPT_SECTIONS)"

function build_prompt :: "int \<Rightarrow> nat \<Rightarrow> int \<Rightarrow> string list \<Rightarrow> string list" where
  "build_prompt target_chars i len parts =
     (if len < target_chars
      then build_prompt target_chars (i + 1) (len + int (length (prompt_section i)) + 2)
             (parts @ [prompt_section i])
      else parts)"
  by pat_completeness auto
termination
  by (relation "measure (\<lambda>(target, i, len, parts). nat (target - len))") auto

declare build_prompt.simps [simp del]

definition build_system_prompt :: "int \<Rightarrow> string" where
  "build_system_prompt target_tokens =
     join_with [CHR 0x0A, CHR 0x0A] (build_prompt (target_tokens * CHARS_PER_TOKEN) 0 0 [])"

definition SYSTEM_PROMPT :: string where
  "SYSTEM_PROMPT = build_system_prompt SYSTEM_PROMPT_TARGET_TOKENS"

section \<open>What the loop computes\<close>

text \<open>The first \<open>n\<close> sections and their accounted length\<close>

definition sections :: "nat \<Rightarrow> string list" where
  "sections n = map prompt_section [0..<n]"

definition accounted :: "nat \<Rightarrow> int" where
  "accounted n = (\<Sum>i<n. int (length (prompt_section i)) + 2)"

lemma sections_Suc: "sections (Suc n) = sections n @ [prompt_section n]"
  by (simp add: sections_def)

lemma accounted_Suc: "accounted (Suc n) = accounted n + int (length (prompt_section n)) + 2"
  by (simp add: accounted_def)

lemma build_prompt_sections:
  "\<exists>n \<ge> i. build_prompt target i (accounted i) (sections i) = sections n \<and> target \<le> accounted n \<and>
     (\<forall>m. i \<le> m \<and> m < n \<longrightarrow> accounted m < target)"
proof (induction "nat (target - accounted i)" arbitrary: i rule: less_induct)
  case less
  show ?case
  proof (cases "accounted i < target")
    case True
    have "nat (target - accounted (Suc i)) < nat (target - accounted i)"
      using True by (simp add: accounted_Suc)
    from less [OF this] obtain n where n: "Suc i \<le> n" "target \<le> accounted n"
        "build_prompt target (Suc i) (accounted (Suc i)) (sections (Suc i)) = sections n"
        "\<And>m. Suc i \<le> m \<Longrightarrow> m < n \<Longrightarrow> accounted m < target"
      by blast
    have "build_prompt target i (accounted i) (sections i) = sections n"
      using True n(3) by (simp add: build_prompt.simps [of target i] accounted_Suc sections_Suc)
    moreover have "accounted m < target" if "i \<le> m" "m < n" for m
      using True n(4) [of m] that by (cases "m = i") simp_all
    ultimately show ?thesis using n(1,2) by (intro exI [of _ n]) simp
  next
    case False
    then show ?thesis by (intro exI [of _ i]) (simp add: build_prompt.simps)
  qed
qed

lemma build_system_prompt_sections:
  obtains n where "build_system_prompt t = join_with [CHR 0x0A, CHR 0x0A] (sections n)"
    and "4 * t \<le> accounted n" and "\<And>m. m < n \<Longrightarrow> accounted m < 4 * t"
  using build_prompt_sections [of 0 "4 * t"]
  by (auto simp: build_system_prompt_def CHARS_PER_TOKEN_def sections_def accounted_def mult.commute)

lemma join_length:
  "xs \<noteq> [] \<Longrightarrow> int (length (join_with sep xs)) + int (length sep) =
     (\<Sum>x\<leftarrow>xs. int (length x) + int (length sep))"
  by (induction sep xs rule: join_with.induct) simp_all

lemma join_sections_length:
  "0 < n \<Longrightarrow> int (length (join_with [a, b] (sections n))) = accounted n - 2"
  using join_length [of "sections n" "[a, b]"]
  by (simp add: sections_def accounted_def interv_sum_list_conv_sum_set_nat comp_def atLeast0LessThan)

lemma join_append_prefix: "prefix (join_with sep xs) (join_with sep (xs @ ys))"
proof (induction sep xs rule: join_with.induct)
  case (2 sep s)
  then show ?case by (cases ys) simp_all
qed simp_all

lemma prompt_section_length: "length (prompt_section i) \<le> 372"
proof -
  have "\<forall>s \<in> set PROMPT_SECTIONS. length s \<le> 372" by (simp add: PROMPT_SECTIONS_def)
  moreover have "PROMPT_SECTIONS \<noteq> []" by (simp add: PROMPT_SECTIONS_def)
  ultimately show ?thesis by (simp add: prompt_section_def)
qed

text \<open>The system prompt has the size it was asked for, up to one section: at least four
  characters a token (less the joiner after the last section) and less than a section more; and a
  smaller target gives a prefix of what a larger one gives, so the shared prefix is stable.\<close>

lemma system_prompt_size_and_prefix:
  assumes "0 < t" and "t \<le> t'"
  shows "4 * t - 2 \<le> int (length (build_system_prompt t)) \<and>
    int (length (build_system_prompt t)) < 4 * t + 372 \<and>
    prefix (build_system_prompt t) (build_system_prompt t')"
proof -
  obtain n where n: "build_system_prompt t = join_with [CHR 0x0A, CHR 0x0A] (sections n)"
      "4 * t \<le> accounted n" "\<And>m. m < n \<Longrightarrow> accounted m < 4 * t"
    using build_system_prompt_sections by blast
  obtain n' where n': "build_system_prompt t' = join_with [CHR 0x0A, CHR 0x0A] (sections n')"
      "4 * t' \<le> accounted n'"
    using build_system_prompt_sections by blast
  have pos: "0 < n" using n(2) assms(1) by (cases n) (simp_all add: accounted_def)
  then have len: "int (length (build_system_prompt t)) = accounted n - 2"
    using n(1) join_sections_length by simp
  have "accounted (n - 1) < 4 * t" using n(3) [of "n - 1"] pos by simp
  then have "accounted n < 4 * t + 374"
    using accounted_Suc [of "n - 1"] prompt_section_length [of "n - 1"] pos by simp
  moreover have "n \<le> n'" using n(3) [of n'] n'(2) assms(2) by linarith
  then have "sections n' = sections n @ map prompt_section [n..<n']"
    using upt_add_eq_append [of 0 n "n' - n"] by (simp add: sections_def flip: map_append)
  then have "prefix (build_system_prompt t) (build_system_prompt t')"
    using join_append_prefix n(1) n'(1) by metis
  ultimately show ?thesis using n(2) len by simp
qed

end
