(* ===== verification/PyDict.thy ===== *)
theory PyDict
  imports Prelude
begin

text \<open>
  Python's \<open>dict\<close> and \<open>collections.OrderedDict\<close>: a finite map that remembers the
  order in which its keys were inserted. A dictionary is the list of its items, oldest
  first; assigning to a present key keeps its place, deleting and reassigning moves it to
  the end. \<open>OrderedDict\<close> adds \<open>move_to_end\<close> and \<open>popitem(last=False)\<close>, which
  removes the oldest item and raises \<open>KeyError\<close> on an empty dictionary.

  The locale \<open>lru_table\<close> is the contract of the capacity-bounded tables of the router
  (\<open>_RouterIndex\<close>, \<open>ToolGapIndex\<close>, the last-seen table of \<open>observe_gap\<close>): a use
  makes its key the newest, and the trimming loop drops oldest keys until the bound holds.
\<close>

type_synonym ('k, 'v) pydict = "('k \<times> 'v) list"

definition d_keys :: "('k, 'v) pydict \<Rightarrow> 'k list" where
  "d_keys d = map fst d"

definition d_get :: "('k, 'v) pydict \<Rightarrow> 'k \<Rightarrow> 'v option" where
  "d_get d k = map_of d k"

definition d_has :: "('k, 'v) pydict \<Rightarrow> 'k \<Rightarrow> bool" where
  "d_has d k \<longleftrightarrow> k \<in> set (d_keys d)"

definition d_set :: "'k \<Rightarrow> 'v \<Rightarrow> ('k, 'v) pydict \<Rightarrow> ('k, 'v) pydict" where
  "d_set k v d = AList.update k v d"

text \<open>\<open>d.pop(k, None)\<close>, keeping only the effect\<close>

definition d_pop :: "'k \<Rightarrow> ('k, 'v) pydict \<Rightarrow> ('k, 'v) pydict" where
  "d_pop k d = AList.delete k d"

text \<open>\<open>d.pop(k, None); d[k] = v\<close>: the item becomes the newest\<close>

definition d_touch :: "'k \<Rightarrow> 'v \<Rightarrow> ('k, 'v) pydict \<Rightarrow> ('k, 'v) pydict" where
  "d_touch k v d = d_set k v (d_pop k d)"

fun d_popitem_first :: "('k, 'v) pydict \<Rightarrow> ('k, 'v) pydict res" where
  "d_popitem_first [] = Inl KeyError"
| "d_popitem_first (x # d) = Inr d"

text \<open>\<open>while len(d) > cap: d.popitem(last=False)\<close>\<close>

fun d_trim :: "int \<Rightarrow> ('k, 'v) pydict \<Rightarrow> ('k, 'v) pydict res" where
  "d_trim cap [] = (if cap < 0 then Inl KeyError else Inr [])"
| "d_trim cap (x # d) = (if cap < int (length (x # d)) then d_trim cap d else Inr (x # d))"

definition d_ok :: "('k, 'v) pydict \<Rightarrow> bool" where
  "d_ok d \<longleftrightarrow> distinct (d_keys d)"

section \<open>Lookups and keys\<close>

lemma d_keys_simps [simp]:
  "d_keys [] = []" "d_keys (x # d) = fst x # d_keys d" "d_keys (d @ e) = d_keys d @ d_keys e"
  "length (d_keys d) = length d"
  by (simp_all add: d_keys_def)

lemma d_keys_Nil_iff [simp]: "d_keys d = [] \<longleftrightarrow> d = []"
  by (simp add: d_keys_def)

lemma d_get_None_iff [dict_simps]: "d_get d k = None \<longleftrightarrow> k \<notin> set (d_keys d)"
  by (simp add: d_get_def d_keys_def map_of_eq_None_iff)

lemma d_has_iff [dict_simps]: "d_has d k \<longleftrightarrow> k \<in> set (d_keys d)"
  by (simp add: d_has_def)

lemma d_get_Some_mem: "d_get d k = Some v \<Longrightarrow> k \<in> set (d_keys d)"
  using d_get_None_iff [of d k] by fastforce

lemma d_get_empty [simp]: "d_get [] k = None"
  by (simp add: d_get_def)

lemma d_get_set [dict_simps]: "d_get (d_set k v d) k' = (if k' = k then Some v else d_get d k')"
  by (auto simp: d_get_def d_set_def update_conv')

lemma d_get_pop [dict_simps]: "d_get (d_pop k d) k' = (if k' = k then None else d_get d k')"
  by (auto simp: d_get_def d_pop_def delete_conv')

lemma d_keys_pop [dict_simps]: "d_keys (d_pop k d) = filter (\<lambda>x. x \<noteq> k) (d_keys d)"
  by (auto simp: d_keys_def d_pop_def delete_keys removeAll_filter_not_eq intro!: filter_cong)

lemma set_d_keys_set [dict_simps]: "set (d_keys (d_set k v d)) = insert k (set (d_keys d))"
  by (simp add: d_keys_def d_set_def dom_update flip: set_map)
    (induction d; auto)

lemma update_append: "k \<notin> set (d_keys d) \<Longrightarrow> d_set k v d = d @ [(k, v)]"
  by (induction d) (auto simp: d_set_def)

lemma d_touch_eq: "d_touch k v d = d_pop k d @ [(k, v)]"
  by (simp add: d_touch_def update_append d_keys_pop)

lemma d_keys_touch [dict_simps]: "d_keys (d_touch k v d) = filter (\<lambda>x. x \<noteq> k) (d_keys d) @ [k]"
  by (simp add: d_touch_eq d_keys_pop)

lemma d_get_touch [dict_simps]: "d_get (d_touch k v d) k' = (if k' = k then Some v else d_get d k')"
  by (simp add: d_touch_def d_get_set d_get_pop)

lemma d_get_None_pop: "d_get d k = None \<Longrightarrow> d_pop k d = d"
  by (simp add: d_pop_def d_get_None_iff d_keys_def delete_idem)

lemma d_pop_empty [simp]: "d_pop k [] = []"
  by (simp add: d_pop_def)

lemma d_ok_empty [simp]: "d_ok []"
  by (simp add: d_ok_def)

lemma d_ok_set [simp]: "d_ok d \<Longrightarrow> d_ok (d_set k v d)"
  by (simp add: d_ok_def d_keys_def d_set_def distinct_update)

lemma d_ok_pop [simp]: "d_ok d \<Longrightarrow> d_ok (d_pop k d)"
  by (simp add: d_ok_def d_keys_pop)

lemma d_ok_touch [simp]: "d_ok d \<Longrightarrow> d_ok (d_touch k v d)"
  by (simp add: d_touch_def)

lemma list_all_d_set: "list_all P d \<Longrightarrow> P (k, v) \<Longrightarrow> list_all P (d_set k v d)"
  by (induction d) (auto simp: d_set_def)

lemma list_all_d_pop: "list_all P d \<Longrightarrow> list_all P (d_pop k d)"
  by (auto simp: d_pop_def AList.delete_eq list_all_iff)

lemma list_all_d_touch: "list_all P d \<Longrightarrow> P (k, v) \<Longrightarrow> list_all P (d_touch k v d)"
  by (simp add: d_touch_def list_all_d_set list_all_d_pop)

lemma d_get_mem: "d_get d k = Some v \<Longrightarrow> (k, v) \<in> set d"
  by (simp add: d_get_def map_of_SomeD)

section \<open>The trimming loop\<close>

lemma d_trim_eq:
  "d_trim cap d = (if cap < 0 then Inl KeyError else Inr (drop (length d - nat cap) d))"
proof (induction d)
  case Nil
  then show ?case by simp
next
  case (Cons x d)
  show ?case
  proof (cases "cap < int (length (x # d))")
    case True
    then have "\<not> cap < 0 \<Longrightarrow> length (x # d) - nat cap = Suc (length d - nat cap)" by auto
    with True Cons.IH show ?thesis by simp
  next
    case False
    then show ?thesis by auto
  qed
qed

lemma d_keys_drop: "d_keys (drop n d) = drop n (d_keys d)"
  by (simp add: d_keys_def drop_map)

lemma d_ok_drop [simp]: "d_ok d \<Longrightarrow> d_ok (drop n d)"
  by (simp add: d_ok_def d_keys_drop)

section \<open>Bounded LRU tables\<close>

locale lru_table =
  fixes keys :: "'t \<Rightarrow> 'k list"
    and lookup :: "'t \<Rightarrow> 'k \<Rightarrow> 'v option"
    and use_key :: "'k \<Rightarrow> 'v \<Rightarrow> 't \<Rightarrow> 't"
    and trim :: "int \<Rightarrow> 't \<Rightarrow> 't res"
  assumes keys_use: "keys (use_key k v t) = filter (\<lambda>x. x \<noteq> k) (keys t) @ [k]"
    and lookup_use: "lookup (use_key k v t) k' = (if k' = k then Some v else lookup t k')"
    and trim_raises: "cap < 0 \<Longrightarrow> trim cap t = Inl KeyError"
    and trim_returns: "0 \<le> cap \<Longrightarrow> \<exists>t'. trim cap t = Inr t'"
    and keys_trim: "trim cap t = Inr t' \<Longrightarrow> keys t' = drop (length (keys t) - nat cap) (keys t)"
    and lookup_trim: "trim cap t = Inr t' \<Longrightarrow> distinct (keys t) \<Longrightarrow> k \<in> set (keys t') \<Longrightarrow>
      lookup t' k = lookup t k"
begin

lemma record_bounded: "trim cap (use_key k v t) = Inr t' \<Longrightarrow> int (length (keys t')) \<le> cap"
proof -
  assume r: "trim cap (use_key k v t) = Inr t'"
  then have "0 \<le> cap" using trim_raises [of cap] by (cases "cap < 0") auto
  with keys_trim [OF r] show ?thesis by auto
qed

lemma record_distinct:
  assumes "trim cap (use_key k v t) = Inr t'" and "distinct (keys t)"
  shows "distinct (keys t')"
proof -
  have "distinct (keys (use_key k v t))" using assms(2) by (simp add: keys_use)
  then show ?thesis using keys_trim [OF assms(1)] by simp
qed

lemma record_newest:
  assumes "trim cap (use_key k v t) = Inr t'" and "0 < cap" and "distinct (keys t)"
  shows "last (keys t') = k" "lookup t' k = Some v"
proof -
  let ?u = "use_key k v t"
  have k': "keys t' = drop (length (keys ?u) - nat cap) (keys ?u)"
    using assms(1) by (rule keys_trim)
  have "length (keys ?u) - nat cap \<le> length (filter (\<lambda>x. x \<noteq> k) (keys t))"
    using assms(2) by (simp add: keys_use)
  then have eq: "keys t' = drop (length (keys ?u) - nat cap) (filter (\<lambda>x. x \<noteq> k) (keys t)) @ [k]"
    by (simp add: k' keys_use)
  then show "last (keys t') = k" by simp
  have "distinct (keys ?u)" using assms(3) by (simp add: keys_use)
  then have "lookup t' k = lookup ?u k"
    using lookup_trim [of cap ?u t' k] assms(1) eq by simp
  then show "lookup t' k = Some v" by (simp add: lookup_use)
qed

lemma record_keeps_recent:
  assumes "trim cap (use_key k v t) = Inr t'"
  shows "keys t' = drop (length (filter (\<lambda>x. x \<noteq> k) (keys t)) + 1 - nat cap)
                     (filter (\<lambda>x. x \<noteq> k) (keys t) @ [k])"
  using keys_trim [of cap "use_key k v t" t'] assms by (simp add: keys_use)

end

lemma d_get_drop:
  assumes "distinct (d_keys d)" and "k \<in> set (d_keys (drop n d))"
  shows "d_get (drop n d) k = d_get d k"
proof -
  have "distinct (d_keys (take n d) @ d_keys (drop n d))"
    using assms(1) by (metis append_take_drop_id d_keys_simps(3))
  then have "k \<notin> set (d_keys (take n d))" using assms(2) by auto
  then have "map_of (take n d) k = None" by (simp add: d_keys_def map_of_eq_None_iff)
  then have "map_of (take n d @ drop n d) k = map_of (drop n d) k"
    by (simp only: map_of_append map_add_def) (simp split: option.split)
  then show ?thesis by (simp add: d_get_def)
qed

interpretation dict_lru: lru_table d_keys d_get d_touch d_trim
  by unfold_locales
    (auto simp: d_keys_touch d_get_touch d_trim_eq d_keys_drop d_get_drop split: if_splits)

end
