(* ===== verification/Tokenizer.thy ===== *)
theory Tokenizer
  imports Prompt PyDict
begin

text \<open>
  The word-level tokenizer of \<open>src/bench/sim/workload.py\<close>: \<open>_VOCAB\<close>, a module-level
  dictionary from words to token ids that grows as text is tokenized, is threaded through
  \<open>tokenize\<close>. Importing the module tokenizes the system prompt, which gives the vocabulary
  every run starts from.
\<close>

section \<open>Operations\<close>

type_synonym vocab = "(string, int) pydict"

definition token_id :: "string \<Rightarrow> vocab \<Rightarrow> int \<times> vocab" where
  "token_id w v =
     (case d_get v w of
        None \<Rightarrow> (int (length v), d_set w (int (length v)) v)
      | Some tid \<Rightarrow> (tid, v))"

fun tokenize_words :: "string list \<Rightarrow> vocab \<Rightarrow> int list \<times> vocab" where
  "tokenize_words [] v = ([], v)"
| "tokenize_words (w # ws) v =
     (case token_id w v of (tid, v1) \<Rightarrow>
      (case tokenize_words ws v1 of (ids, v2) \<Rightarrow> (tid # ids, v2)))"

definition tokenize :: "string \<Rightarrow> vocab \<Rightarrow> int list \<times> vocab" where
  "tokenize s v = tokenize_words (py_split s) v"

definition SYSTEM_TOKENS :: "int list" where
  "SYSTEM_TOKENS = fst (tokenize SYSTEM_PROMPT [])"

definition initial_vocab :: vocab where
  "initial_vocab = snd (tokenize SYSTEM_PROMPT [])"

section \<open>Invariant: ids are insertion positions\<close>

definition vocab_ok :: "vocab \<Rightarrow> bool" where
  "vocab_ok v \<longleftrightarrow> d_ok v \<and> map snd v = map int [0..<length v]"

text \<open>The word a token id stands for, and its inverse on texts\<close>

definition word_of :: "vocab \<Rightarrow> int \<Rightarrow> string" where
  "word_of v tid = fst (v ! nat tid)"

definition known :: "vocab \<Rightarrow> int \<Rightarrow> bool" where
  "known v tid \<longleftrightarrow> 0 \<le> tid \<and> tid < int (length v)"

lemma vocab_ok_Nil [simp]: "vocab_ok []"
  by (simp add: vocab_ok_def d_ok_def d_keys_def)

lemma vocab_get:
  assumes "vocab_ok v" "d_get v w = Some tid"
  shows "known v tid \<and> word_of v tid = w"
proof -
  from assms(2) have "(w, tid) \<in> set v" by (rule d_get_mem)
  then obtain i where i: "i < length v" "v ! i = (w, tid)" by (auto simp: in_set_conv_nth)
  have "map snd v ! i = map int [0..<length v] ! i" using assms(1) by (simp add: vocab_ok_def)
  then have "tid = int i" using i by simp
  then show ?thesis using i by (simp add: known_def word_of_def)
qed

lemma token_id_spec:
  assumes "vocab_ok v" "token_id w v = (tid, v')"
  shows "vocab_ok v' \<and> prefix v v' \<and> known v' tid \<and> word_of v' tid = w"
proof (cases "d_get v w")
  case (Some x)
  then show ?thesis using assms vocab_get by (auto simp: token_id_def)
next
  case None
  then have fresh: "w \<notin> set (d_keys v)" by (simp add: d_get_None_iff)
  have v': "tid = int (length v)" "v' = v @ [(w, tid)]"
    using assms(2) None by (auto simp: token_id_def update_append [OF fresh])
  from fresh have "vocab_ok v'"
    using assms(1) by (simp add: vocab_ok_def v' d_ok_def d_keys_def)
  then show ?thesis by (simp add: v' known_def word_of_def)
qed

lemma word_of_prefix: "prefix v v' \<Longrightarrow> known v tid \<Longrightarrow> known v' tid \<and> word_of v' tid = word_of v tid"
  by (auto simp: prefix_def known_def word_of_def nth_append)

lemma tokenize_words_spec:
  assumes "vocab_ok v" "tokenize_words ws v = (ids, v')"
  shows "vocab_ok v' \<and> prefix v v' \<and> list_all (known v') ids \<and> map (word_of v') ids = ws"
  using assms
proof (induction ws arbitrary: v ids)
  case (Cons w ws)
  obtain tid v1 where t: "token_id w v = (tid, v1)" by (cases "token_id w v")
  obtain ids2 where r: "tokenize_words ws v1 = (ids2, v')" "ids = tid # ids2"
    using Cons.prems(2) by (auto simp: t split: prod.splits)
  note s = token_id_spec [OF Cons.prems(1) t]
  from s have "vocab_ok v1" by simp
  note IH = Cons.IH [OF this r(1)]
  then show ?case using s word_of_prefix [of v1 v' tid] r(2) by (auto intro: prefix_order.trans)
qed auto

lemma tokenize_spec:
  assumes "vocab_ok v" "tokenize s v = (ids, v')"
  shows "vocab_ok v' \<and> prefix v v' \<and> list_all (known v') ids \<and> map (word_of v') ids = py_split s"
  using tokenize_words_spec assms by (simp add: tokenize_def)

lemma tokenize_length: "vocab_ok v \<Longrightarrow> length (fst (tokenize s v)) = length (py_split s)"
  using tokenize_spec [of v s "fst (tokenize s v)" "snd (tokenize s v)"]
  by (metis length_map prod.collapse)

lemma initial_vocab_ok [simp]: "vocab_ok initial_vocab"
  using tokenize_spec [of "[]" SYSTEM_PROMPT SYSTEM_TOKENS initial_vocab]
  by (simp add: SYSTEM_TOKENS_def initial_vocab_def)

text \<open>Under one vocabulary ids and words determine each other.\<close>

lemma word_of_inj:
  assumes "vocab_ok v" "known v s" "known v t" "word_of v s = word_of v t"
  shows "s = t"
proof -
  have "map fst v ! nat s = map fst v ! nat t"
    using assms by (simp add: known_def word_of_def nat_less_iff)
  moreover have "distinct (map fst v)" using assms(1) by (simp add: vocab_ok_def d_ok_def d_keys_def)
  moreover have "nat s < length (map fst v)" "nat t < length (map fst v)"
    using assms(2,3) by (auto simp: known_def)
  ultimately have "nat s = nat t" by (simp only: nth_eq_iff_index_eq)
  then show ?thesis using assms(2,3) by (auto simp: known_def)
qed

section \<open>Properties\<close>

text \<open>C27: tokenization loses nothing but the whitespace: the final vocabulary maps the ids of a text
  back to its words, earlier ids keep their meaning as the vocabulary grows, and two texts
  tokenized one after the other get the same ids exactly when they have the same words.\<close>

theorem tokenize_roundtrip:
  assumes "vocab_ok v" and "tokenize s v = (ids, v1)" and "tokenize t v1 = (ids', v2)"
  shows "map (word_of v2) ids = py_split s \<and> map (word_of v2) ids' = py_split t \<and>
    (ids = ids' \<longleftrightarrow> py_split s = py_split t) \<and> vocab_ok v2 \<and>
    (\<forall>tid. known v tid \<longrightarrow> word_of v2 tid = word_of v tid)"
proof -
  note 1 = tokenize_spec [OF assms(1,2)]
  then have "vocab_ok v1" by simp
  note 2 = tokenize_spec [OF this assms(3)]
  have keep: "known v2 x \<and> word_of v2 x = word_of v1 x" if "known v1 x" for x
    using word_of_prefix [OF _ that] 2 by blast
  have s: "map (word_of v2) ids = py_split s"
    using 1 keep by (metis (no_types, lifting) list_all_iff map_eq_conv)
  have "ids = ids'" if "py_split s = py_split t"
  proof (rule map_inj_on)
    show "map (word_of v2) ids = map (word_of v2) ids'" using that s 2 by simp
    show "inj_on (word_of v2) (set ids \<union> set ids')"
    proof (rule inj_onI)
      fix x y
      assume "x \<in> set ids \<union> set ids'" "y \<in> set ids \<union> set ids'" "word_of v2 x = word_of v2 y"
      then show "x = y" using word_of_inj [of v2 x y] 1 2 keep by (auto simp: list_all_iff)
    qed
  qed
  moreover have "word_of v2 tid = word_of v tid" if "known v tid" for tid
    using word_of_prefix [OF _ that] 1 keep by metis
  ultimately show ?thesis using s 2 by auto
qed

theorem tokenize_roundtrip_witness:
  "\<exists>v1 v2. tokenize ''a b a'' [] = ([0, 1, 0], v1) \<and> tokenize '' a  b'' v1 = ([0, 1], v2) \<and>
    map (word_of v2) [0, 1, 0] = [''a'', ''b'', ''a'']"
proof -
  have 1: "tokenize ''a b a'' [] = ([0, 1, 0], [(''a'', 0), (''b'', 1)])"
    by (simp add: tokenize_def py_split_def is_space_def token_id_def d_get_def d_set_def)
  have 2: "tokenize '' a  b'' [(''a'', 0), (''b'', 1)] = ([0, 1], [(''a'', 0), (''b'', 1)])"
    by (simp add: tokenize_def py_split_def is_space_def token_id_def d_get_def d_set_def)
  have w: "py_split ''a b a'' = [''a'', ''b'', ''a'']" by (simp add: py_split_def is_space_def)
  show ?thesis using tokenize_roundtrip [OF vocab_ok_Nil 1 2] 1 2 w by simp
qed

end
