(* ===== verification/PyNum.thy ===== *)
theory PyNum
  imports PyFloat PyText
begin

text \<open>
  The numeric part of the standard library that the harness uses: \<open>sum\<close> of floats (with
  the compensated summation of CPython 3.12), \<open>int(x)\<close>, \<open>float(s)\<close>, the square root, the
  format specifications \<open>.0f\<close> to \<open>.3f\<close>, and \<open>statistics.mean\<close> and \<open>pstdev\<close>, which
  compute with exact fractions and round once. The type has no negative zero and no sign on a
  NaN, so a formatted \<open>-0.0\<close> loses its sign here.
\<close>

section \<open>Square root\<close>

function isqrt :: "nat \<Rightarrow> nat" where
  "isqrt n =
     (if n = 0 then 0
      else let r = 2 * isqrt (n div 4) in if (r + 1) * (r + 1) \<le> n then r + 1 else r)"
  by pat_completeness auto
termination
  by (relation "measure id") auto

declare isqrt.simps [simp del]

lemma isqrt_spec: "isqrt n * isqrt n \<le> n \<and> n < (isqrt n + 1) * (isqrt n + 1)"
proof (induction n rule: isqrt.induct)
  case (1 n)
  show ?case
  proof (cases "n = 0")
    case True
    then show ?thesis by (simp add: isqrt.simps [of 0])
  next
    case False
    let ?q = "isqrt (n div 4)"
    from 1 False have IH: "?q * ?q \<le> n div 4" "n div 4 < (?q + 1) * (?q + 1)" by simp_all
    then have "4 * (?q * ?q) \<le> n" "n < 4 * ((?q + 1) * (?q + 1))" by linarith+
    then have "(2 * ?q) * (2 * ?q) \<le> n" "n < (2 * ?q + 2) * (2 * ?q + 2)" by (simp_all add: algebra_simps)
    then show ?thesis using False by (simp add: isqrt.simps [of n] Let_def)
  qed
qed

text \<open>1200 fractional bits and a sticky half decide the rounding of the root of every binary64
  value, and of the mean square of binary64 differences.\<close>

definition fsqrt_rat :: "rat \<Rightarrow> pyfloat" where
  "fsqrt_rat q =
     (let n = nat \<lfloor>q * 4 ^ 1200\<rfloor>; s = isqrt n
      in rnd ((of_nat s + (if of_nat (s * s) = q * 4 ^ 1200 then 0 else 1 / 2)) / 2 ^ 1200))"

section \<open>Sums\<close>

definition fabs :: "pyfloat \<Rightarrow> pyfloat" where
  "fabs x = (case x of Fin q \<Rightarrow> Fin \<bar>q\<bar> | NegInf \<Rightarrow> PosInf | y \<Rightarrow> y)"

text \<open>The loop of the builtin \<open>sum\<close>: the running sum and its compensation\<close>

fun fsum_loop :: "pyfloat \<Rightarrow> pyfloat \<Rightarrow> pyfloat list \<Rightarrow> pyfloat \<times> pyfloat" where
  "fsum_loop s c [] = (s, c)"
| "fsum_loop s c (x # xs) =
     (let t = s + x in
      fsum_loop t (c + (if fabs x \<le> fabs s then (s - t) + x else (x - t) + s)) xs)"

definition py_fsum :: "pyfloat list \<Rightarrow> pyfloat" where
  "py_fsum xs =
     (case xs of
        [] \<Rightarrow> 0
      | x # ys \<Rightarrow>
          (case fsum_loop x 0 ys of (s, c) \<Rightarrow> (case c of Fin q \<Rightarrow> if q = 0 then s else s + c | _ \<Rightarrow> s)))"

section \<open>Conversions\<close>

text \<open>\<open>int(x)\<close> truncates towards zero\<close>

fun py_int :: "pyfloat \<Rightarrow> int res" where
  "py_int (Fin q) = Inr (if 0 \<le> q then \<lfloor>q\<rfloor> else - \<lfloor>- q\<rfloor>)"
| "py_int NaN = Inl ValueError"
| "py_int PosInf = Inl OverflowError"
| "py_int NegInf = Inl OverflowError"

text \<open>A run of digits in which single underscores may separate two digits\<close>

fun scan_digits :: "bool \<Rightarrow> string \<Rightarrow> string \<times> string" where
  "scan_digits after_digit [] = ([], [])"
| "scan_digits after_digit (c # cs) =
     (if is_digit c then (case scan_digits True cs of (ds, rest) \<Rightarrow> (c # ds, rest))
      else if c = CHR ''_'' \<and> after_digit \<and> cs \<noteq> [] \<and> is_digit (hd cs) then scan_digits False cs
      else ([], c # cs))"

fun scan_sign :: "string \<Rightarrow> bool \<times> string" where
  "scan_sign [] = (False, [])"
| "scan_sign (c # cs) =
     (if c = CHR ''-'' then (True, cs) else if c = CHR ''+'' then (False, cs) else (False, c # cs))"

definition scan_fraction :: "string \<Rightarrow> string \<times> string" where
  "scan_fraction s = (if s \<noteq> [] \<and> hd s = CHR ''.'' then scan_digits False (tl s) else ([], s))"

text \<open>The exponent part: \<open>None\<close> when an \<open>e\<close> is not followed by digits\<close>

definition scan_exponent :: "string \<Rightarrow> int option" where
  "scan_exponent s =
     (if s = [] then Some 0
      else if hd s = CHR ''e'' \<or> hd s = CHR ''E'' then
        (case scan_sign (tl s) of (neg, t) \<Rightarrow>
         (case scan_digits False t of (ds, rest) \<Rightarrow>
            if ds = [] \<or> rest \<noteq> [] then None
            else Some (if neg then - int (digits_val ds) else int (digits_val ds))))
      else None)"

definition scale10 :: "rat \<Rightarrow> int \<Rightarrow> rat" where
  "scale10 q e = (if 0 \<le> e then q * 10 ^ nat e else q / 10 ^ nat (- e))"

definition scan_decimal :: "string \<Rightarrow> rat option" where
  "scan_decimal s =
     (case scan_digits False s of (ds, s1) \<Rightarrow>
      (case scan_fraction s1 of (fs, s2) \<Rightarrow>
       if ds = [] \<and> fs = [] then None
       else (case scan_exponent s2 of
               None \<Rightarrow> None
             | Some e \<Rightarrow> Some (scale10 (of_nat (digits_val (ds @ fs))) (e - int (length fs))))))"

definition lower_char :: "char \<Rightarrow> char" where
  "lower_char c =
     (let k = (of_char c :: nat) in if 65 \<le> k \<and> k \<le> 90 then char_of (k + 32) else c)"

text \<open>\<open>float(s)\<close>\<close>

definition float_of_str :: "string \<Rightarrow> pyfloat res" where
  "float_of_str s =
     (case scan_sign (strip s) of (neg, t) \<Rightarrow>
      (let l = map lower_char t in
       if l = ''inf'' \<or> l = ''infinity'' then Inr (if neg then NegInf else PosInf)
       else if l = ''nan'' then Inr NaN
       else (case scan_decimal t of
               None \<Rightarrow> Inl ValueError
             | Some q \<Rightarrow> Inr (rnd (if neg then - q else q)))))"

section \<open>Formatting\<close>

definition pad_zeros :: "nat \<Rightarrow> string \<Rightarrow> string" where
  "pad_zeros n ds = replicate (n - length ds) CHR ''0'' @ ds"

text \<open>The format \<open>.nf\<close> of a float: the exact value rounded half to even at \<open>n\<close> decimals\<close>

definition fmt_rat :: "nat \<Rightarrow> rat \<Rightarrow> string" where
  "fmt_rat n q =
     (let k = nat (round_even (\<bar>q\<bar> * 10 ^ n));
          digits = str_nat (k div 10 ^ n) @
                   (if n = 0 then [] else CHR ''.'' # pad_zeros n (str_nat (k mod 10 ^ n)))
      in if q < 0 then CHR ''-'' # digits else digits)"

definition fmt_fixed :: "nat \<Rightarrow> pyfloat \<Rightarrow> string" where
  "fmt_fixed n x =
     (case x of Fin q \<Rightarrow> fmt_rat n q | PosInf \<Rightarrow> ''inf'' | NegInf \<Rightarrow> ''-inf'' | NaN \<Rightarrow> ''nan'')"

section \<open>Statistics\<close>

fun fin_val :: "pyfloat \<Rightarrow> rat" where
  "fin_val (Fin q) = q"
| "fin_val _ = 0"

definition nonfinite :: "pyfloat list \<Rightarrow> pyfloat list" where
  "nonfinite xs = filter (\<lambda>x. case x of Fin q \<Rightarrow> False | _ \<Rightarrow> True) xs"

definition rnd_or_overflow :: "rat \<Rightarrow> pyfloat res" where
  "rnd_or_overflow q = (case rnd q of Fin r \<Rightarrow> Inr (Fin r) | _ \<Rightarrow> Inl OverflowError)"

definition stat_mean :: "pyfloat list \<Rightarrow> pyfloat res" where
  "stat_mean xs =
     (if xs = [] then Inl ValueError
      else if nonfinite xs \<noteq> []
      then rbind (float_of_int (int (length xs))) (\<lambda>n. fdiv (foldl (+) 0 (nonfinite xs)) n)
      else rnd_or_overflow (sum_list (map fin_val xs) / of_nat (length xs)))"

definition stat_pstdev :: "pyfloat list \<Rightarrow> pyfloat res" where
  "stat_pstdev xs =
     (if xs = [] then Inl ValueError
      else if nonfinite xs \<noteq> [] then Inl AttributeError
      else let n = of_nat (length xs); sx = sum_list (map fin_val xs);
               sxx = sum_list (map (\<lambda>x. fin_val x * fin_val x) xs)
           in Inr (fsqrt_rat ((n * sxx - sx * sx) / n / n)))"

end
