(* ===== verification/PySort.thy ===== *)
theory PySort
  imports Prelude "HOL-Library.Multiset"
begin

text \<open>
  Sorting and bisection of the standard library. \<open>py_sort lt\<close> is \<open>list.sort\<close> (and \<open>sorted\<close>)
  with a key whose \<open><\<close> is \<open>lt\<close>: Python promises a stable sort, and on keys that \<open>lt\<close> orders
  weakly there is one stable sorted list, which stable insertion computes. The contract is the
  locale \<open>stable_sorter\<close>.
\<close>

section \<open>Stable sorting\<close>

fun insort_by :: "('a \<Rightarrow> 'a \<Rightarrow> bool) \<Rightarrow> 'a \<Rightarrow> 'a list \<Rightarrow> 'a list" where
  "insort_by lt x [] = [x]"
| "insort_by lt x (y # ys) = (if lt y x then y # insort_by lt x ys else x # y # ys)"

definition py_sort :: "('a \<Rightarrow> 'a \<Rightarrow> bool) \<Rightarrow> 'a list \<Rightarrow> 'a list" where
  "py_sort lt xs = foldr (insort_by lt) xs []"

lemma py_sort_simps [simp]:
  "py_sort lt [] = []" "py_sort lt (x # xs) = insort_by lt x (py_sort lt xs)"
  by (simp_all add: py_sort_def)

text \<open>Nothing that comes later is smaller\<close>

abbreviation sorted_by :: "('a \<Rightarrow> 'a \<Rightarrow> bool) \<Rightarrow> 'a list \<Rightarrow> bool" where
  "sorted_by lt \<equiv> sorted_wrt (\<lambda>x y. \<not> lt y x)"

lemma mset_insort_by [simp]: "mset (insort_by lt x xs) = add_mset x (mset xs)"
  by (induction xs) auto

lemma mset_py_sort [simp]: "mset (py_sort lt xs) = mset xs"
  by (induction xs) simp_all

lemma set_py_sort [simp]: "set (py_sort lt xs) = set xs"
  by (metis mset_py_sort set_mset_mset)

lemma length_py_sort [simp]: "length (py_sort lt xs) = length xs"
  by (metis mset_py_sort size_mset)

lemma insort_by_set [simp]: "set (insort_by lt x xs) = insert x (set xs)"
  by (metis mset_insort_by set_mset_add_mset_insert set_mset_mset)

text \<open>A sorted list is left as it is.\<close>

lemma py_sort_sorted: "sorted_by lt xs \<Longrightarrow> py_sort lt xs = xs"
proof (induction xs)
  case (Cons x xs)
  then show ?case by (cases xs) auto
qed simp

text \<open>Elements that are already in order keep their order.\<close>

lemma insort_by_filter_in:
  "P x \<Longrightarrow> (\<And>y. y \<in> set xs \<Longrightarrow> P y \<Longrightarrow> \<not> lt y x) \<Longrightarrow>
     filter P (insort_by lt x xs) = x # filter P xs"
  by (induction xs) auto

lemma insort_by_filter_out: "\<not> P x \<Longrightarrow> filter P (insort_by lt x xs) = filter P xs"
  by (induction xs) auto

lemma py_sort_filter:
  "sorted_by lt (filter P xs) \<Longrightarrow> filter P (py_sort lt xs) = filter P xs"
proof (induction xs)
  case (Cons x xs)
  show ?case
  proof (cases "P x")
    case True
    then have "\<not> lt y x" if "y \<in> set (py_sort lt xs)" "P y" for y
      using Cons.prems that by auto
    then show ?thesis using Cons True insort_by_filter_in [of P x "py_sort lt xs" lt] by auto
  next
    case False
    then show ?thesis using Cons by (simp add: insort_by_filter_out)
  qed
qed simp

text \<open>The promise of \<open>list.sort\<close>\<close>

locale stable_sorter =
  fixes S :: "'a set" and lt :: "'a \<Rightarrow> 'a \<Rightarrow> bool" and srt :: "'a list \<Rightarrow> 'a list"
  assumes sorts: "set xs \<subseteq> S \<Longrightarrow> sorted_by lt (srt xs)"
    and permutes: "mset (srt xs) = mset xs"
    and stable: "set xs \<subseteq> S \<Longrightarrow> sorted_by lt (filter P xs) \<Longrightarrow> filter P (srt xs) = filter P xs"
begin

lemma same_set: "set (srt xs) = set xs"
  by (metis permutes set_mset_mset)

lemma idem: "set xs \<subseteq> S \<Longrightarrow> srt (srt xs) = srt xs"
  using stable [of "srt xs" "\<lambda>x. True"] sorts [of xs] same_set [of xs] by simp

lemma before: "set xs \<subseteq> S \<Longrightarrow> i < j \<Longrightarrow> j < length xs \<Longrightarrow> \<not> lt (srt xs ! j) (srt xs ! i)"
  using sorts [of xs] permutes [of xs] by (auto simp: sorted_wrt_iff_nth_less dest: mset_eq_length)

end

lemma insort_by_sorted:
  assumes "weak_order_on S lt" "x \<in> S" "set xs \<subseteq> S" "sorted_by lt xs"
  shows "sorted_by lt (insort_by lt x xs)"
  using assms(3,4)
proof (induction xs)
  case (Cons y ys)
  note w = weak_order_onD [OF assms(1)]
  show ?case
  proof (cases "lt y x")
    case True
    then have "\<not> lt x y" using w(4) assms(2) Cons.prems by auto
    then show ?thesis using True Cons by auto
  next
    case False
    have "\<not> lt z x" if "z \<in> set ys" for z
      using w(3) [of z y x] that False Cons.prems assms(2) by auto
    then show ?thesis using False Cons.prems by auto
  qed
qed simp

lemma stable_sorterI: "weak_order_on S lt \<Longrightarrow> stable_sorter S lt (py_sort lt)"
proof (unfold_locales, goal_cases)
  case (1 xs)
  then show ?case by (induction xs) (simp_all add: insort_by_sorted)
qed (simp_all add: py_sort_filter)

section \<open>Bisection\<close>

text \<open>The standard library's \<open>bisect_right(a, x)\<close> on \<open>a[lo:hi]\<close>\<close>

function bisect_right_loop :: "'a::ord list \<Rightarrow> 'a \<Rightarrow> nat \<Rightarrow> nat \<Rightarrow> nat" where
  "bisect_right_loop a x lo hi =
     (if lo < hi then
        let mid = (lo + hi) div 2 in
        if x < a ! mid then bisect_right_loop a x lo mid
        else bisect_right_loop a x (mid + 1) hi
      else lo)"
  by pat_completeness auto
termination
  by (relation "measure (\<lambda>(a, x, lo, hi). hi - lo)") auto

declare bisect_right_loop.simps [simp del]

lemma bisect_right_loop_stop: "\<not> lo < hi \<Longrightarrow> bisect_right_loop a x lo hi = lo"
  by (subst bisect_right_loop.simps) simp

lemma bisect_right_loop_bounds:
  "lo \<le> hi \<Longrightarrow> lo \<le> bisect_right_loop a x lo hi \<and> bisect_right_loop a x lo hi \<le> hi"
proof (induction a x lo hi rule: bisect_right_loop.induct)
  case (1 a x lo hi)
  show ?case
  proof (cases "lo < hi")
    case True
    then have "lo \<le> (lo + hi) div 2" "(lo + hi) div 2 < hi" by auto
    with True 1 show ?thesis by (auto simp: bisect_right_loop.simps [of a x lo hi] Let_def)
  next
    case False
    with "1.prems" show ?thesis by (simp add: bisect_right_loop_stop)
  qed
qed

end
