(* ===== verification/Blocks.thy ===== *)
theory Blocks
  imports Prelude "HOL-Library.Word" "HOL-Library.Sublist"
begin

unbundle bit_operations_syntax

text \<open>
  \<open>src/bench/sim/blocks.py\<close>: the rolling block-hash chain of a prompt and the longest
  cached leading run of such a chain.

  The chain calls the builtin \<open>hash\<close> on \<open>(parent, block)\<close>; \<open>py_hash_int\<close> and
  \<open>tuple_hash\<close> are CPython's algorithms for integers (reduction modulo \<open>2 ^ 61 - 1\<close>)
  and for tuples (the xxHash-derived lane mixer on 64-bit words), which are the two cases
  that call reaches.
\<close>

section \<open>The builtin hash of integers and of tuples of integers\<close>

definition py_hash_int :: "int \<Rightarrow> int" where
  "py_hash_int n =
     (let m = \<bar>n\<bar> mod (2 ^ 61 - 1); h = (if n < 0 then - m else m)
      in if h = - 1 then - 2 else h)"

definition xx_prime_1 :: "64 word" where "xx_prime_1 = 11400714785074694791"
definition xx_prime_2 :: "64 word" where "xx_prime_2 = 14029467366897019727"
definition xx_prime_5 :: "64 word" where "xx_prime_5 = 2870177450012600261"

definition xx_rotate :: "64 word \<Rightarrow> 64 word" where
  "xx_rotate x = push_bit 31 x OR drop_bit 33 x"

fun xx_mix :: "64 word \<Rightarrow> int list \<Rightarrow> 64 word" where
  "xx_mix acc [] = acc"
| "xx_mix acc (l # ls) = xx_mix (xx_rotate (acc + word_of_int l * xx_prime_2) * xx_prime_1) ls"

text \<open>The argument is the list of the items' hashes.\<close>

definition tuple_hash :: "int list \<Rightarrow> int" where
  "tuple_hash lanes =
     (let acc = xx_mix xx_prime_5 lanes +
                (word_of_nat (length lanes) XOR (xx_prime_5 XOR 3527539))
      in if acc = - 1 then 1546275796 else sint acc)"

section \<open>The hash chain\<close>

definition DEFAULT_BLOCK_SIZE :: int where
  "DEFAULT_BLOCK_SIZE = 16"

definition hash_root :: int where
  "hash_root = 1469598103934665603"

text \<open>\<open>hash((parent, block))\<close>\<close>

definition hash_block :: "int \<Rightarrow> int list \<Rightarrow> int" where
  "hash_block parent block = tuple_hash [py_hash_int parent, tuple_hash (map py_hash_int block)]"

text \<open>\<open>tokens[i * block_size : (i + 1) * block_size]\<close> for a positive block size\<close>

definition token_block :: "nat \<Rightarrow> int list \<Rightarrow> nat \<Rightarrow> int list" where
  "token_block bs tokens i = take bs (drop (i * bs) tokens)"

fun hash_loop :: "nat \<Rightarrow> int list \<Rightarrow> int \<Rightarrow> nat list \<Rightarrow> int list" where
  "hash_loop bs tokens parent [] = []"
| "hash_loop bs tokens parent (i # is) =
     (let parent' = hash_block parent (token_block bs tokens i)
      in parent' # hash_loop bs tokens parent' is)"

definition hash_blocks :: "int list \<Rightarrow> int \<Rightarrow> int list res" where
  "hash_blocks tokens block_size =
     (if block_size = 0 then Inl ZeroDivisionError
      else let n_full = int (length tokens) div block_size
           in Inr (hash_loop (nat block_size) tokens hash_root [0..<nat n_full]))"

section \<open>Longest cached leading run\<close>

fun matched_loop :: "nat \<Rightarrow> int list \<Rightarrow> (int \<Rightarrow> bool) \<Rightarrow> nat" where
  "matched_loop matched [] cached = matched"
| "matched_loop matched (h # hs) cached =
     (if cached h then matched_loop (matched + 1) hs cached else matched)"

definition matched_prefix :: "int list \<Rightarrow> (int \<Rightarrow> bool) \<Rightarrow> nat" where
  "matched_prefix req_blocks cached = matched_loop 0 req_blocks cached"

section \<open>Facts about the leading run\<close>

lemma matched_loop_eq: "matched_loop m hs c = m + length (takeWhile c hs)"
  by (induction hs arbitrary: m) auto

lemma matched_prefix_takeWhile: "matched_prefix hs c = length (takeWhile c hs)"
  by (simp add: matched_prefix_def matched_loop_eq)

lemma matched_prefix_le [simp]: "matched_prefix hs c \<le> length hs"
  by (simp add: matched_prefix_takeWhile length_takeWhile_le)

lemma matched_prefix_Nil [simp]: "matched_prefix [] c = 0"
  by (simp add: matched_prefix_takeWhile)

lemma matched_prefix_all: "matched_prefix hs c = length hs \<longleftrightarrow> (\<forall>h \<in> set hs. c h)"
  unfolding matched_prefix_takeWhile by (induction hs) auto

lemma matched_prefix_hit: "i < matched_prefix hs c \<Longrightarrow> c (hs ! i)"
  unfolding matched_prefix_takeWhile
  by (metis nth_mem set_takeWhileD takeWhile_nth)

lemma matched_prefix_miss: "matched_prefix hs c < length hs \<Longrightarrow> \<not> c (hs ! matched_prefix hs c)"
  unfolding matched_prefix_takeWhile by (rule nth_length_takeWhile)

lemma matched_prefix_maximal:
  "k \<le> matched_prefix hs c \<longleftrightarrow> k \<le> length hs \<and> (\<forall>i < k. c (hs ! i))"
proof
  assume "k \<le> matched_prefix hs c"
  then show "k \<le> length hs \<and> (\<forall>i < k. c (hs ! i))"
    using matched_prefix_le [of hs c] by (auto intro: matched_prefix_hit order_trans)
next
  assume k: "k \<le> length hs \<and> (\<forall>i < k. c (hs ! i))"
  show "k \<le> matched_prefix hs c"
  proof (rule ccontr)
    assume "\<not> k \<le> matched_prefix hs c"
    with k matched_prefix_miss [of hs c] show False by auto
  qed
qed

lemma matched_prefix_mono:
  "(\<And>h. h \<in> set hs \<Longrightarrow> c h \<Longrightarrow> d h) \<Longrightarrow> matched_prefix hs c \<le> matched_prefix hs d"
  unfolding matched_prefix_maximal [of _ hs d]
  by (meson less_le_trans matched_prefix_hit matched_prefix_le nth_mem)

section \<open>Facts about the hash chain\<close>

lemma length_hash_loop [simp]: "length (hash_loop bs ts p is) = length is"
  by (induction "is" arbitrary: p) (auto simp: Let_def)

lemma hash_loop_Nil_iff [simp]: "hash_loop bs ts p is = [] \<longleftrightarrow> is = []"
  by (cases "is") (simp_all add: Let_def)

lemma hash_loop_append:
  "hash_loop bs ts p (is @ js) =
     hash_loop bs ts p is @ hash_loop bs ts (last (p # hash_loop bs ts p is)) js"
  by (induction "is" arbitrary: p) (auto simp: Let_def)

lemma hash_loop_cong:
  "(\<And>i. i \<in> set is \<Longrightarrow> token_block bs xs i = token_block bs ys i) \<Longrightarrow>
   hash_loop bs xs p is = hash_loop bs ys p is"
  by (induction "is" arbitrary: p) (auto simp: Let_def)

text \<open>The chain of a positive block size, with the block size as a natural number.\<close>

definition chain :: "nat \<Rightarrow> int list \<Rightarrow> int list" where
  "chain bs ts = hash_loop bs ts hash_root [0..<length ts div bs]"

lemma hash_blocks_pos: "0 < bs \<Longrightarrow> hash_blocks ts (int bs) = Inr (chain bs ts)"
  by (simp add: hash_blocks_def chain_def Let_def flip: zdiv_int)

lemma length_chain [simp]: "length (chain bs ts) = length ts div bs"
  by (simp add: chain_def)

lemma token_block_take:
  assumes "i < k"
  shows "token_block bs (take (k * bs) ts) i = token_block bs ts i"
proof -
  have "i * bs + bs \<le> k * bs" using mult_le_mono1 [of "Suc i" k bs] assms by simp
  then show ?thesis by (simp add: token_block_def drop_take min_def)
qed

lemma take_chain:
  assumes "0 < bs" and "k \<le> length ts div bs"
  shows "take k (chain bs ts) = chain bs (take (k * bs) ts)"
proof -
  have len: "length (take (k * bs) ts) div bs = k"
    using assms div_le_mono [of "length ts" "k * bs" bs]
    by (cases "length ts \<le> k * bs") (auto simp: min_def)
  have "[0..<length ts div bs] = [0..<k] @ [k..<length ts div bs]"
    using assms(2) by (metis le_add_diff_inverse upt_add_eq_append zero_le)
  then have "take k (chain bs ts) = hash_loop bs ts hash_root [0..<k]"
    by (simp add: chain_def hash_loop_append)
  also have "\<dots> = hash_loop bs (take (k * bs) ts) hash_root [0..<k]"
    by (rule hash_loop_cong) (simp add: token_block_take)
  finally show ?thesis unfolding chain_def [of bs "take (k * bs) ts"] len .
qed

lemma chain_nth:
  assumes "k < length ts div bs"
  shows "chain bs ts ! k =
    hash_block (if k = 0 then hash_root else chain bs ts ! (k - 1)) (token_block bs ts k)"
proof -
  have "[0..<length ts div bs] = [0..<k] @ k # [Suc k..<length ts div bs]"
    using assms by (metis le_add_diff_inverse less_imp_le upt_add_eq_append upt_conv_Cons zero_le)
  then have "chain bs ts = hash_loop bs ts hash_root [0..<k] @
      hash_block (last (hash_root # hash_loop bs ts hash_root [0..<k])) (token_block bs ts k) #
      hash_loop bs ts (hash_block (last (hash_root # hash_loop bs ts hash_root [0..<k]))
        (token_block bs ts k)) [Suc k..<length ts div bs]"
    by (simp add: chain_def hash_loop_append Let_def)
  then show ?thesis
    by (auto simp: nth_append last_conv_nth)
qed

text \<open>
  The pairs \<open>(parent, block)\<close> that are hashed for \<open>ts\<close>; the chain identifies prefixes
  exactly when no two of the pairs involved collide.
\<close>

definition chain_pairs :: "nat \<Rightarrow> int list \<Rightarrow> (int \<times> int list) list" where
  "chain_pairs bs ts =
     map (\<lambda>k. (if k = 0 then hash_root else chain bs ts ! (k - 1), token_block bs ts k))
       [0..<length ts div bs]"

lemma token_blocks_take:
  assumes "k \<le> length ts div bs"
  shows "take (k * bs) ts = concat (map (token_block bs ts) [0..<k])"
  using assms
proof (induction k)
  case 0
  then show ?case by simp
next
  case (Suc k)
  have "take (Suc k * bs) ts = take (k * bs) ts @ token_block bs ts k"
    using take_add [of "k * bs" bs ts] by (simp add: token_block_def add.commute)
  with Suc show ?case by simp
qed

definition no_collision :: "nat \<Rightarrow> int list \<Rightarrow> int list \<Rightarrow> bool" where
  "no_collision bs xs ys \<longleftrightarrow>
     inj_on (\<lambda>(p, b). hash_block p b) (set (chain_pairs bs xs) \<union> set (chain_pairs bs ys)) \<and>
     hash_root \<notin> set (chain bs xs) \<union> set (chain bs ys)"

lemma no_collision_pairs:
  assumes "no_collision bs xs ys" and "i < length ys div bs" "j < length xs div bs"
    and "chain bs ys ! i = chain bs xs ! j"
  shows "(if i = 0 then hash_root else chain bs ys ! (i - 1)) =
           (if j = 0 then hash_root else chain bs xs ! (j - 1)) \<and>
         token_block bs ys i = token_block bs xs j"
proof -
  let ?py = "(if i = 0 then hash_root else chain bs ys ! (i - 1), token_block bs ys i)"
    and ?px = "(if j = 0 then hash_root else chain bs xs ! (j - 1), token_block bs xs j)"
  have "(case ?py of (p, b) \<Rightarrow> hash_block p b) = (case ?px of (p, b) \<Rightarrow> hash_block p b)"
    using assms(4) chain_nth [OF assms(2)] chain_nth [OF assms(3)] by (simp only: prod.case)
  moreover have "?py \<in> set (chain_pairs bs ys)" "?px \<in> set (chain_pairs bs xs)"
    using assms(2,3) unfolding chain_pairs_def set_map by (rule_tac imageI, simp)+
  ultimately have "?py = ?px"
    using assms(1) unfolding no_collision_def by (meson UnI1 UnI2 inj_onD)
  then show ?thesis by simp
qed

lemma chain_eq_imp_blocks:
  assumes nc: "no_collision bs xs ys"
  shows "i < length ys div bs \<Longrightarrow> j < length xs div bs \<Longrightarrow> chain bs ys ! i = chain bs xs ! j \<Longrightarrow>
    j = i \<and> (\<forall>l \<le> i. token_block bs ys l = token_block bs xs l)"
proof (induction i arbitrary: j)
  case 0
  have "hash_root \<noteq> chain bs xs ! (j - 1)" if "j \<noteq> 0"
  proof -
    have "chain bs xs ! (j - 1) \<in> set (chain bs xs)" using 0 that by (intro nth_mem) simp
    then show ?thesis using nc by (auto simp: no_collision_def)
  qed
  with no_collision_pairs [OF nc 0] show ?case by (auto split: if_splits)
next
  case (Suc i)
  have "chain bs ys ! i \<in> set (chain bs ys)" using Suc.prems(1) by (intro nth_mem) simp
  then have "chain bs ys ! i \<noteq> hash_root" using nc by (auto simp: no_collision_def)
  with no_collision_pairs [OF nc Suc.prems] have j: "j \<noteq> 0" "chain bs ys ! i = chain bs xs ! (j - 1)"
    and last: "token_block bs ys (Suc i) = token_block bs xs j"
    by (auto split: if_splits)
  with Suc.IH [of "j - 1"] Suc.prems(1,2)
  have "j - 1 = i" "\<forall>l \<le> i. token_block bs ys l = token_block bs xs l" by auto
  with j last show ?case by (auto simp: le_Suc_eq)
qed

section \<open>Properties\<close>

text \<open>Two prompts that share a leading run of tokens produce identical leading block
  hashes, block by block, and each prompt has one hash per whole block (the trailing partial
  block is ignored).\<close>

lemma shared_prefix_shares_hashes:
  assumes "0 < bs" and "take (k * bs) xs = take (k * bs) ys"
    and "k \<le> length xs div bs" and "k \<le> length ys div bs"
  shows "\<exists>hx hy. hash_blocks xs (int bs) = Inr hx \<and> hash_blocks ys (int bs) = Inr hy \<and>
           length hx = length xs div bs \<and> length hy = length ys div bs \<and> take k hx = take k hy"
  using assms by (auto simp: hash_blocks_pos take_chain)

text \<open>C5: routing on block hashes is routing on token prefixes. When no two of the hashed
  (parent, block) pairs collide, matching one prompt's chain against a cache that holds the
  chain of another counts exactly the whole blocks of their longest common token prefix; in
  particular the match stops at the first block whose tokens differ.\<close>

theorem matched_prefix_is_common_prefix:
  assumes "0 < bs" and "no_collision bs xs ys"
  shows "\<exists>hx hy. hash_blocks xs (int bs) = Inr hx \<and> hash_blocks ys (int bs) = Inr hy \<and>
    (\<forall>k. k \<le> matched_prefix hy (\<lambda>h. h \<in> set hx) \<longleftrightarrow>
      k \<le> length xs div bs \<and> k \<le> length ys div bs \<and> take (k * bs) xs = take (k * bs) ys)"
proof -
  let ?cached = "\<lambda>h. h \<in> set (chain bs xs)"
  have "k \<le> matched_prefix (chain bs ys) ?cached \<longleftrightarrow>
      k \<le> length xs div bs \<and> k \<le> length ys div bs \<and> take (k * bs) xs = take (k * bs) ys" for k
  proof
    assume "k \<le> matched_prefix (chain bs ys) ?cached"
    then have k: "k \<le> length ys div bs" "\<forall>i < k. chain bs ys ! i \<in> set (chain bs xs)"
      by (simp_all add: matched_prefix_maximal)
    have eq: "i < length xs div bs \<and> token_block bs ys i = token_block bs xs i" if "i < k" for i
    proof -
      from k(2) that obtain j where "j < length xs div bs" "chain bs ys ! i = chain bs xs ! j"
        by (auto simp: in_set_conv_nth)
      with chain_eq_imp_blocks [OF assms(2), of i j] k(1) that show ?thesis by auto
    qed
    then have "k \<le> length xs div bs" by (meson leI less_irrefl)
    moreover have "map (token_block bs xs) [0..<k] = map (token_block bs ys) [0..<k]"
      using eq by simp
    ultimately show "k \<le> length xs div bs \<and> k \<le> length ys div bs \<and>
        take (k * bs) xs = take (k * bs) ys"
      using k(1) by (simp only: token_blocks_take)
  next
    assume "k \<le> length xs div bs \<and> k \<le> length ys div bs \<and> take (k * bs) xs = take (k * bs) ys"
    then have k: "k \<le> length xs div bs" "k \<le> length ys div bs"
      and t: "take k (chain bs xs) = take k (chain bs ys)"
      using assms(1) by (simp_all add: take_chain)
    have "chain bs ys ! i \<in> set (chain bs xs)" if "i < k" for i
      using t that k nth_mem [of i "chain bs xs"] by (metis length_chain less_le_trans nth_take)
    with k show "k \<le> matched_prefix (chain bs ys) ?cached" by (simp add: matched_prefix_maximal)
  qed
  then show ?thesis using assms(1) by (simp add: hash_blocks_pos)
qed

theorem matched_prefix_is_common_prefix_witness:
  "\<exists>hx hy. hash_blocks [1, 2, 3, 4] (int 2) = Inr hx \<and> hash_blocks [1, 2, 9, 9] (int 2) = Inr hy \<and>
    (\<forall>k. k \<le> matched_prefix hy (\<lambda>h. h \<in> set hx) \<longleftrightarrow>
      k \<le> length [1, 2, 3, 4 :: int] div 2 \<and> k \<le> length [1, 2, 9, 9 :: int] div 2 \<and>
      take (k * 2) [1, 2, 3, 4 :: int] = take (k * 2) [1, 2, 9, 9])"
proof (rule matched_prefix_is_common_prefix)
  show "(0::nat) < 2" by simp
  have h: "hash_block hash_root [1, 2] = -2099705789814104084" "hash_block (-2099705789814104084) [3, 4] = -2449671794164981805"
    "hash_block (-2099705789814104084) [9, 9] = 5041535520097837779"
    by code_simp+
  have x: "chain 2 [1, 2, 3, 4] = [-2099705789814104084, -2449671794164981805]" by (simp add: chain_def upt_rec token_block_def h)
  have y: "chain 2 [1, 2, 9, 9] = [-2099705789814104084, 5041535520097837779]" by (simp add: chain_def upt_rec token_block_def h)
  have p: "chain_pairs 2 [1, 2, 3, 4] = [(hash_root, [1, 2]), (-2099705789814104084, [3, 4])]"
    "chain_pairs 2 [1, 2, 9, 9] = [(hash_root, [1, 2]), (-2099705789814104084, [9, 9])]"
    by (simp_all add: chain_pairs_def x y token_block_def upt_rec)
  show "no_collision 2 [1, 2, 3, 4] [1, 2, 9, 9]"
    by (simp add: no_collision_def p h x y hash_root_def inj_on_def h [unfolded hash_root_def])
qed

text \<open>\<open>matched_prefix\<close> is the longest contiguous run from the first block: it is at least
  \<open>k\<close> exactly when the first \<open>k\<close> blocks are all cached, whatever is cached after the first
  miss.\<close>

lemma matched_prefix_spec:
  "matched_prefix hs cached \<le> length hs \<and>
   (k \<le> matched_prefix hs cached \<longleftrightarrow> k \<le> length hs \<and> list_all cached (take k hs))"
  using matched_prefix_maximal [of k hs cached] matched_prefix_le [of hs cached]
  by (auto simp: list_all_length)

end
