(* ===== verification/Workload.thy ===== *)
theory Workload
  imports Requests Tokenizer PyNum PySort Blocks
begin

text \<open>
  The workload generator of \<open>src/bench/sim/workload.py\<close>.

  The distributions of \<open>random.Random\<close> are the parameter \<open>'r random_lib\<close>: its operations take
  and return the generator's state. \<open>choice\<close> and \<open>choices\<close> are modelled on top of its
  \<open>_randbelow\<close> and \<open>random\<close>. The module's vocabulary and the generator's state are the record
  \<open>gen\<close>; a session under construction is the record \<open>session\<close>; keyword arguments are
  the record \<open>GenParams\<close>. Every loop is \<open>rfold\<close> over its range, so that an exception stops it.
\<close>

section \<open>Constants\<close>

record Tool =
  t_name :: string
  fail_prob :: pyfloat
  success_latency :: pyfloat

definition DEFAULT_TOOLS :: "Tool list" where
  "DEFAULT_TOOLS =
     [\<lparr>t_name = ''lookup_policy'', fail_prob = rnd (2 / 100), success_latency = rnd (2 / 10)\<rparr>,
      \<lparr>t_name = ''db_query'', fail_prob = Fin (1 / 4), success_latency = Fin (3 / 2)\<rparr>,
      \<lparr>t_name = ''curl_page'', fail_prob = rnd (5 / 100), success_latency = Fin 6\<rparr>,
      \<lparr>t_name = ''run_tests'', fail_prob = rnd (6 / 10), success_latency = Fin 8\<rparr>]"

definition DEFAULT_RETRY_GAP :: pyfloat where
  "DEFAULT_RETRY_GAP = rnd (2 / 10)"

definition USER_PROMPTS :: "string list" where
  "USER_PROMPTS =
     [''where is my shipment right now'', ''why was I charged twice this month'',
      ''reschedule the pickup for tomorrow'', ''which carrier handles the Berlin route'',
      ''generate an api key for the sandbox'']"

definition CANNED_TOOL_RESULTS :: "string list" where
  "CANNED_TOOL_RESULTS =
     [''policy document freight billing terms net thirty standard tariff schedule'',
      ''carrier directory north south routes service levels transit windows'',
      ''sandbox environment base url rate limits authentication scopes'']"

definition RAG_SID_BASE :: int where "RAG_SID_BASE = 1000000"
definition ONESHOT_SID_BASE :: int where "ONESHOT_SID_BASE = 2000000"

section \<open>Random draws\<close>

record 'r random_lib =
  seed_int :: "int \<Rightarrow> 'r"
  seed_str :: "string \<Rightarrow> 'r"
  uniform :: "'r \<Rightarrow> pyfloat \<times> 'r"
  randbelow :: "nat \<Rightarrow> 'r \<Rightarrow> nat \<times> 'r"
  expovariate :: "pyfloat \<Rightarrow> 'r \<Rightarrow> (pyfloat \<times> 'r) res"
  gammavariate :: "pyfloat \<Rightarrow> pyfloat \<Rightarrow> 'r \<Rightarrow> (pyfloat \<times> 'r) res"
  gauss :: "pyfloat \<Rightarrow> pyfloat \<Rightarrow> 'r \<Rightarrow> pyfloat \<times> 'r"
  int_pow :: "int \<Rightarrow> pyfloat \<Rightarrow> pyfloat res"

definition rng_choice :: "'r random_lib \<Rightarrow> 'a list \<Rightarrow> 'r \<Rightarrow> ('a \<times> 'r) res" where
  "rng_choice L xs r =
     (if xs = [] then Inl IndexError
      else case randbelow L (length xs) r of (i, r') \<Rightarrow> Inr (xs ! i, r'))"

text \<open>\<open>itertools.accumulate\<close>\<close>

fun accumulate :: "pyfloat list \<Rightarrow> pyfloat list" where
  "accumulate [] = []"
| "accumulate [x] = [x]"
| "accumulate (x # y # ys) = x # accumulate ((x + y) # ys)"

text \<open>\<open>rng.choices(range(n), weights=weights)[0]\<close>\<close>

definition rng_choices_index :: "'r random_lib \<Rightarrow> pyfloat list \<Rightarrow> 'r \<Rightarrow> (nat \<times> 'r) res" where
  "rng_choices_index L weights r =
     (let cum = accumulate weights in
      if cum = [] then Inl IndexError
      else let total = last cum in
        if total \<le> 0 then Inl ValueError
        else if \<not> (case total of Fin q \<Rightarrow> True | _ \<Rightarrow> False) then Inl ValueError
        else case uniform L r of (u, r') \<Rightarrow>
          Inr (bisect_right_loop cum (u * total) 0 (length weights - 1), r'))"

definition arrival_gap :: "'r random_lib \<Rightarrow> pyfloat \<Rightarrow> pyfloat \<Rightarrow> 'r \<Rightarrow> (pyfloat \<times> 'r) res" where
  "arrival_gap L rate burst_cv r =
     (if feq burst_cv 1 then expovariate L rate r
      else rbind (fdiv 1 (burst_cv * burst_cv)) (\<lambda>shape.
           rbind (fdiv 1 (rate * shape)) (\<lambda>beta. gammavariate L shape beta r)))"

definition unique_words :: "string \<Rightarrow> int \<Rightarrow> string" where
  "unique_words tag n = join_with '' '' (map (\<lambda>j. tag @ ''_w'' @ str_nat j) [0..<nat n])"

definition success_result ::
    "'r random_lib \<Rightarrow> pyfloat \<Rightarrow> string \<Rightarrow> int \<Rightarrow> 'r \<Rightarrow> (string \<times> 'r) res" where
  "success_result L deterministic_tool_prob tag n r =
     (case uniform L r of (u, r1) \<Rightarrow>
        if u < deterministic_tool_prob then rng_choice L CANNED_TOOL_RESULTS r1
        else Inr (unique_words tag n, r1))"

text \<open>\<open>max(1, int(rng.gauss(mean, mean * 0.2)))\<close>\<close>

definition draw_gen_tokens :: "'r random_lib \<Rightarrow> int \<Rightarrow> 'r \<Rightarrow> (int \<times> 'r) res" where
  "draw_gen_tokens L mean r =
     rbind (int_times mean (rnd (2 / 10))) (\<lambda>sigma.
     rbind (float_of_int mean) (\<lambda>mu.
       case gauss L mu sigma r of (x, r') \<Rightarrow> rbind (py_int x) (\<lambda>k. Inr (max 1 k, r'))))"

section \<open>One session\<close>

record GenParams =
  tool_result_tokens :: int
  think_time :: pyfloat
  gp_burst_cv :: pyfloat
  deterministic_tool_prob :: pyfloat
  gen_tokens_mean :: int
  gp_block_size :: int
  nominal_turn_seconds :: pyfloat
  tool_reliability :: bool
  tools :: "Tool list option"
  gp_seed :: int

definition default_gen_params :: GenParams where
  "default_gen_params =
     \<lparr>tool_result_tokens = 64, think_time = Fin 2, gp_burst_cv = Fin 1,
      deterministic_tool_prob = rnd (3 / 10), gen_tokens_mean = 48, gp_block_size = DEFAULT_BLOCK_SIZE,
      nominal_turn_seconds = Fin (1 / 2), tool_reliability = False, tools = None, gp_seed = 0\<rparr>"

definition catalog :: "GenParams \<Rightarrow> Tool list" where
  "catalog gp = (case tools gp of None \<Rightarrow> DEFAULT_TOOLS | Some ts \<Rightarrow> ts)"

record 'r gen =
  g_rng :: 'r
  g_vocab :: vocab

record session =
  s_tokens :: "int list"
  s_messages :: "message list"
  s_arrival :: pyfloat

definition turn_tag :: "int \<Rightarrow> nat \<Rightarrow> string \<Rightarrow> string" where
  "turn_tag sid k ending = ''s'' @ str_int sid @ ''_t'' @ str_nat k @ ending"

text \<open>The outcome of the tool call of turn \<open>k\<close>: the tool's name if the session has one, the
  result text and the new arrival time\<close>

definition tool_outcome ::
    "'r random_lib \<Rightarrow> GenParams \<Rightarrow> Tool option \<Rightarrow> int \<Rightarrow> nat \<Rightarrow> pyfloat \<Rightarrow> 'r \<Rightarrow>
     (string option \<times> string \<times> pyfloat \<times> 'r) res" where
  "tool_outcome L gp session_tool sid k arrival r =
     (let success = success_result L (deterministic_tool_prob gp) (turn_tag sid k ''_r'')
                      (tool_result_tokens gp) in
      case session_tool of
        None \<Rightarrow> rbind (success r) (\<lambda>(result, r').
                  Inr (None, result, arrival + (think_time gp + nominal_turn_seconds gp), r'))
      | Some tool \<Rightarrow>
          (case uniform L r of (u, r1) \<Rightarrow>
             if u < fail_prob tool
             then Inr (Some (t_name tool), unique_words (turn_tag sid k ''_err'') 3,
                       arrival + DEFAULT_RETRY_GAP, r1)
             else rbind (success r1) (\<lambda>(result, r').
                    Inr (Some (t_name tool), result, arrival + (think_time gp + success_latency tool), r'))))"

definition call_id :: "int \<Rightarrow> nat \<Rightarrow> string" where
  "call_id sid k = ''call_'' @ turn_tag sid k []"

definition assistant_message :: "int \<Rightarrow> nat \<Rightarrow> string \<Rightarrow> string option \<Rightarrow> message" where
  "assistant_message sid k assistant tool_name =
     (case tool_name of
        None \<Rightarrow> plain_message ''assistant'' assistant
      | Some t \<Rightarrow> (plain_message ''assistant'' assistant)
          \<lparr>m_tool_calls := Some [\<lparr>tc_id = call_id sid k, tc_type = ''function'', tc_name = t,
                                 tc_arguments = ''{}''\<rparr>]\<rparr>)"

definition tool_message :: "int \<Rightarrow> nat \<Rightarrow> string \<Rightarrow> string option \<Rightarrow> message" where
  "tool_message sid k result tool_name =
     (case tool_name of
        None \<Rightarrow> plain_message ''tool'' result
      | Some t \<Rightarrow> (plain_message ''tool'' result)\<lparr>m_tool_call_id := Some (call_id sid k)\<rparr>)"

text \<open>The body of \<open>if turn_idx > 0\<close>\<close>

definition extend_turn ::
    "'r random_lib \<Rightarrow> GenParams \<Rightarrow> Tool option \<Rightarrow> int \<Rightarrow> nat \<Rightarrow> session \<Rightarrow> 'r gen \<Rightarrow>
     (session \<times> string option \<times> 'r gen) res" where
  "extend_turn L gp session_tool sid k s g =
     (let assistant = unique_words (turn_tag sid k ''_a'') (gen_tokens_mean gp) in
      rbind (tool_outcome L gp session_tool sid k (s_arrival s) (g_rng g))
        (\<lambda>(tool_name, tool_result, arrival, r).
           let next_user = unique_words (turn_tag sid k ''_u'') 6;
               segment = assistant @ '' '' @ tool_result @ '' '' @ next_user
           in case tokenize segment (g_vocab g) of (ids, v) \<Rightarrow>
             Inr (\<lparr>s_tokens = s_tokens s @ ids,
                   s_messages = s_messages s @
                     [assistant_message sid k assistant tool_name,
                      tool_message sid k tool_result tool_name,
                      plain_message ''user'' next_user],
                   s_arrival = arrival\<rparr>,
                  tool_name, \<lparr>g_rng = r, g_vocab = v\<rparr>)))"

text \<open>One iteration of the loop over turns\<close>

definition session_turn ::
    "'r random_lib \<Rightarrow> GenParams \<Rightarrow> Tool option \<Rightarrow> int \<Rightarrow> nat \<Rightarrow>
     session \<times> 'r gen \<times> TurnRequest list \<Rightarrow> (session \<times> 'r gen \<times> TurnRequest list) res" where
  "session_turn L gp session_tool sid k = (\<lambda>(s0, g0, requests).
     rbind (if 0 < k then extend_turn L gp session_tool sid k s0 g0 else Inr (s0, None, g0))
       (\<lambda>(s, tool_name, g).
     rbind (draw_gen_tokens L (gen_tokens_mean gp) (g_rng g)) (\<lambda>(gen_tokens, r).
     rbind (hash_blocks (s_tokens s) (gp_block_size gp)) (\<lambda>hashes.
       Inr (s, g\<lparr>g_rng := r\<rparr>, requests @
         [\<lparr>r_session_id = sid, r_turn_idx = int k, r_arrival = s_arrival s, r_tokens = s_tokens s,
           r_block_hashes = hashes, r_gen_tokens = gen_tokens, r_messages = s_messages s,
           r_kind = ''tool'', r_conversation_id = Some sid, r_tool_name = tool_name\<rparr>])))))"

definition open_session :: "pyfloat \<Rightarrow> string \<Rightarrow> int list \<Rightarrow> session" where
  "open_session arrival user0 ids =
     \<lparr>s_tokens = SYSTEM_TOKENS @ ids,
      s_messages = [plain_message ''system'' SYSTEM_PROMPT, plain_message ''user'' user0],
      s_arrival = arrival\<rparr>"

definition one_session ::
    "'r random_lib \<Rightarrow> GenParams \<Rightarrow> pyfloat \<Rightarrow> int \<Rightarrow> nat \<Rightarrow>
     pyfloat \<times> 'r gen \<times> TurnRequest list \<Rightarrow> (pyfloat \<times> 'r gen \<times> TurnRequest list) res" where
  "one_session L gp session_rate turns sid = (\<lambda>(session_start, g, requests).
     rbind (arrival_gap L session_rate (gp_burst_cv gp) (g_rng g)) (\<lambda>(gap, r1).
     let start = session_start + gap in
     rbind (rng_choice L USER_PROMPTS r1) (\<lambda>(user0, r2).
     rbind (if tool_reliability gp
            then rbind (rng_choice L (catalog gp) r2)
                   (\<lambda>(tool, r). Inr (Some tool, r))
            else Inr (None, r2)) (\<lambda>(session_tool, r3).
     case tokenize user0 (g_vocab g) of (ids, v) \<Rightarrow>
     rbind (rfold (session_turn L gp session_tool (int sid)) [0..<nat turns]
              (open_session start user0 ids, \<lparr>g_rng = r3, g_vocab = v\<rparr>, requests))
       (\<lambda>(s, g', requests'). Inr (start, g', requests'))))))"

section \<open>The stream of tool-calling sessions\<close>

text \<open>\<open>key(a) < key(b)\<close> for \<open>key = (r.arrival, r.session_id, r.turn_idx)\<close>\<close>

definition request_less :: "TurnRequest \<Rightarrow> TurnRequest \<Rightarrow> bool" where
  "request_less a b \<longleftrightarrow>
     (if feq (r_arrival a) (r_arrival b) then
        (if r_session_id a = r_session_id b then r_turn_idx a < r_turn_idx b
         else r_session_id a < r_session_id b)
      else r_arrival a < r_arrival b)"

definition generate_sessions ::
    "'r random_lib \<Rightarrow> int \<Rightarrow> int \<Rightarrow> pyfloat \<Rightarrow> GenParams \<Rightarrow> vocab \<Rightarrow> (TurnRequest list \<times> vocab) res" where
  "generate_sessions L num_sessions turns qps gp v =
     rbind (float_of_int (max turns 1)) (\<lambda>n.
     rbind (fdiv qps n) (\<lambda>rate.
     let session_rate = py_max2 rate (rnd (1 / 10 ^ 9)) in
     rbind (rfold (one_session L gp session_rate turns) [0..<nat num_sessions]
              (0, \<lparr>g_rng = seed_int L (gp_seed gp), g_vocab = v\<rparr>, []))
       (\<lambda>(session_start, g, requests). Inr (py_sort request_less requests, g_vocab g))))"

section \<open>The mixed stream\<close>

record MixParams =
  rag_docs :: int
  rag_doc_tokens :: int
  rag_zipf :: pyfloat
  rag_question_tokens :: int
  oneshot_tokens :: int

definition default_mix_params :: MixParams where
  "default_mix_params =
     \<lparr>rag_docs = 16, rag_doc_tokens = 1024, rag_zipf = rnd (11 / 10), rag_question_tokens = 16,
      oneshot_tokens = 32\<rparr>"

type_synonym mix = "(string, pyfloat) pydict"

definition WORKLOAD_CLASSES :: "string list" where
  "WORKLOAD_CLASSES = [''tool'', ''rag'', ''oneshot'']"

definition effective_mix :: "mix option \<Rightarrow> mix" where
  "effective_mix m = (case m of None \<Rightarrow> [(''tool'', Fin 1)] | Some d \<Rightarrow> if d = [] then [(''tool'', Fin 1)] else d)"

definition unknown_classes :: "mix \<Rightarrow> string list" where
  "unknown_classes d = filter (\<lambda>k. k \<notin> set WORKLOAD_CLASSES) (d_keys d)"

definition mix_get :: "mix \<Rightarrow> string \<Rightarrow> pyfloat" where
  "mix_get d k = (case d_get d k of None \<Rightarrow> 0 | Some x \<Rightarrow> x)"

text \<open>A single-turn request of a class\<close>

definition single_turn ::
    "'r random_lib \<Rightarrow> GenParams \<Rightarrow> int \<Rightarrow> string \<Rightarrow> pyfloat \<Rightarrow> int list \<Rightarrow> message list \<Rightarrow> 'r \<Rightarrow>
     (TurnRequest \<times> 'r) res" where
  "single_turn L gp sid kind arrival tokens messages r =
     rbind (hash_blocks tokens (gp_block_size gp)) (\<lambda>hashes.
     rbind (draw_gen_tokens L (gen_tokens_mean gp) r) (\<lambda>(gen_tokens, r').
       Inr (\<lparr>r_session_id = sid, r_turn_idx = 0, r_arrival = arrival, r_tokens = tokens,
             r_block_hashes = hashes, r_gen_tokens = gen_tokens, r_messages = messages,
             r_kind = kind, r_conversation_id = Some sid, r_tool_name = None\<rparr>, r')))"

definition rag_request ::
    "'r random_lib \<Rightarrow> GenParams \<Rightarrow> MixParams \<Rightarrow> pyfloat \<Rightarrow> pyfloat list \<Rightarrow> nat \<Rightarrow>
     pyfloat \<times> 'r gen \<times> TurnRequest list \<Rightarrow> (pyfloat \<times> 'r gen \<times> TurnRequest list) res" where
  "rag_request L gp mp rate weights i = (\<lambda>(arrival0, g, requests).
     rbind (arrival_gap L rate (gp_burst_cv gp) (g_rng g)) (\<lambda>(gap, r1).
     let arrival = arrival0 + gap in
     rbind (rng_choices_index L weights r1) (\<lambda>(d, r2).
     let doc = unique_words (''rag_d'' @ str_nat d) (rag_doc_tokens mp);
         user = doc @ '' '' @ unique_words (''rag_q'' @ str_nat i) (rag_question_tokens mp) in
     case tokenize user (g_vocab g) of (ids, v) \<Rightarrow>
     rbind (single_turn L gp (RAG_SID_BASE + int i) ''rag'' arrival (SYSTEM_TOKENS @ ids)
              [plain_message ''system'' SYSTEM_PROMPT, plain_message ''user'' user] r2)
       (\<lambda>(req, r3). Inr (arrival, \<lparr>g_rng = r3, g_vocab = v\<rparr>, requests @ [req])))))"

definition oneshot_request ::
    "'r random_lib \<Rightarrow> GenParams \<Rightarrow> MixParams \<Rightarrow> pyfloat \<Rightarrow> nat \<Rightarrow>
     pyfloat \<times> 'r gen \<times> TurnRequest list \<Rightarrow> (pyfloat \<times> 'r gen \<times> TurnRequest list) res" where
  "oneshot_request L gp mp rate i = (\<lambda>(arrival0, g, requests).
     rbind (arrival_gap L rate (gp_burst_cv gp) (g_rng g)) (\<lambda>(gap, r1).
     let arrival = arrival0 + gap; prompt = unique_words (''one_'' @ str_nat i) (oneshot_tokens mp) in
     case tokenize prompt (g_vocab g) of (ids, v) \<Rightarrow>
     rbind (single_turn L gp (ONESHOT_SID_BASE + int i) ''oneshot'' arrival ids
              [plain_message ''user'' prompt] r1)
       (\<lambda>(req, r2). Inr (arrival, \<lparr>g_rng = r2, g_vocab = v\<rparr>, requests @ [req]))))"

text \<open>\<open>round(budget * fraction)\<close>\<close>

definition share :: "int \<Rightarrow> pyfloat \<Rightarrow> int res" where
  "share budget fraction = rbind (int_times budget fraction) py_round"

definition rag_weights :: "'r random_lib \<Rightarrow> MixParams \<Rightarrow> pyfloat list res" where
  "rag_weights L mp =
     rmap (\<lambda>d. rbind (int_pow L (int d + 1) (rag_zipf mp)) (fdiv 1)) [0..<nat (rag_docs mp)]"

text \<open>The three class streams; each appends to the requests so far.\<close>

definition tool_stream ::
    "'r random_lib \<Rightarrow> int \<Rightarrow> int \<Rightarrow> pyfloat \<Rightarrow> GenParams \<Rightarrow> pyfloat \<Rightarrow> vocab \<Rightarrow> (TurnRequest list \<times> vocab) res" where
  "tool_stream L num_sessions turns qps gp fraction v =
     (if 0 < fraction then rbind (share num_sessions fraction) (\<lambda>n. generate_sessions L n turns (qps * fraction) gp v)
      else Inr ([], v))"

definition rag_stream ::
    "'r random_lib \<Rightarrow> int \<Rightarrow> pyfloat \<Rightarrow> GenParams \<Rightarrow> MixParams \<Rightarrow> pyfloat \<Rightarrow>
     TurnRequest list \<times> vocab \<Rightarrow> (TurnRequest list \<times> vocab) res" where
  "rag_stream L total_budget qps gp mp fraction = (\<lambda>(requests, v).
     if 0 < fraction then
       rbind (rag_weights L mp) (\<lambda>weights.
       rbind (share total_budget fraction) (\<lambda>n.
       rbind (rfold (rag_request L gp mp (py_max2 (qps * fraction) (rnd (1 / 10 ^ 9))) weights) [0..<nat n]
                (0, \<lparr>g_rng = seed_str L (str_int (gp_seed gp) @ '':rag''), g_vocab = v\<rparr>, requests))
         (\<lambda>(arrival, g, requests'). Inr (requests', g_vocab g))))
     else Inr (requests, v))"

definition oneshot_stream ::
    "'r random_lib \<Rightarrow> int \<Rightarrow> pyfloat \<Rightarrow> GenParams \<Rightarrow> MixParams \<Rightarrow> pyfloat \<Rightarrow>
     TurnRequest list \<times> vocab \<Rightarrow> (TurnRequest list \<times> vocab) res" where
  "oneshot_stream L total_budget qps gp mp fraction = (\<lambda>(requests, v).
     if 0 < fraction then
       rbind (share total_budget fraction) (\<lambda>n.
       rbind (rfold (oneshot_request L gp mp (py_max2 (qps * fraction) (rnd (1 / 10 ^ 9)))) [0..<nat n]
                (0, \<lparr>g_rng = seed_str L (str_int (gp_seed gp) @ '':oneshot''), g_vocab = v\<rparr>, requests))
         (\<lambda>(arrival, g, requests'). Inr (requests', g_vocab g)))
     else Inr (requests, v))"

definition generate_mixed ::
    "'r random_lib \<Rightarrow> int \<Rightarrow> int \<Rightarrow> pyfloat \<Rightarrow> mix option \<Rightarrow> GenParams \<Rightarrow> MixParams \<Rightarrow> vocab \<Rightarrow>
     (TurnRequest list \<times> vocab) res" where
  "generate_mixed L num_sessions turns qps m gp mp v0 =
     (let d = effective_mix m; total_budget = num_sessions * turns in
      if unknown_classes d \<noteq> [] then Inl ValueError
      else rbind (tool_stream L num_sessions turns qps gp (mix_get d ''tool'') v0) (\<lambda>s1.
           rbind (rag_stream L total_budget qps gp mp (mix_get d ''rag'') s1) (\<lambda>s2.
           rbind (oneshot_stream L total_budget qps gp mp (mix_get d ''oneshot'') s2) (\<lambda>(requests, v).
             Inr (py_sort request_less requests, v)))))"

end
