(* ===== verification/Streams.thy ===== *)
theory Streams
  imports Workload
begin

text \<open>
  What the generated request streams look like: a session is a chain of turns in which each
  turn extends the previous one, the stream is complete and in arrival order, and the streams
  of the workload classes are disjoint.
\<close>

section \<open>Hash chains of growing prompts\<close>

lemma hash_blocks_prefix:
  assumes "prefix xs ys" and "hash_blocks xs bs = Inr hx" and "hash_blocks ys bs = Inr hy"
  shows "prefix hx hy"
proof (cases "0 < bs")
  case True
  let ?n = "nat bs" and ?k = "length xs div nat bs"
  have n: "int ?n = bs" "0 < ?n" using True by simp_all
  have h: "hx = chain ?n xs" "hy = chain ?n ys" using assms(2,3) hash_blocks_pos [OF n(2)] n(1) by auto
  obtain zs where ys: "ys = xs @ zs" using assms(1) by (auto simp: prefix_def)
  have "?k \<le> length ys div ?n" by (simp add: ys div_le_mono)
  moreover have "take (?k * ?n) xs = take (?k * ?n) ys" by (simp add: ys)
  ultimately have "take ?k hx = take ?k hy"
    using take_chain [OF n(2), of ?k xs] take_chain [OF n(2), of ?k ys] by (simp only: h order_refl)
  then have "hx = take ?k hy" by (simp add: h)
  then show ?thesis by (metis take_is_prefix)
next
  case False
  then have "nat (int (length xs) div bs) = 0" if "bs \<noteq> 0"
    using that div_nonneg_neg_le0 [of "int (length xs)" bs] by simp
  then show ?thesis using assms(2) False by (auto simp: hash_blocks_def Let_def split: if_splits)
qed

section \<open>Generated text\<close>

lemma word_append: "list_all nonspace a \<Longrightarrow> word b \<Longrightarrow> word (a @ b)"
  by (simp add: word_def)

lemma word_nonspace: "word w \<Longrightarrow> list_all nonspace w"
  by (simp add: word_def)

lemma str_int_nonspace: "list_all nonspace (str_int i)"
  using word_nonspace [OF str_nat_word] by (simp add: str_int_def is_space_def)

lemma turn_tag_nonspace: "list_all nonspace e \<Longrightarrow> list_all nonspace (turn_tag sid k e)"
  using str_int_nonspace word_nonspace [OF str_nat_word] by (simp add: turn_tag_def is_space_def)

lemma unique_words_split:
  assumes "list_all nonspace tag"
  shows "py_split (unique_words tag n) = map (\<lambda>j. tag @ ''_w'' @ str_nat j) [0..<nat n]"
proof -
  have "word (tag @ ''_w'' @ str_nat j)" for j
    using assms word_append [OF _ str_nat_word, of "tag @ ''_w''" j] by (simp add: is_space_def)
  then show ?thesis unfolding unique_words_def by (intro py_split_join) (simp add: list_all_iff)
qed

lemma tokenize_words_length: "length (fst (tokenize_words ws v)) = length ws"
  by (induction ws arbitrary: v) (auto split: prod.splits, metis fst_conv)

lemma tokenize_count: "tokenize s v = (ids, v') \<Longrightarrow> length ids = length (py_split s)"
  using tokenize_words_length [of "py_split s" v] by (simp add: tokenize_def)

text \<open>A turn adds at least the six words of the next user message.\<close>

lemma segment_words:
  "6 \<le> length (py_split (a @ '' '' @ b @ '' '' @ unique_words (turn_tag sid k ''_u'') 6))"
proof -
  have "py_split (a @ '' '' @ b @ '' '' @ c) = py_split a @ py_split b @ py_split c" for c
    using py_split_append [of "CHR '' ''" a "b @ '' '' @ c"] py_split_append [of "CHR '' ''" b c] by simp
  moreover have "length (py_split (unique_words (turn_tag sid k ''_u'') 6)) = 6"
    using turn_tag_nonspace [of "''_u''"] by (simp add: unique_words_split is_space_def)
  ultimately show ?thesis by simp
qed

section \<open>Chat transcripts\<close>

text \<open>A tool message answers the call of the assistant message before it.\<close>

definition answers :: "message \<Rightarrow> message \<Rightarrow> bool" where
  "answers a t \<longleftrightarrow>
     (case m_tool_calls a of
        None \<Rightarrow> m_tool_call_id t = None
      | Some calls \<Rightarrow>
          length calls = 1 \<and> tc_type (hd calls) = ''function'' \<and> m_tool_call_id t = Some (tc_id (hd calls)))"

fun rounds_ok :: "message list \<Rightarrow> bool" where
  "rounds_ok [] = True"
| "rounds_ok (a # t # u # ms) =
     (m_role a = ''assistant'' \<and> m_role t = ''tool'' \<and> m_role u = ''user'' \<and> answers a t \<and> rounds_ok ms)"
| "rounds_ok ms = False"

fun chat_ok :: "message list \<Rightarrow> bool" where
  "chat_ok (s # u # ms) =
     (m_role s = ''system'' \<and> m_content s = SYSTEM_PROMPT \<and> m_role u = ''user'' \<and> rounds_ok ms)"
| "chat_ok ms = False"

lemma rounds_ok_append: "rounds_ok ms \<Longrightarrow> rounds_ok (ms @ ms') = rounds_ok ms'"
  by (induction ms rule: rounds_ok.induct) simp_all

lemma chat_ok_append: "chat_ok ms \<Longrightarrow> rounds_ok ms' \<Longrightarrow> chat_ok (ms @ ms')"
  by (induction ms rule: chat_ok.induct) (simp_all add: rounds_ok_append)

lemma round_ok:
  "rounds_ok [assistant_message sid k a tool, tool_message sid k res tool, plain_message ''user'' u]"
  by (simp add: assistant_message_def tool_message_def plain_message_def answers_def split: option.splits)

section \<open>One session\<close>

definition turn_ok :: "GenParams \<Rightarrow> int \<Rightarrow> nat \<Rightarrow> TurnRequest \<Rightarrow> bool" where
  "turn_ok gp sid k req \<longleftrightarrow>
     r_session_id req = sid \<and> r_turn_idx req = int k \<and> r_kind req = ''tool'' \<and>
     r_conversation_id req = Some sid \<and> 1 \<le> r_gen_tokens req \<and>
     hash_blocks (r_tokens req) (gp_block_size gp) = Inr (r_block_hashes req) \<and>
     prefix SYSTEM_TOKENS (r_tokens req) \<and> chat_ok (r_messages req) \<and>
     length (r_messages req) = 2 + 3 * k \<and>
     (r_tool_name req \<noteq> None \<longleftrightarrow> tool_reliability gp \<and> 0 < k)"

text \<open>A later turn's prompt and transcript extend an earlier one's.\<close>

definition extends :: "TurnRequest \<Rightarrow> TurnRequest \<Rightarrow> bool" where
  "extends a b \<longleftrightarrow> strict_prefix (r_tokens a) (r_tokens b) \<and> prefix (r_messages a) (r_messages b)"

definition session_ok :: "GenParams \<Rightarrow> int \<Rightarrow> TurnRequest list \<Rightarrow> bool" where
  "session_ok gp sid reqs \<longleftrightarrow>
     (\<forall>k < length reqs. turn_ok gp sid k (reqs ! k)) \<and> sorted_wrt extends reqs"

text \<open>The state of a session after \<open>k\<close> turns\<close>

definition session_state :: "GenParams \<Rightarrow> nat \<Rightarrow> session \<Rightarrow> TurnRequest list \<Rightarrow> bool" where
  "session_state gp k s reqs \<longleftrightarrow>
     prefix SYSTEM_TOKENS (s_tokens s) \<and> chat_ok (s_messages s) \<and>
     length (s_messages s) = 2 + 3 * (k - 1) \<and>
     list_all (\<lambda>r. prefix (r_tokens r) (s_tokens s) \<and> prefix (r_messages r) (s_messages s)) reqs"

lemma tool_outcome_name:
  assumes "tool_outcome L gp session_tool sid k arrival r = Inr (name, result, arrival', r')"
  shows "(name \<noteq> None) = (session_tool \<noteq> None)"
  using assms by (auto simp: tool_outcome_def Let_def split: option.splits prod.splits if_splits)

lemma extend_turn_spec:
  assumes "extend_turn L gp session_tool sid k s g = Inr (s', name, g')"
  shows "strict_prefix (s_tokens s) (s_tokens s')" "prefix (s_messages s) (s_messages s')"
    "chat_ok (s_messages s) \<Longrightarrow> chat_ok (s_messages s')"
    "length (s_messages s') = length (s_messages s) + 3"
    "(name \<noteq> None) = (session_tool \<noteq> None)"
proof -
  let ?a = "unique_words (turn_tag sid k ''_a'') (gen_tokens_mean gp)"
    and ?u = "unique_words (turn_tag sid k ''_u'') 6"
  obtain nm result arrival r where
    o: "tool_outcome L gp session_tool sid k (s_arrival s) (g_rng g) = Inr (nm, result, arrival, r)"
    using assms by (cases "tool_outcome L gp session_tool sid k (s_arrival s) (g_rng g)")
      (auto simp: extend_turn_def Let_def)
  obtain ids v where t: "tokenize (?a @ '' '' @ result @ '' '' @ ?u) (g_vocab g) = (ids, v)"
    by (cases "tokenize (?a @ '' '' @ result @ '' '' @ ?u) (g_vocab g)")
  have nm: "name = nm" and s': "s' = \<lparr>s_tokens = s_tokens s @ ids, s_messages = s_messages s @
        [assistant_message sid k ?a name, tool_message sid k result name, plain_message ''user'' ?u],
        s_arrival = arrival\<rparr>"
    using assms o t by (auto simp: extend_turn_def Let_def)
  have "6 \<le> length ids" using tokenize_count [OF t] segment_words [of ?a result sid k] by simp
  then show "strict_prefix (s_tokens s) (s_tokens s')" by (auto simp: s' strict_prefix_def)
  show "prefix (s_messages s) (s_messages s')" "length (s_messages s') = length (s_messages s) + 3"
    by (simp_all add: s')
  show "chat_ok (s_messages s')" if "chat_ok (s_messages s)"
    using chat_ok_append [OF that round_ok] by (simp add: s')
  show "(name \<noteq> None) = (session_tool \<noteq> None)" using tool_outcome_name [OF o] nm by simp
qed

lemma draw_gen_tokens_pos: "draw_gen_tokens L mean r = Inr (k, r') \<Longrightarrow> 1 \<le> k"
  by (auto simp: draw_gen_tokens_def split_beta)

lemma session_turn_spec:
  assumes "session_turn L gp tool sid k (s, g, reqs) = Inr (s', g', reqs')"
    and "session_state gp k s new" "length new = k" "(tool \<noteq> None) = tool_reliability gp"
  obtains req where "reqs' = reqs @ [req]" "turn_ok gp sid k req" "list_all (\<lambda>r. extends r req) new"
    "session_state gp (Suc k) s' (new @ [req])" "k = 0 \<longrightarrow> r_messages req = s_messages s"
proof -
  let ?step = "if 0 < k then extend_turn L gp tool sid k s g else Inr (s, None, g)"
  obtain s1 nm g1 where e: "?step = Inr (s1, nm, g1)"
    using assms(1) by (cases ?step) (auto simp: session_turn_def)
  obtain gen r where d: "draw_gen_tokens L (gen_tokens_mean gp) (g_rng g1) = Inr (gen, r)"
    using assms(1) e by (cases "draw_gen_tokens L (gen_tokens_mean gp) (g_rng g1)")
      (auto simp: session_turn_def)
  obtain hs where h: "hash_blocks (s_tokens s1) (gp_block_size gp) = Inr hs"
    using assms(1) e d by (cases "hash_blocks (s_tokens s1) (gp_block_size gp)")
      (auto simp: session_turn_def)
  let ?req = "\<lparr>r_session_id = sid, r_turn_idx = int k, r_arrival = s_arrival s1, r_tokens = s_tokens s1,
     r_block_hashes = hs, r_gen_tokens = gen, r_messages = s_messages s1, r_kind = ''tool'',
     r_conversation_id = Some sid, r_tool_name = nm\<rparr>"
  have out: "reqs' = reqs @ [?req]" "s' = s1" using assms(1) e d h by (auto simp: session_turn_def)
  have step: "(if k = 0 then s1 = s \<and> nm = None else
      strict_prefix (s_tokens s) (s_tokens s1) \<and> length (s_messages s1) = length (s_messages s) + 3 \<and>
      (nm \<noteq> None) = (tool \<noteq> None)) \<and> prefix (s_tokens s) (s_tokens s1) \<and>
      prefix (s_messages s) (s_messages s1) \<and> (chat_ok (s_messages s) \<longrightarrow> chat_ok (s_messages s1))"
    using e extend_turn_spec [of L gp tool sid k s g s1 nm g1] by (auto simp: strict_prefix_def)
  note st = assms(2) [unfolded session_state_def]
  have state: "prefix SYSTEM_TOKENS (s_tokens s1)" "chat_ok (s_messages s1)"
      "length (s_messages s1) = 2 + 3 * k"
    using st step prefix_order.trans by (auto split: if_splits)
  have grow: "prefix (r_tokens r) (s_tokens s1) \<and> prefix (r_messages r) (s_messages s1)"
    if "r \<in> set new" for r
    using that st step by (auto simp: list_all_iff intro: prefix_order.trans)
  have "list_all (\<lambda>r. extends r ?req) new"
  proof (cases "k = 0")
    case False
    then have "strict_prefix (r_tokens r) (s_tokens s1)" if "r \<in> set new" for r
      using that st step prefix_order.le_less_trans by (fastforce simp: list_all_iff)
    then show ?thesis using grow by (simp add: extends_def list_all_iff)
  qed (use assms(3) in simp)
  moreover have "turn_ok gp sid k ?req"
    using state step draw_gen_tokens_pos [OF d] h assms(4) by (cases "k = 0") (auto simp: turn_ok_def)
  moreover have "session_state gp (Suc k) s1 (new @ [?req])"
    using state grow by (simp add: session_state_def list_all_iff)
  moreover have "k = 0 \<longrightarrow> r_messages ?req = s_messages s" using step by simp
  ultimately show thesis using that out by simp
qed

lemma session_ok_snoc:
  "session_ok gp sid new \<Longrightarrow> turn_ok gp sid (length new) req \<Longrightarrow> list_all (\<lambda>r. extends r req) new \<Longrightarrow>
     session_ok gp sid (new @ [req])"
  by (auto simp: session_ok_def nth_append less_Suc_eq sorted_wrt_append list_all_iff)

lemma session_turns_spec:
  assumes "rfold (session_turn L gp tool sid) [0..<n] (s0, g0, reqs0) = Inr (s, g, reqs)"
    and "session_state gp 0 s0 []" "(tool \<noteq> None) = tool_reliability gp"
  obtains new where "reqs = reqs0 @ new" "length new = n" "session_ok gp sid new"
    "list_all (\<lambda>r. r_turn_idx r = 0 \<longrightarrow> r_messages r = s_messages s0) new"
proof -
  let ?P = "\<lambda>k (s, g, reqs). \<exists>new. reqs = reqs0 @ new \<and> length new = k \<and>
      session_ok gp sid new \<and> session_state gp k s new \<and> (k = 0 \<longrightarrow> s = s0) \<and>
      list_all (\<lambda>r. r_turn_idx r = 0 \<longrightarrow> r_messages r = s_messages s0) new"
  have "?P n (s, g, reqs)"
  proof (rule rfold_upt_inv [of _ _ _ _ ?P, OF assms(1)])
    show "?P 0 (s0, g0, reqs0)" using assms(2) by (simp add: session_ok_def)
    fix k st st'
    assume P: "?P k st" and f: "session_turn L gp tool sid k st = Inr st'"
    obtain s g reqs s' g' reqs' where st: "st = (s, g, reqs)" "st' = (s', g', reqs')"
      by (cases st, cases st')
    from P obtain new where new: "reqs = reqs0 @ new" "length new = k" "session_ok gp sid new"
        "session_state gp k s new" "k = 0 \<longrightarrow> s = s0"
        "list_all (\<lambda>r. r_turn_idx r = 0 \<longrightarrow> r_messages r = s_messages s0) new" by (auto simp: st)
    obtain req where "reqs' = reqs @ [req]" "turn_ok gp sid k req" "list_all (\<lambda>r. extends r req) new"
        "session_state gp (Suc k) s' (new @ [req])" "k = 0 \<longrightarrow> r_messages req = s_messages s"
      by (rule session_turn_spec [OF f [unfolded st] new(4,2) assms(3)])
    moreover from this(2) have "r_turn_idx req = int k" by (simp add: turn_ok_def)
    ultimately show "?P (Suc k) st'"
      using new session_ok_snoc by (auto simp: st intro!: exI [of _ "new @ [req]"])
  qed
  then show thesis using that by auto
qed

lemma open_session_state:
  "session_state gp 0 (open_session start user0 ids) []"
  by (simp add: session_state_def open_session_def plain_message_def)

text \<open>The first turn of a session is the system prompt and one of the canned questions.\<close>

definition opened :: "'r random_lib \<Rightarrow> TurnRequest \<Rightarrow> bool" where
  "opened L req \<longleftrightarrow> (r_turn_idx req = 0 \<longrightarrow>
     (\<exists>u r r'. rng_choice L USER_PROMPTS r = Inr (u, r') \<and>
        r_messages req = [plain_message ''system'' SYSTEM_PROMPT, plain_message ''user'' u]))"

lemma one_session_spec:
  assumes "one_session L gp rate turns sid (start, g, reqs) = Inr (start', g', reqs')"
  obtains new where "reqs' = reqs @ new" "length new = nat turns" "session_ok gp (int sid) new"
    "list_all (opened L) new"
proof -
  obtain gap r1 user0 r2 where "arrival_gap L rate (gp_burst_cv gp) (g_rng g) = Inr (gap, r1)"
      and u: "rng_choice L USER_PROMPTS r1 = Inr (user0, r2)"
    using assms by (auto simp: one_session_def Let_def)
  moreover from calculation obtain tool r3 where
      "(tool \<noteq> None) = tool_reliability gp"
      "(if tool_reliability gp then rbind (rng_choice L (catalog gp) r2) (\<lambda>(tool, r). Inr (Some tool, r))
        else Inr (None, r2)) = Inr (tool, r3)"
    using assms by (auto simp: one_session_def Let_def split_beta split: if_splits)
  ultimately obtain ids v s where
      "(tool \<noteq> None) = tool_reliability gp"
      "rfold (session_turn L gp tool (int sid)) [0..<nat turns]
         (open_session (start + gap) user0 ids, \<lparr>g_rng = r3, g_vocab = v\<rparr>, reqs) = Inr (s, g', reqs')"
    using assms by (auto simp: one_session_def Let_def split_beta)
  from session_turns_spec [OF this(2) open_session_state this(1)] obtain new where
      "reqs' = reqs @ new" "length new = nat turns" "session_ok gp (int sid) new"
      "list_all (\<lambda>r. r_turn_idx r = 0 \<longrightarrow>
         r_messages r = s_messages (open_session (start + gap) user0 ids)) new" .
  moreover from this(4) have "list_all (opened L) new"
    using u by (auto simp: opened_def open_session_def list_all_iff)
  ultimately show thesis using that by blast
qed

section \<open>The stream of sessions\<close>

definition sessions_ok :: "GenParams \<Rightarrow> nat \<Rightarrow> TurnRequest list list \<Rightarrow> bool" where
  "sessions_ok gp n ss \<longleftrightarrow>
     (\<forall>i < length ss. length (ss ! i) = n \<and> session_ok gp (int i) (ss ! i))"

lemma generate_sessions_spec:
  assumes "generate_sessions L num turns qps gp v = Inr (reqs, v')"
  obtains ss where "reqs = py_sort request_less (concat ss)" "length ss = nat num"
    "sessions_ok gp (nat turns) ss" "list_all (list_all (opened L)) ss"
proof -
  obtain rate start g rs where
    r: "rfold (one_session L gp rate turns) [0..<nat num]
          (0, \<lparr>g_rng = seed_int L (gp_seed gp), g_vocab = v\<rparr>, []) = Inr (start, g, rs)"
      "reqs = py_sort request_less rs"
    using assms by (auto simp: generate_sessions_def Let_def)
  let ?P = "\<lambda>k (start :: pyfloat, g :: 'a gen, reqs).
      \<exists>ss. reqs = concat ss \<and> length ss = k \<and> sessions_ok gp (nat turns) ss \<and>
        list_all (list_all (opened L)) ss"
  have "?P (nat num) (start, g, rs)"
  proof (rule rfold_upt_inv [of _ _ _ _ ?P, OF r(1)])
    show "?P 0 (0, \<lparr>g_rng = seed_int L (gp_seed gp), g_vocab = v\<rparr>, [])" by (simp add: sessions_ok_def)
    fix k st st'
    assume P: "?P k st" and f: "one_session L gp rate turns k st = Inr st'"
    obtain s g rs s' g' rs' where st: "st = (s, g, rs)" "st' = (s', g', rs')" by (cases st, cases st')
    from P obtain ss where ss: "rs = concat ss" "length ss = k" "sessions_ok gp (nat turns) ss"
        "list_all (list_all (opened L)) ss"
      by (auto simp: st)
    obtain new where "rs' = rs @ new" "length new = nat turns" "session_ok gp (int k) new"
        "list_all (opened L) new"
      by (rule one_session_spec [OF f [unfolded st]])
    then show "?P (Suc k) st'"
      using ss by (auto simp: st sessions_ok_def nth_append less_Suc_eq intro!: exI [of _ "ss @ [new]"])
  qed
  then show thesis using that r(2) by auto
qed

end
