(* ===== verification/Arrivals.thy ===== *)
theory Arrivals
  imports Streams
begin

text \<open>
  The generator returns, and its streams are in arrival order. The hypotheses are on the
  distributions of \<open>random.Random\<close> (\<open>random_ok\<close>, their documented ranges) and on the
  arguments (\<open>gen_ok\<close>: a nonzero block size, nonnegative delays, a catalog to choose from).
\<close>

section \<open>Hypotheses\<close>

definition moderate :: "pyfloat \<Rightarrow> bool" where
  "moderate x \<longleftrightarrow> Fin (- (2 ^ 53)) \<le> x \<and> x \<le> Fin (2 ^ 53)"

definition gap_drawn :: "(pyfloat \<times> 'r) res \<Rightarrow> bool" where
  "gap_drawn m \<longleftrightarrow> (case m of Inl e \<Rightarrow> False | Inr (x, r) \<Rightarrow> 0 \<le> x \<and> is_f64 x)"

definition random_ok :: "'r random_lib \<Rightarrow> bool" where
  "random_ok L \<longleftrightarrow>
     (\<forall>n r. 0 < n \<longrightarrow> fst (randbelow L n r) < n) \<and>
     (\<forall>rate r. 0 < rate \<longrightarrow> gap_drawn (expovariate L rate r)) \<and>
     (\<forall>shape beta r. 0 < shape \<longrightarrow> 0 < beta \<longrightarrow> gap_drawn (gammavariate L shape beta r)) \<and>
     (\<forall>mu sigma r. moderate mu \<longrightarrow> moderate sigma \<longrightarrow> finite_f (fst (gauss L mu sigma r)))"

definition gen_ok :: "GenParams \<Rightarrow> bool" where
  "gen_ok gp \<longleftrightarrow>
     gp_block_size gp \<noteq> 0 \<and> \<bar>gen_tokens_mean gp\<bar> \<le> 2 ^ 53 \<and> 0 \<le> think_time gp \<and>
     0 \<le> nominal_turn_seconds gp \<and>
     (tool_reliability gp \<longrightarrow> catalog gp \<noteq> [] \<and> list_all (\<lambda>t. 0 \<le> success_latency t) (catalog gp))"

text \<open>A burst setting with which a gap can be drawn at a positive rate\<close>

definition bursts_ok :: "pyfloat \<Rightarrow> pyfloat \<Rightarrow> bool" where
  "bursts_ok cv rate \<longleftrightarrow>
     feq cv 1 \<or> (\<exists>shape beta. fdiv 1 (cv * cv) = Inr shape \<and> 0 < shape \<and>
                   fdiv 1 (rate * shape) = Inr beta \<and> 0 < beta)"

section \<open>Draws\<close>

lemma fadd_ge: "0 \<le> a \<Longrightarrow> is_f64 a \<Longrightarrow> 0 \<le> d \<Longrightarrow> a \<le> (a + d :: pyfloat)"
  using fadd_mono [of a a 0 d] fadd_0(1) [of a] fadd_nonneg [of a d] by (simp add: fnonneg_not_NaN)

lemma rng_choice_returns:
  assumes "random_ok L" "xs \<noteq> []"
  obtains x r' where "rng_choice L xs r = Inr (x, r')" "x \<in> set xs"
proof -
  obtain i r' where i: "randbelow L (length xs) r = (i, r')" by (cases "randbelow L (length xs) r")
  moreover have "i < length xs" using assms i unfolding random_ok_def by (metis fst_conv length_greater_0_conv)
  ultimately show thesis using that assms(2) by (simp add: rng_choice_def)
qed

lemma texts_nonempty: "CANNED_TOOL_RESULTS \<noteq> []" "USER_PROMPTS \<noteq> []"
  by (simp_all add: CANNED_TOOL_RESULTS_def USER_PROMPTS_def)

text \<open>Every gap that can be drawn at this rate is a nonnegative number.\<close>

definition gaps_drawn :: "'r random_lib \<Rightarrow> pyfloat \<Rightarrow> pyfloat \<Rightarrow> bool" where
  "gaps_drawn L cv rate \<longleftrightarrow> (\<forall>r. gap_drawn (arrival_gap L rate cv r))"

lemma bursts_drawn: "random_ok L \<Longrightarrow> 0 < rate \<Longrightarrow> bursts_ok cv rate \<Longrightarrow> gaps_drawn L cv rate"
  by (auto simp: gaps_drawn_def arrival_gap_def bursts_ok_def random_ok_def)

lemma gaps_drawnE:
  assumes "gaps_drawn L cv rate"
  obtains gap r' where "arrival_gap L rate cv r = Inr (gap, r')" "0 \<le> gap" "is_f64 gap"
proof -
  have "gap_drawn (arrival_gap L rate cv r)" using assms by (simp add: gaps_drawn_def)
  then show thesis using that by (auto simp: gap_drawn_def split: sum.splits)
qed

lemma moderate_of_int: "\<bar>n\<bar> \<le> 2 ^ 53 \<Longrightarrow> float_of_int n = Inr (Fin (of_int n)) \<and> moderate (Fin (of_int n))"
proof -
  assume n: "\<bar>n\<bar> \<le> 2 ^ 53"
  have "(of_int n :: rat) \<le> of_int (2 ^ 53)" "of_int (- (2 ^ 53)) \<le> (of_int n :: rat)"
    using n by (simp_all only: of_int_le_iff)
  then show ?thesis by (simp add: float_of_int_def rnd_of_int [OF n] moderate_def)
qed

lemma int_times_fifth:
  assumes "\<bar>n\<bar> \<le> 2 ^ 53"
  obtains x where "int_times n (rnd (1 / 5)) = Inr x" "moderate x"
proof -
  let ?n = "of_int n :: rat"
  have n: "\<bar>?n\<bar> \<le> 2 ^ 53"
    using assms moderate_of_int [OF assms] by (auto simp: moderate_def)
  have b: "rnd (2 ^ 53) = Fin (2 ^ 53)" "rnd (- (2 ^ 53)) = Fin (- (2 ^ 53))"
    using rnd_of_int [of "2 ^ 53"] rnd_of_int [of "- (2 ^ 53)"] by simp_all
  obtain f where f: "rnd (1 / 5) = Fin f" "0 \<le> f" "f \<le> 1"
    using rnd_nonneg [of "1 / 5"] rnd_le_Fin [of "1 / 5" 1] by (cases "rnd (1 / 5 :: rat)") auto
  have "\<bar>?n * f\<bar> \<le> 2 ^ 53 * 1" unfolding abs_mult using n f by (intro mult_mono) simp_all
  then have "?n * f \<le> 2 ^ 53" "- (2 ^ 53) \<le> ?n * f" by linarith+
  then have "moderate (rnd (?n * f))"
    using rnd_le_Fin [OF _ b(1)] rnd_ge_Fin [OF _ b(2)] by (simp add: moderate_def)
  then show thesis using that [of "rnd (?n * f)"] moderate_of_int [OF assms] by (simp add: int_times_def f(1))
qed

lemma draw_gen_tokens_returns:
  assumes "random_ok L" "\<bar>mean\<bar> \<le> 2 ^ 53"
  obtains k r' where "draw_gen_tokens L mean r = Inr (k, r')"
proof -
  obtain sigma where s: "int_times mean (rnd (1 / 5)) = Inr sigma" "moderate sigma"
    using int_times_fifth [OF assms(2)] .
  note m = moderate_of_int [OF assms(2)]
  obtain x r' where g: "gauss L (Fin (of_int mean)) sigma r = (x, r')"
    by (cases "gauss L (Fin (of_int mean)) sigma r")
  have "finite_f x" using assms(1) m s(2) g unfolding random_ok_def by (metis fst_conv)
  then obtain q where "x = Fin q" by blast
  then show thesis using that s(1) m g by (simp add: draw_gen_tokens_def)
qed

section \<open>One session\<close>

lemma tool_outcome_returns:
  assumes "random_ok L" "gen_ok gp" "0 \<le> t" "is_f64 t"
    and "case session_tool of None \<Rightarrow> True | Some tool \<Rightarrow> 0 \<le> success_latency tool"
  obtains name result t' r' where "tool_outcome L gp session_tool sid k t r = Inr (name, result, t', r')"
    "t \<le> t'" "is_f64 t'"
proof -
  have success: "\<exists>res r'. success_result L p tag n r = Inr (res, r')" for p tag n r
  proof -
    obtain u r1 where u: "uniform L r = (u, r1)" by (cases "uniform L r")
    obtain x r2 where "rng_choice L CANNED_TOOL_RESULTS r1 = Inr (x, r2)"
      using rng_choice_returns [OF assms(1) texts_nonempty(1)] by blast
    then show ?thesis by (simp add: success_result_def u)
  qed
  have later: "t \<le> t + d" if "0 \<le> d" for d using fadd_ge assms(3,4) that by blast
  have d: "0 \<le> think_time gp + nominal_turn_seconds gp" "0 \<le> DEFAULT_RETRY_GAP"
    using assms(2) fadd_nonneg rnd_nonneg [of "1 / 5"]
    by (simp_all add: gen_ok_def DEFAULT_RETRY_GAP_def zero_pyfloat_def)
  let ?tag = "turn_tag sid k ''_r''"
  show thesis
  proof (cases session_tool)
    case None
    obtain res r' where "success_result L (deterministic_tool_prob gp) ?tag (tool_result_tokens gp) r = Inr (res, r')"
      using success by blast
    then show thesis using that later [OF d(1)] by (simp add: tool_outcome_def None)
  next
    case (Some tool)
    obtain u r1 where u: "uniform L r = (u, r1)" by (cases "uniform L r")
    obtain res r' where s: "success_result L (deterministic_tool_prob gp) ?tag (tool_result_tokens gp) r1 = Inr (res, r')"
      using success by blast
    have "0 \<le> think_time gp + success_latency tool"
      using assms(2,5) Some fadd_nonneg by (simp add: gen_ok_def)
    then show thesis using that later d(2) by (cases "u < fail_prob tool") (auto simp: tool_outcome_def Some u s)
  qed
qed

definition in_order :: "TurnRequest \<Rightarrow> TurnRequest \<Rightarrow> bool" where
  "in_order a b \<longleftrightarrow> r_arrival a \<le> r_arrival b"

definition tool_ok :: "Tool option \<Rightarrow> bool" where
  "tool_ok session_tool \<longleftrightarrow> (case session_tool of None \<Rightarrow> True | Some tool \<Rightarrow> 0 \<le> success_latency tool)"

lemma session_turn_returns:
  assumes "random_ok L" "gen_ok gp" "tool_ok session_tool" "0 \<le> s_arrival s" "is_f64 (s_arrival s)"
  obtains s' g' req where "session_turn L gp session_tool sid k (s, g, reqs) = Inr (s', g', reqs @ [req])"
    "s_arrival s \<le> s_arrival s'" "is_f64 (s_arrival s')" "r_arrival req = s_arrival s'"
proof -
  obtain s1 nm g1 where s1: "(if 0 < k then extend_turn L gp session_tool sid k s g else Inr (s, None, g)) = Inr (s1, nm, g1)"
      "s_arrival s \<le> s_arrival s1" "is_f64 (s_arrival s1)"
  proof (cases "k = 0")
    case False
    obtain name result t' r' where o: "tool_outcome L gp session_tool sid k (s_arrival s) (g_rng g) = Inr (name, result, t', r')"
        "s_arrival s \<le> t'" "is_f64 t'"
      using tool_outcome_returns [OF assms(1,2,4,5)] assms(3) unfolding tool_ok_def by metis
    show thesis using that False o by (simp add: extend_turn_def Let_def split_beta)
  qed (use that assms(4,5) in \<open>auto simp: fnonneg_not_NaN\<close>)
  obtain gen r where "draw_gen_tokens L (gen_tokens_mean gp) (g_rng g1) = Inr (gen, r)"
    using draw_gen_tokens_returns assms(1,2) by (metis gen_ok_def)
  moreover obtain hs where "hash_blocks (s_tokens s1) (gp_block_size gp) = Inr hs"
    using assms(2) by (simp add: hash_blocks_def gen_ok_def Let_def)
  ultimately show thesis using that s1 by (simp add: session_turn_def)
qed

lemma session_turns_return:
  assumes "random_ok L" "gen_ok gp" "tool_ok session_tool" "0 \<le> s_arrival s0" "is_f64 (s_arrival s0)"
  obtains s g new where "rfold (session_turn L gp session_tool sid) [0..<n] (s0, g0, reqs0) = Inr (s, g, reqs0 @ new)"
    "sorted_wrt in_order new" "list_all (\<lambda>r. s_arrival s0 \<le> r_arrival r) new"
proof -
  let ?lo = "s_arrival s0"
  let ?P = "\<lambda>k :: nat. \<lambda>(s :: session, g :: 'a gen, reqs). \<exists>new. reqs = reqs0 @ new \<and> sorted_wrt in_order new \<and>
      list_all (\<lambda>r. ?lo \<le> r_arrival r \<and> r_arrival r \<le> s_arrival s) new \<and> ?lo \<le> s_arrival s \<and> is_f64 (s_arrival s)"
  have "\<exists>st. rfold (session_turn L gp session_tool sid) [0..<n] (s0, g0, reqs0) = Inr st \<and> ?P n st"
  proof (rule rfold_upt_returns [of ?P])
    show "?P 0 (s0, g0, reqs0)" using assms(4,5) by (auto simp: fnonneg_not_NaN)
    fix k st assume P: "?P k st"
    obtain s g reqs where st: "st = (s, g, reqs)" by (cases st)
    from P obtain new where new: "reqs = reqs0 @ new" "sorted_wrt in_order new" "?lo \<le> s_arrival s"
        "is_f64 (s_arrival s)" "\<And>r. r \<in> set new \<Longrightarrow> ?lo \<le> r_arrival r \<and> r_arrival r \<le> s_arrival s"
      by (auto simp: st list_all_iff)
    from session_turn_returns [OF assms(1-3) fle_trans [OF assms(4) new(3)] new(4)]
    obtain s' g' req where f: "session_turn L gp session_tool sid k (s, g, reqs) = Inr (s', g', reqs @ [req])"
        "s_arrival s \<le> s_arrival s'" "is_f64 (s_arrival s')" "r_arrival req = s_arrival s'" .
    have up: "r_arrival r \<le> s_arrival s'" if "r \<in> set new" for r
      using new(5) [OF that] f(2) fle_trans by blast
    have lo: "?lo \<le> s_arrival s'" using fle_trans [OF new(3) f(2)] .
    have "list_all (\<lambda>r. ?lo \<le> r_arrival r \<and> r_arrival r \<le> s_arrival s') (new @ [req])"
      using new(5) up lo f(4) by (auto simp: list_all_iff fle_not_NaN)
    moreover have "sorted_wrt in_order (new @ [req])"
      using new(2) up f(4) by (simp add: sorted_wrt_append in_order_def)
    ultimately have "?P (Suc k) (s', g', reqs @ [req])"
      using new(1) lo f(3) by simp
    then show "\<exists>st'. session_turn L gp session_tool sid k st = Inr st' \<and> ?P (Suc k) st'"
      using f(1) st by blast
  qed
  then show thesis using that by (auto simp: list_all_iff)
qed

section \<open>The stream\<close>

lemma tool_choice_returns:
  assumes "random_ok L" "gen_ok gp"
  obtains session_tool r' where
    "(if tool_reliability gp then rbind (rng_choice L (catalog gp) r) (\<lambda>(tool, r). Inr (Some tool, r))
      else Inr (None, r)) = Inr (session_tool, r')" "tool_ok session_tool"
proof (cases "tool_reliability gp")
  case True
  then have c: "catalog gp \<noteq> []" "list_all (\<lambda>t. 0 \<le> success_latency t) (catalog gp)"
    using assms(2) by (simp_all add: gen_ok_def)
  obtain x r' where x: "rng_choice L (catalog gp) r = Inr (x, r')" "x \<in> set (catalog gp)"
    using rng_choice_returns [OF assms(1) c(1)] .
  show thesis
    by (rule that [of "Some x" r']) (use True x c(2) in \<open>simp_all add: tool_ok_def list_all_iff\<close>)
next
  case False
  show thesis by (rule that [of None r]) (use False in \<open>simp_all add: tool_ok_def\<close>)
qed

lemma one_session_returns:
  assumes "random_ok L" "gen_ok gp" "gaps_drawn L (gp_burst_cv gp) rate" "0 \<le> start" "is_f64 start"
  obtains start' g' new where "one_session L gp rate turns sid (start, g, reqs) = Inr (start', g', reqs @ new)"
    "0 \<le> start'" "is_f64 start'" "sorted_wrt in_order new" "list_all (\<lambda>r. 0 \<le> r_arrival r) new"
proof -
  obtain gap r1 where gap: "arrival_gap L rate (gp_burst_cv gp) (g_rng g) = Inr (gap, r1)" "0 \<le> gap" "is_f64 gap"
    using gaps_drawnE [OF assms(3)] .
  obtain user0 r2 where user: "rng_choice L USER_PROMPTS r1 = Inr (user0, r2)" "user0 \<in> set USER_PROMPTS"
    using rng_choice_returns [OF assms(1) texts_nonempty(2)] .
  obtain session_tool r3 where tool:
    "(if tool_reliability gp then rbind (rng_choice L (catalog gp) r2) (\<lambda>(tool, r). Inr (Some tool, r))
      else Inr (None, r2)) = Inr (session_tool, r3)" "tool_ok session_tool"
    using tool_choice_returns [OF assms(1,2)] .
  obtain ids v where t: "tokenize user0 (g_vocab g) = (ids, v)" by (cases "tokenize user0 (g_vocab g)")
  let ?s0 = "open_session (start + gap) user0 ids"
  have s0: "0 \<le> s_arrival ?s0" "is_f64 (s_arrival ?s0)"
    using fadd_nonneg [OF assms(4) gap(2)] by (simp_all add: open_session_def)
  obtain s g' new where run:
    "rfold (session_turn L gp session_tool (int sid)) [0..<nat turns] (?s0, \<lparr>g_rng = r3, g_vocab = v\<rparr>, reqs) =
       Inr (s, g', reqs @ new)"
    "sorted_wrt in_order new" "list_all (\<lambda>r. s_arrival ?s0 \<le> r_arrival r) new"
    using session_turns_return [OF assms(1,2) tool(2) s0] .
  have "one_session L gp rate turns sid (start, g, reqs) = Inr (start + gap, g', reqs @ new)"
    using gap(1) user(1) tool(1) t run(1) by (simp add: one_session_def Let_def)
  moreover have "list_all (\<lambda>r. 0 \<le> r_arrival r) new"
    using run(3) fle_trans [OF s0(1)] by (auto simp: list_all_iff)
  ultimately show thesis using that [OF _ _ _ run(2)] s0 by (simp add: open_session_def)
qed

definition ordered_sessions :: "TurnRequest list list \<Rightarrow> bool" where
  "ordered_sessions ss \<longleftrightarrow>
     list_all (\<lambda>s. sorted_wrt in_order s \<and> list_all (\<lambda>r. 0 \<le> r_arrival r) s) ss"

lemma sessions_return:
  assumes "random_ok L" "gen_ok gp" "gaps_drawn L (gp_burst_cv gp) rate"
  obtains start g ss where "rfold (one_session L gp rate turns) [0..<n] (0, g0, []) = Inr (start, g, concat ss)"
    "length ss = n" "sessions_ok gp (nat turns) ss" "ordered_sessions ss"
proof -
  let ?P = "\<lambda>k. \<lambda>(start :: pyfloat, g :: 'a gen, reqs). 0 \<le> start \<and> is_f64 start \<and>
      (\<exists>ss. reqs = concat ss \<and> length ss = k \<and> sessions_ok gp (nat turns) ss \<and> ordered_sessions ss)"
  have "\<exists>st. rfold (one_session L gp rate turns) [0..<n] (0, g0, []) = Inr st \<and> ?P n st"
  proof (rule rfold_upt_returns [of ?P])
    show "?P 0 (0, g0, [])" by (simp add: sessions_ok_def ordered_sessions_def)
    fix k st assume P: "?P k st"
    obtain start g reqs where st: "st = (start, g, reqs)" by (cases st)
    from P obtain ss where ss: "0 \<le> start" "is_f64 start" "reqs = concat ss" "length ss = k"
        "sessions_ok gp (nat turns) ss" "ordered_sessions ss" by (auto simp: st)
    obtain start' g' new where f: "one_session L gp rate turns k (start, g, reqs) = Inr (start', g', reqs @ new)"
        "0 \<le> start'" "is_f64 start'" "sorted_wrt in_order new" "list_all (\<lambda>r. 0 \<le> r_arrival r) new"
      using one_session_returns [OF assms ss(1,2)] .
    obtain new' where "reqs @ new = reqs @ new'" "length new' = nat turns" "session_ok gp (int k) new'"
        "list_all (opened L) new'"
      using one_session_spec [OF f(1)] .
    then have "sessions_ok gp (nat turns) (ss @ [new])"
      using ss(4,5) by (auto simp: sessions_ok_def nth_append less_Suc_eq)
    moreover have "ordered_sessions (ss @ [new])" using ss(6) f(4,5) by (simp add: ordered_sessions_def)
    ultimately have "?P (Suc k) (start', g', reqs @ new)"
      using f(2,3) ss(3,4) by (auto intro!: exI [of _ "ss @ [new]"])
    then show "\<exists>st'. one_session L gp rate turns k st = Inr st' \<and> ?P (Suc k) st'" using f(1) st by blast
  qed
  then show thesis using that by auto
qed

text \<open>The rate at which sessions arrive: \<open>max(qps / max(turns, 1), 1e-9)\<close>\<close>

definition session_rate :: "pyfloat \<Rightarrow> int \<Rightarrow> pyfloat" where
  "session_rate qps turns = py_max2 (fquot qps (Fin (of_int (max turns 1)))) (rnd (1 / 10 ^ 9))"

lemma generate_sessions_rate:
  assumes "turns \<le> 2 ^ 53"
  shows "generate_sessions L num turns qps gp v =
    rbind (rfold (one_session L gp (session_rate qps turns) turns) [0..<nat num]
        (0, \<lparr>g_rng = seed_int L (gp_seed gp), g_vocab = v\<rparr>, []))
      (\<lambda>(session_start, g, requests). Inr (py_sort request_less requests, g_vocab g))"
proof -
  have "\<bar>max turns 1\<bar> \<le> 2 ^ 53" using assms by simp
  then have "float_of_int (max turns 1) = Inr (Fin (of_int (max turns 1)))"
    using moderate_of_int by blast
  then show ?thesis by (simp add: generate_sessions_def session_rate_def fdiv_def Let_def)
qed

lemma generate_sessions_drawn:
  assumes "random_ok L" "gen_ok gp" "turns \<le> 2 ^ 53" "gaps_drawn L (gp_burst_cv gp) (session_rate qps turns)"
  obtains ss v' where "generate_sessions L num turns qps gp v = Inr (py_sort request_less (concat ss), v')"
    "length ss = nat num" "sessions_ok gp (nat turns) ss" "ordered_sessions ss"
proof -
  from sessions_return [OF assms(1,2,4), of turns "nat num" "\<lparr>g_rng = seed_int L (gp_seed gp), g_vocab = v\<rparr>"]
  obtain start g ss where "rfold (one_session L gp (session_rate qps turns) turns) [0..<nat num]
      (0, \<lparr>g_rng = seed_int L (gp_seed gp), g_vocab = v\<rparr>, []) = Inr (start, g, concat ss)"
    "length ss = nat num" "sessions_ok gp (nat turns) ss" "ordered_sessions ss" .
  then show thesis using that by (simp add: generate_sessions_rate [OF assms(3)])
qed

lemma least_rate: "0 < rnd (1 / 10 ^ 9)"
proof -
  have "Fin (2 powi (- 1074)) \<le> rnd (1 / 10 ^ 9)"
  proof (rule rnd_ge_Fin [OF _ rnd_tiny])
    have "(2::rat) powi (- 1074) \<le> 2 powi (- 30)" by (rule powi_mono) simp
    also have "\<dots> \<le> 1 / 10 ^ 9" by (simp add: power_int_minus)
    finally show "(2::rat) powi (- 1074) \<le> 1 / 10 ^ 9" .
  qed
  then show ?thesis by (rule fless_le_trans [rotated]) (simp add: zero_pyfloat_def)
qed

lemma generate_sessions_returns:
  assumes "random_ok L" "gen_ok gp" "fdiv qps (Fin (of_int (max turns 1))) = Inr rate" "rate \<noteq> NaN"
    and "turns \<le> 2 ^ 53" "bursts_ok (gp_burst_cv gp) (py_max2 rate (rnd (1 / 10 ^ 9)))"
  obtains ss v' where "generate_sessions L num turns qps gp v = Inr (py_sort request_less (concat ss), v')"
    "length ss = nat num" "sessions_ok gp (nat turns) ss" "ordered_sessions ss"
proof -
  let ?rate = "py_max2 rate (rnd (1 / 10 ^ 9))"
  have "0 < ?rate" using fless_le_trans [OF least_rate] max2_ge2 [OF assms(4), of "rnd (1 / 10 ^ 9)"] by simp
  then have "gaps_drawn L (gp_burst_cv gp) ?rate" using bursts_drawn [OF assms(1) _ assms(6)] by simp
  moreover have "?rate = session_rate qps turns" using assms(3) by (auto simp: session_rate_def fdiv_def split: if_splits)
  ultimately show thesis using generate_sessions_drawn [OF assms(1,2,5)] that by metis
qed

end
