(* ===== verification/Priority.thy ===== *)
theory Priority
  imports Prelude
begin

text \<open>
  \<open>src/bench/sim/priority.py\<close>: the numeric retention ranks. On the wire a priority is an
  integer clamped into \<open>[-1, 100]\<close>; the absence of a directive is \<open>None\<close>. The class
  names are aliases for prose, so \<open>class_name\<close> is total and falls back to the number.
\<close>

definition EVICT_FIRST :: int where "EVICT_FIRST = - 1"
definition HIGH :: int where "HIGH = 50"
definition PINNED :: int where "PINNED = 100"
definition MIN_PRIORITY :: int where "MIN_PRIORITY = EVICT_FIRST"
definition MAX_PRIORITY :: int where "MAX_PRIORITY = PINNED"

lemmas priority_defs = EVICT_FIRST_def HIGH_def PINNED_def MIN_PRIORITY_def MAX_PRIORITY_def

text \<open>Python's \<open>str(n)\<close> of an integer\<close>

fun dec_digits :: "nat \<Rightarrow> string" where
  "dec_digits n = (if n < 10 then [char_of (48 + n)]
                   else dec_digits (n div 10) @ [char_of (48 + n mod 10)])"

declare dec_digits.simps [simp del]

definition str_of_int :: "int \<Rightarrow> string" where
  "str_of_int n = (if n < 0 then CHR ''-'' # dec_digits (nat (- n)) else dec_digits (nat n))"

definition CLASS_NAMES :: "(int \<times> string) list" where
  "CLASS_NAMES = [(EVICT_FIRST, ''evict-first''), (HIGH, ''high''), (PINNED, ''pinned'')]"

definition class_name :: "int option \<Rightarrow> string" where
  "class_name priority =
     (case priority of
        None \<Rightarrow> ''normal''
      | Some p \<Rightarrow> (case map_of CLASS_NAMES p of
                    Some name \<Rightarrow> name
                  | None \<Rightarrow> ''priority-'' @ str_of_int p))"

definition clamp_priority :: "int \<Rightarrow> int" where
  "clamp_priority priority = max MIN_PRIORITY (min MAX_PRIORITY priority)"

lemma clamp_priority_bounds: "- 1 \<le> clamp_priority p" "clamp_priority p \<le> 100"
  by (simp_all add: clamp_priority_def priority_defs)

section \<open>Decimal notation determines the integer\<close>

fun dec_value :: "nat \<Rightarrow> string \<Rightarrow> nat" where
  "dec_value acc [] = acc"
| "dec_value acc (c # cs) = dec_value (10 * acc + (of_char c - 48)) cs"

lemma dec_value_append: "dec_value acc (cs @ ds) = dec_value (dec_value acc cs) ds"
  by (induction cs arbitrary: acc) auto

lemma dec_value_digits: "dec_value 0 (dec_digits n) = n"
proof (induction n rule: dec_digits.induct)
  case (1 n)
  show ?case
  proof (cases "n < 10")
    case True
    then show ?thesis by (subst dec_digits.simps) simp
  next
    case False
    have "n mod 10 < 10" by simp
    then have "of_char (char_of (48 + n mod 10) :: char) = (48 + n mod 10 :: nat)" by simp
    with 1 False show ?thesis by (subst dec_digits.simps) (simp add: dec_value_append)
  qed
qed

lemma dec_digits_inj: "dec_digits m = dec_digits n \<Longrightarrow> m = n"
  by (metis dec_value_digits)

lemma dec_digits_chars: "c \<in> set (dec_digits n) \<Longrightarrow> 48 \<le> (of_char c :: nat) \<and> (of_char c :: nat) \<le> 57"
proof (induction n rule: dec_digits.induct)
  case (1 n)
  have "n mod 10 < 10" by simp
  with 1 show ?case by (cases "n < 10") (auto simp: dec_digits.simps [of n])
qed

lemma str_of_int_inj: "str_of_int m = str_of_int n \<Longrightarrow> m = n"
proof -
  have no_minus: "CHR ''-'' # cs \<noteq> dec_digits k" for cs k
  proof
    assume "CHR ''-'' # cs = dec_digits k"
    then have "CHR ''-'' \<in> set (dec_digits k)" by (metis list.set_intros(1))
    then show False using dec_digits_chars by fastforce
  qed
  assume "str_of_int m = str_of_int n"
  then show "m = n"
    using no_minus no_minus [symmetric]
    by (auto simp: str_of_int_def dest!: dec_digits_inj split: if_splits)
qed

section \<open>Properties\<close>

text \<open>An out-of-range directive is clamped to the nearest valid rank and never rejected:
  the result is in the valid range, in-range values are unchanged, and the order of two
  directives is preserved.\<close>

lemma clamp_priority_nearest:
  "MIN_PRIORITY \<le> clamp_priority p \<and> clamp_priority p \<le> MAX_PRIORITY \<and>
   (clamp_priority p = p \<longleftrightarrow> MIN_PRIORITY \<le> p \<and> p \<le> MAX_PRIORITY) \<and>
   \<bar>clamp_priority p - p\<bar> = max 0 (max (MIN_PRIORITY - p) (p - MAX_PRIORITY)) \<and>
   mono clamp_priority"
  by (auto simp: clamp_priority_def priority_defs mono_def)

end
