(* ===== verification/Node.thy ===== *)
theory Node
  imports PyFloat PyDict PySort Blocks Priority
begin

text \<open>
  \<open>src/bench/sim/node.py\<close>: a simulated inference node, which is a capacity-bounded KV
  block cache with retention directives and a single-server queue.

  \<open>_cache\<close>, \<open>_priority\<close> and \<open>_expiry\<close> are dictionaries of the node record; the
  class of the object (\<open>Node\<close> or \<open>BeladyNode\<close>) and the \<open>_future_uses\<close> of the latter
  are its \<open>eviction\<close> field. \<open>_evict_one\<close> and \<open>admit\<close> are template methods: they
  take the overridable \<open>_pick_victim\<close> as an argument, whose contract is the locale
  \<open>victim_policy\<close>. The eviction loop may spin for ever (a negative capacity), so it is a
  \<open>partial_function (option)\<close> whose \<open>None\<close> is "does not return".
\<close>

section \<open>State\<close>

datatype eviction = Priority_LRU | Belady "(int, int list) pydict"

record node =
  node_id :: int
  busy_until :: pyfloat
  cache :: "(int, unit) pydict"
  priority_of :: "(int, int) pydict"
  expiry_of :: "(int, pyfloat) pydict"
  pinned_evictions :: int
  at_index :: int
  cache_capacity :: int
  eviction :: eviction

definition new_node :: "int \<Rightarrow> int \<Rightarrow> node" where
  "new_node nid cache_blocks =
     \<lparr>node_id = nid, busy_until = 0, cache = [], priority_of = [], expiry_of = [],
      pinned_evictions = 0, at_index = 0, cache_capacity = cache_blocks,
      eviction = Priority_LRU\<rparr>"

definition new_belady_node :: "int \<Rightarrow> int \<Rightarrow> (int, int list) pydict \<Rightarrow> node" where
  "new_belady_node nid cache_blocks uses = (new_node nid cache_blocks)\<lparr>eviction := Belady uses\<rparr>"

abbreviation cache_keys :: "node \<Rightarrow> int list" where
  "cache_keys n \<equiv> d_keys (cache n)"

definition matched :: "node \<Rightarrow> int list \<Rightarrow> nat" where
  "matched n req_blocks = matched_prefix req_blocks (d_has (cache n))"

definition wait :: "node \<Rightarrow> pyfloat \<Rightarrow> pyfloat" where
  "wait n now = py_max2 0 (busy_until n - now)"

section \<open>Admission\<close>

definition directive :: "pyfloat \<Rightarrow> pyfloat \<Rightarrow> int option \<Rightarrow> int option \<times> pyfloat" where
  "directive now retain_until priority =
     (case priority of
        None \<Rightarrow> if now < retain_until then (Some HIGH, retain_until) else (None, 0)
      | Some p \<Rightarrow> (Some (clamp_priority p), if now < retain_until then retain_until else PosInf))"

definition insert_block :: "int option \<Rightarrow> pyfloat \<Rightarrow> int \<Rightarrow> node \<Rightarrow> node" where
  "insert_block prio expiry h n =
     n\<lparr>cache := d_touch h () (cache n),
       priority_of := (case prio of None \<Rightarrow> d_pop h (priority_of n)
                                  | Some p \<Rightarrow> d_set h p (priority_of n)),
       expiry_of := (case prio of None \<Rightarrow> d_pop h (expiry_of n)
                                | Some p \<Rightarrow> d_set h expiry (expiry_of n))\<rparr>"

definition insert_blocks :: "int option \<Rightarrow> pyfloat \<Rightarrow> int list \<Rightarrow> node \<Rightarrow> node" where
  "insert_blocks prio expiry blocks n = fold (insert_block prio expiry) blocks n"

definition drop_block :: "int \<Rightarrow> node \<Rightarrow> node" where
  "drop_block h n =
     n\<lparr>cache := d_pop h (cache n), priority_of := d_pop h (priority_of n),
       expiry_of := d_pop h (expiry_of n)\<rparr>"

type_synonym picker = "pyfloat \<Rightarrow> node \<Rightarrow> int option \<times> node"

definition evict_one :: "picker \<Rightarrow> pyfloat \<Rightarrow> node \<Rightarrow> node" where
  "evict_one pick now n =
     (case pick now n of (None, n') \<Rightarrow> n' | (Some victim, n') \<Rightarrow> drop_block victim n')"

partial_function (option) evict_loop :: "picker \<Rightarrow> pyfloat \<Rightarrow> node \<Rightarrow> node option" where
  "evict_loop pick now n =
     (if cache_capacity n < int (length (cache n))
      then evict_loop pick now (evict_one pick now n) else Some n)"

definition enqueue :: "pyfloat \<Rightarrow> pyfloat \<Rightarrow> int \<Rightarrow> node \<Rightarrow> node" where
  "enqueue now service_time idx n =
     n\<lparr>at_index := idx, busy_until := py_max2 now (busy_until n) + service_time\<rparr>"

definition admit_with ::
    "picker \<Rightarrow> pyfloat \<Rightarrow> pyfloat \<Rightarrow> int list \<Rightarrow> pyfloat \<Rightarrow> int \<Rightarrow> int option \<Rightarrow> node \<Rightarrow> node option" where
  "admit_with pick now service_time req_blocks retain_until idx priority n =
     (case directive now retain_until priority of (prio, expiry) \<Rightarrow>
        evict_loop pick now (insert_blocks prio expiry req_blocks (enqueue now service_time idx n)))"

section \<open>Victim selection: the priority evictor\<close>

record scan =
  evict_first :: "int option"
  unmarked :: "int option"
  marked :: "int option"
  marked_key :: "(int \<times> pyfloat) option"

definition empty_scan :: scan where
  "empty_scan = \<lparr>evict_first = None, unmarked = None, marked = None, marked_key = None\<rparr>"

fun key_less :: "int \<times> pyfloat \<Rightarrow> int \<times> pyfloat \<Rightarrow> bool" where
  "key_less (p, e) (q, f) = (p < q \<or> p = q \<and> e < f)"

definition expiry_get :: "node \<Rightarrow> int \<Rightarrow> pyfloat" where
  "expiry_get n h = (case d_get (expiry_of n) h of None \<Rightarrow> 0 | Some e \<Rightarrow> e)"

definition scan_unmarked :: "int \<Rightarrow> scan \<Rightarrow> scan" where
  "scan_unmarked h s = (if unmarked s = None then s\<lparr>unmarked := Some h\<rparr> else s)"

definition scan_block :: "node \<Rightarrow> pyfloat \<Rightarrow> int \<Rightarrow> scan \<Rightarrow> scan" where
  "scan_block n now h s =
     (let expiry = expiry_get n h in
      case d_get (priority_of n) h of
        None \<Rightarrow> scan_unmarked h s
      | Some prio \<Rightarrow>
          if expiry \<le> now then scan_unmarked h s
          else if prio < 0 then (if evict_first s = None then s\<lparr>evict_first := Some h\<rparr> else s)
          else if (case marked_key s of None \<Rightarrow> True | Some k \<Rightarrow> key_less (prio, expiry) k)
          then s\<lparr>marked_key := Some (prio, expiry), marked := Some h\<rparr> else s)"

definition pick_victim :: picker where
  "pick_victim now n =
     (if priority_of n = [] then
        ((case cache_keys n of [] \<Rightarrow> None | h # _ \<Rightarrow> Some h), n)
      else
        let s = fold (scan_block n now) (cache_keys n) empty_scan in
        if evict_first s \<noteq> None then (evict_first s, n)
        else if unmarked s \<noteq> None then (unmarked s, n)
        else if marked s \<noteq> None then (marked s, n\<lparr>pinned_evictions := pinned_evictions n + 1\<rparr>)
        else (None, n))"

section \<open>Victim selection: Belady's MIN\<close>

definition bisect_right :: "int list \<Rightarrow> int \<Rightarrow> nat" where
  "bisect_right a x = bisect_right_loop a x 0 (length a)"

definition next_use :: "(int, int list) pydict \<Rightarrow> node \<Rightarrow> int \<Rightarrow> pyfloat" where
  "next_use future_uses n block_hash =
     (case d_get future_uses block_hash of
        None \<Rightarrow> PosInf
      | Some uses \<Rightarrow>
          let pos = bisect_right uses (at_index n) in
          if length uses \<le> pos then PosInf else rnd (of_int (uses ! pos)))"

fun belady_scan ::
    "(int, int list) pydict \<Rightarrow> node \<Rightarrow> int list \<Rightarrow> int option \<Rightarrow> pyfloat \<Rightarrow> int option" where
  "belady_scan uses n [] victim victim_next = victim"
| "belady_scan uses n (h # hs) victim victim_next =
     (let nu = next_use uses n h in
      if feq nu PosInf then Some h
      else if victim_next < nu then belady_scan uses n hs (Some h) nu
      else belady_scan uses n hs victim victim_next)"

definition pick_victim_belady :: "(int, int list) pydict \<Rightarrow> picker" where
  "pick_victim_belady uses now n = (belady_scan uses n (cache_keys n) None (Fin (- 1)), n)"

section \<open>The method the object's class selects\<close>

definition picker_of :: "eviction \<Rightarrow> picker" where
  "picker_of ev = (case ev of Priority_LRU \<Rightarrow> pick_victim | Belady uses \<Rightarrow> pick_victim_belady uses)"

definition admit ::
    "pyfloat \<Rightarrow> pyfloat \<Rightarrow> int list \<Rightarrow> pyfloat \<Rightarrow> int \<Rightarrow> int option \<Rightarrow> node \<Rightarrow> node option" where
  "admit now service_time req_blocks retain_until idx priority n =
     admit_with (picker_of (eviction n)) now service_time req_blocks retain_until idx priority n"

section \<open>Invariant\<close>

definition side_tables_ok :: "node \<Rightarrow> bool" where
  "side_tables_ok n \<longleftrightarrow>
     d_ok (priority_of n) \<and> d_ok (expiry_of n) \<and>
     set (d_keys (priority_of n)) = set (d_keys (expiry_of n)) \<and>
     set (d_keys (priority_of n)) \<subseteq> set (cache_keys n)"

definition directives_ok :: "node \<Rightarrow> bool" where
  "directives_ok n \<longleftrightarrow>
     list_all (\<lambda>(h, p). MIN_PRIORITY \<le> p \<and> p \<le> MAX_PRIORITY) (priority_of n) \<and>
     list_all (\<lambda>(h, e). e \<noteq> NaN) (expiry_of n)"

definition node_ok :: "node \<Rightarrow> bool" where
  "node_ok n \<longleftrightarrow>
     d_ok (cache n) \<and> side_tables_ok n \<and> directives_ok n \<and>
     is_f64 (busy_until n) \<and> busy_until n \<noteq> NaN \<and> 0 \<le> pinned_evictions n"

lemma new_node_ok [simp]: "node_ok (new_node nid cap)"
  by (simp add: node_ok_def new_node_def side_tables_ok_def directives_ok_def zero_pyfloat_def)

lemma new_belady_node_ok [simp]: "node_ok (new_belady_node nid cap uses)"
  by (simp add: node_ok_def new_belady_node_def new_node_def side_tables_ok_def directives_ok_def
      zero_pyfloat_def)

lemma directives_okD:
  "directives_ok n \<Longrightarrow> d_get (expiry_of n) h = Some e \<Longrightarrow> e \<noteq> NaN"
  "directives_ok n \<Longrightarrow> d_get (priority_of n) h = Some p \<Longrightarrow> MIN_PRIORITY \<le> p \<and> p \<le> MAX_PRIORITY"
  by (auto simp: directives_ok_def list_all_iff d_get_def dest!: map_of_SomeD)

subsection \<open>Insertion\<close>

lemma insert_block_frame [simp]:
  "node_id (insert_block prio e h n) = node_id n"
  "busy_until (insert_block prio e h n) = busy_until n"
  "pinned_evictions (insert_block prio e h n) = pinned_evictions n"
  "at_index (insert_block prio e h n) = at_index n"
  "cache_capacity (insert_block prio e h n) = cache_capacity n"
  "eviction (insert_block prio e h n) = eviction n"
  by (simp_all add: insert_block_def)

lemma insert_blocks_frame [simp]:
  "node_id (insert_blocks prio e bs n) = node_id n"
  "busy_until (insert_blocks prio e bs n) = busy_until n"
  "pinned_evictions (insert_blocks prio e bs n) = pinned_evictions n"
  "at_index (insert_blocks prio e bs n) = at_index n"
  "cache_capacity (insert_blocks prio e bs n) = cache_capacity n"
  "eviction (insert_blocks prio e bs n) = eviction n"
  unfolding insert_blocks_def by (induction bs arbitrary: n) simp_all

lemma insert_block_ok:
  assumes "node_ok n" and "case prio of None \<Rightarrow> True | Some p \<Rightarrow> MIN_PRIORITY \<le> p \<and> p \<le> MAX_PRIORITY \<and> e \<noteq> NaN"
  shows "node_ok (insert_block prio e h n)"
  using assms
  by (cases prio)
    (auto simp: node_ok_def side_tables_ok_def directives_ok_def insert_block_def dict_simps
      intro!: list_all_d_set list_all_d_pop)

lemma insert_blocks_ok:
  assumes "node_ok n" and "case prio of None \<Rightarrow> True | Some p \<Rightarrow> MIN_PRIORITY \<le> p \<and> p \<le> MAX_PRIORITY \<and> e \<noteq> NaN"
  shows "node_ok (insert_blocks prio e bs n)"
  using assms(1) unfolding insert_blocks_def
  by (induction bs arbitrary: n) (simp_all add: insert_block_ok assms(2))

lemma directive_ok:
  "directive now r p = (prio, e) \<Longrightarrow>
   case prio of None \<Rightarrow> True | Some q \<Rightarrow> MIN_PRIORITY \<le> q \<and> q \<le> MAX_PRIORITY \<and> e \<noteq> NaN"
  using clamp_priority_bounds
  by (cases r; cases now) (auto simp: directive_def priority_defs split: option.splits if_splits)

text \<open>Insertion moves the request's blocks to the newest end, in order of last occurrence.\<close>

lemma cache_keys_insert_blocks:
  "cache_keys (insert_blocks prio e bs n) =
     filter (\<lambda>k. k \<notin> set bs) (cache_keys n) @ remdups bs"
proof (induction bs arbitrary: n)
  case Nil
  then show ?case by (simp add: insert_blocks_def)
next
  case (Cons b bs)
  have "cache_keys (insert_blocks prio e (b # bs) n) =
      cache_keys (insert_blocks prio e bs (insert_block prio e b n))"
    by (simp add: insert_blocks_def)
  also have "\<dots> = filter (\<lambda>k. k \<notin> set bs) (cache_keys (insert_block prio e b n)) @ remdups bs"
    by (rule Cons.IH)
  also have "\<dots> = filter (\<lambda>k. k \<notin> set (b # bs)) (cache_keys n) @ remdups (b # bs)"
    by (auto simp: insert_block_def d_keys_touch intro: filter_cong)
  finally show ?case .
qed

lemma d_get_insert_blocks:
  "d_get (priority_of (insert_blocks prio e bs n)) h =
     (if h \<in> set bs then prio else d_get (priority_of n) h)"
  "d_get (expiry_of (insert_blocks prio e bs n)) h =
     (if h \<in> set bs then map_option (\<lambda>_. e) prio else d_get (expiry_of n) h)"
  unfolding insert_blocks_def
  by (induction bs arbitrary: n) (auto simp: insert_block_def dict_simps split: option.splits)

subsection \<open>Removal\<close>

text \<open>
  \<open>shrunk n n'\<close>: \<open>n'\<close> is \<open>n\<close> after evictions. The queue, the identity and the capacity
  are untouched, the surviving blocks keep their order and their directives.
\<close>

definition shrunk :: "node \<Rightarrow> node \<Rightarrow> bool" where
  "shrunk n n' \<longleftrightarrow>
     node_id n' = node_id n \<and> busy_until n' = busy_until n \<and> at_index n' = at_index n \<and>
     cache_capacity n' = cache_capacity n \<and> eviction n' = eviction n \<and>
     pinned_evictions n \<le> pinned_evictions n' \<and>
     subseq (cache_keys n') (cache_keys n) \<and>
     (\<forall>h \<in> set (cache_keys n').
        d_get (priority_of n') h = d_get (priority_of n) h \<and>
        d_get (expiry_of n') h = d_get (expiry_of n) h)"

lemma shrunk_refl [simp]: "shrunk n n"
  by (simp add: shrunk_def)

lemma set_subseq: "subseq xs ys \<Longrightarrow> set xs \<subseteq> set ys"
  by (induction rule: list_emb.induct) auto

lemma shrunk_keys: "shrunk n n' \<Longrightarrow> set (cache_keys n') \<subseteq> set (cache_keys n)"
  unfolding shrunk_def by (blast dest: set_subseq)

lemma shrunk_trans:
  assumes "shrunk n n'" and "shrunk n' n''"
  shows "shrunk n n''"
proof -
  have "subseq (cache_keys n'') (cache_keys n)"
    using assms subseq_order.trans unfolding shrunk_def by blast
  then show ?thesis
    using assms shrunk_keys [OF assms(2)] unfolding shrunk_def by (auto simp: subset_iff)
qed

lemma drop_block_ok: "node_ok n \<Longrightarrow> 0 \<le> k \<Longrightarrow> node_ok (drop_block h (n\<lparr>pinned_evictions := k\<rparr>))"
  by (auto simp: node_ok_def side_tables_ok_def directives_ok_def drop_block_def dict_simps
      intro!: list_all_d_pop)

lemma drop_block_shrunk:
  "pinned_evictions n \<le> k \<Longrightarrow> shrunk n (drop_block h (n\<lparr>pinned_evictions := k\<rparr>))"
  by (auto simp: shrunk_def drop_block_def dict_simps)

lemma length_d_pop: "d_ok d \<Longrightarrow> k \<in> set (d_keys d) \<Longrightarrow> length d = Suc (length (d_pop k d))"
proof (induction d)
  case (Cons x d)
  show ?case
  proof (cases "fst x = k")
    case True
    with Cons.prems have "d_pop k d = d" by (simp add: d_ok_def d_get_None_pop dict_simps)
    with True show ?thesis by (simp add: d_pop_def AList.delete_eq case_prod_unfold)
  next
    case False
    with Cons show ?thesis by (simp add: d_ok_def d_pop_def AList.delete_eq case_prod_unfold)
  qed
qed simp

section \<open>The contract of a victim policy\<close>

locale victim_policy =
  fixes pick :: picker and ok :: bool
  assumes pick_returns:
      "ok \<Longrightarrow> cache n \<noteq> [] \<Longrightarrow> \<exists>v \<in> set (cache_keys n). fst (pick now n) = Some v"
    and pick_frame:
      "\<exists>k \<ge> pinned_evictions n. snd (pick now n) = n\<lparr>pinned_evictions := k\<rparr>"
begin

lemma evict_one_cases:
  assumes ok and "cache n \<noteq> []"
  obtains v k where "v \<in> set (cache_keys n)" "pinned_evictions n \<le> k"
    "evict_one pick now n = drop_block v (n\<lparr>pinned_evictions := k\<rparr>)"
proof -
  obtain v k where "v \<in> set (cache_keys n)" "pick now n = (Some v, n\<lparr>pinned_evictions := k\<rparr>)"
      "pinned_evictions n \<le> k"
    using pick_returns [OF assms, of now] pick_frame [of n now] by (metis prod.collapse)
  then show thesis using that by (simp add: evict_one_def)
qed

lemma evict_one_capacity: "cache_capacity (evict_one pick now n) = cache_capacity n"
proof -
  obtain k where "snd (pick now n) = n\<lparr>pinned_evictions := k\<rparr>" using pick_frame by blast
  then show ?thesis
    by (cases "pick now n") (auto simp: evict_one_def drop_block_def split: option.splits)
qed

lemma evict_loop_bounded:
  assumes "evict_loop pick now n = Some r"
  shows "cache_capacity r = cache_capacity n \<and> int (length (cache r)) \<le> cache_capacity r"
proof (rule evict_loop.raw_induct
    [where P = "\<lambda>p t m r. p = pick \<longrightarrow> cache_capacity r = cache_capacity m \<and>
      int (length (cache r)) \<le> cache_capacity r", OF _ assms, THEN mp])
  fix f :: "picker \<Rightarrow> pyfloat \<Rightarrow> node \<Rightarrow> node option" and p :: picker and t :: pyfloat and m r :: node
  assume IH: "\<And>p t m r. f p t m = Some r \<Longrightarrow> p = pick \<longrightarrow> cache_capacity r = cache_capacity m \<and>
      int (length (cache r)) \<le> cache_capacity r"
    and eq: "(if cache_capacity m < int (length (cache m)) then f p t (evict_one p t m)
        else Some m) = Some r"
  show "p = pick \<longrightarrow> cache_capacity r = cache_capacity m \<and> int (length (cache r)) \<le> cache_capacity r"
    using IH [of p t "evict_one p t m" r] eq evict_one_capacity by (auto split: if_splits)
qed simp

lemma evict_loop_diverges: "cache_capacity n < 0 \<Longrightarrow> evict_loop pick now n = None"
  using evict_loop_bounded [of now n] by (cases "evict_loop pick now n") fastforce+

lemma evict_loop_spec:
  assumes ok and "node_ok n" and "0 \<le> cache_capacity n"
  shows "\<exists>n'. evict_loop pick now n = Some n' \<and> node_ok n' \<and> shrunk n n' \<and>
    length (cache n') = min (length (cache n)) (nat (cache_capacity n))"
  using assms(2,3)
proof (induction "length (cache n)" arbitrary: n rule: less_induct)
  case less
  show ?case
  proof (cases "cache_capacity n < int (length (cache n))")
    case False
    then have "length (cache n) \<le> nat (cache_capacity n)" by simp
    with less.prems False show ?thesis by (simp add: evict_loop.simps min_def)
  next
    case True
    then have "cache n \<noteq> []" using less.prems by auto
    then obtain v k where v: "v \<in> set (cache_keys n)" "pinned_evictions n \<le> k"
        "evict_one pick now n = drop_block v (n\<lparr>pinned_evictions := k\<rparr>)"
      by (rule evict_one_cases [OF assms(1)])
    let ?m = "evict_one pick now n"
    have len: "length (cache n) = Suc (length (cache ?m))"
      using less.prems(1) v length_d_pop by (auto simp: node_ok_def drop_block_def)
    have "0 \<le> k" using less.prems(1) v(2) by (simp add: node_ok_def)
    then have m: "node_ok ?m" "shrunk n ?m"
      using v less.prems(1) by (simp_all only: drop_block_ok drop_block_shrunk)
    moreover have cap: "cache_capacity ?m = cache_capacity n" by (rule evict_one_capacity)
    ultimately obtain n' where "evict_loop pick now ?m = Some n'" "node_ok n'" "shrunk ?m n'"
        "length (cache n') = min (length (cache ?m)) (nat (cache_capacity n))"
      using less.hyps [of ?m] len less.prems(2) by auto
    with True m cap len show ?thesis
      by (subst evict_loop.simps) (auto intro: shrunk_trans)
  qed
qed

end

end
