(* ===== verification/Eviction.thy ===== *)
theory Eviction
  imports Node
begin

text \<open>
  The two victim policies of \<open>src/bench/sim/node.py\<close> against their specifications, and
  what admission does to a cache under them.

  \<open>rank_of\<close> is the effective rank of RFC-0001 section 3 (evict-first below unmarked below
  marked, priority ascending then soonest expiry, an expired mark collapsing to unmarked).
  The single oldest-first scan of \<open>pick_victim\<close>, its three buckets and its short cut for
  a cache without directives are proved to be the minimum of the effective rank with ties
  going to the least recently used block. The priority evictor and Belady's are the two
  interpretations of \<open>victim_policy\<close>.
\<close>

section \<open>Effective rank\<close>

datatype rank = Evict_first | Unmarked | Marked int pyfloat

instantiation rank :: ord
begin

fun less_rank :: "rank \<Rightarrow> rank \<Rightarrow> bool" where
  "less_rank Evict_first r = (r \<noteq> Evict_first)"
| "less_rank Unmarked (Marked p e) = True"
| "less_rank Unmarked r = False"
| "less_rank (Marked p e) (Marked q f) = key_less (p, e) (q, f)"
| "less_rank (Marked p e) r = False"

definition less_eq_rank :: "rank \<Rightarrow> rank \<Rightarrow> bool" where
  "less_eq_rank r s \<longleftrightarrow> r < s \<or> r = s"

instance ..

end

definition rank_of :: "node \<Rightarrow> pyfloat \<Rightarrow> int \<Rightarrow> rank" where
  "rank_of n now h =
     (case d_get (priority_of n) h of
        None \<Rightarrow> Unmarked
      | Some p \<Rightarrow> if expiry_get n h \<le> now then Unmarked
                  else if p < 0 then Evict_first else Marked p (expiry_get n h))"

fun is_marked :: "rank \<Rightarrow> bool" where
  "is_marked (Marked p e) = True"
| "is_marked r = False"

text \<open>The blocks whose eviction would be a pinned-pressure eviction\<close>

definition pinned_in :: "node \<Rightarrow> pyfloat \<Rightarrow> int \<Rightarrow> bool" where
  "pinned_in n now h \<longleftrightarrow> is_marked (rank_of n now h)"

lemma key_less_trans: "key_less a b \<Longrightarrow> key_less b c \<Longrightarrow> key_less a c"
  by (cases a; cases b; cases c) (auto intro: flt_trans)

lemma key_not_less_trans:
  "snd a \<noteq> NaN \<Longrightarrow> snd b \<noteq> NaN \<Longrightarrow> snd c \<noteq> NaN \<Longrightarrow> \<not> key_less a b \<Longrightarrow> \<not> key_less b c \<Longrightarrow>
   \<not> key_less a c"
  by (cases a; cases b; cases c) (auto simp: fnot_less intro: fle_trans)

definition rank_num :: "rank \<Rightarrow> bool" where
  "rank_num r \<longleftrightarrow> (case r of Marked p e \<Rightarrow> e \<noteq> NaN | _ \<Rightarrow> True)"

lemma rank_weak_order:
  assumes "\<And>x. x \<in> S \<Longrightarrow> rank_num (f x)"
  shows "weak_order_on S (\<lambda>x y. f x < (f y :: rank))"
proof (rule weak_order_onI)
  show "\<not> f x < f x" for x by (cases "f x") auto
  show "f x < f z" if "f x < f y" "f y < f z" for x y z
    using that by (cases "f x"; cases "f y"; cases "f z") (auto intro: flt_trans)
  show "\<not> f x < f z" if "x \<in> S" "y \<in> S" "z \<in> S" "\<not> f x < f y" "\<not> f y < f z" for x y z
    using that assms [of x] assms [of y] assms [of z]
    by (cases "f x"; cases "f y"; cases "f z")
      (auto simp: rank_num_def fnot_less dest: fle_trans)
qed

lemma rank_of_num: "node_ok n \<Longrightarrow> rank_num (rank_of n now h)"
  by (auto simp: rank_of_def rank_num_def expiry_get_def node_ok_def zero_pyfloat_def
      dest: directives_okD split: option.splits)

section \<open>The scan computes the minimum of the rank\<close>

definition scan_state :: "node \<Rightarrow> pyfloat \<Rightarrow> int \<Rightarrow> scan \<Rightarrow> bool" where
  "scan_state n now b s \<longleftrightarrow>
     (case rank_of n now b of
        Evict_first \<Rightarrow> evict_first s = Some b
      | Unmarked \<Rightarrow> evict_first s = None \<and> unmarked s = Some b
      | Marked p e \<Rightarrow> evict_first s = None \<and> unmarked s = None \<and> marked s = Some b \<and>
                      marked_key s = Some (p, e))"

lemma scan_state_start: "scan_state n now h (scan_block n now h empty_scan)"
  by (auto simp: scan_state_def scan_block_def empty_scan_def scan_unmarked_def rank_of_def Let_def
      split: option.splits)

lemma scan_state_step:
  "scan_state n now b s \<Longrightarrow>
   scan_state n now (if rank_of n now h < rank_of n now b then h else b) (scan_block n now h s)"
  by (cases "rank_of n now b"; cases "rank_of n now h")
    (auto simp: scan_state_def scan_block_def scan_unmarked_def rank_of_def Let_def
      split: option.splits if_splits)

lemma scan_state_fold:
  "scan_state n now b s \<Longrightarrow>
   scan_state n now (select_from (\<lambda>x y. rank_of n now x < rank_of n now y) b hs)
     (fold (scan_block n now) hs s)"
proof (induction hs arbitrary: b s)
  case (Cons h hs)
  from Cons.IH [OF scan_state_step [OF Cons.prems, of h]] show ?case by simp
qed simp

lemma select_from_const: "(\<And>x y. \<not> lt x y) \<Longrightarrow> select_from lt b xs = b"
  by (induction xs) auto

lemma pick_victim_select:
  assumes "cache_keys n = h # hs"
  shows "pick_victim now n =
    (let v = select_from (\<lambda>x y. rank_of n now x < rank_of n now y) h hs in
     (Some v, n\<lparr>pinned_evictions := pinned_evictions n + (if pinned_in n now v then 1 else 0)\<rparr>))"
proof (cases "priority_of n = []")
  case True
  then have r: "rank_of n now x = Unmarked" for x by (simp add: rank_of_def)
  show ?thesis using True assms by (simp add: pick_victim_def pinned_in_def r select_from_const)
next
  case False
  let ?v = "select_from (\<lambda>x y. rank_of n now x < rank_of n now y) h hs"
  have "scan_state n now ?v (fold (scan_block n now) (h # hs) empty_scan)"
    using scan_state_fold [OF scan_state_start] by simp
  then show ?thesis
    using False assms
    by (cases "rank_of n now ?v") (auto simp: pick_victim_def pinned_in_def scan_state_def Let_def)
qed

lemma pick_victim_empty: "cache n = [] \<Longrightarrow> pick_victim now n = (None, n)"
  by (simp add: pick_victim_def empty_scan_def)

interpretation prio: victim_policy pick_victim True
proof unfold_locales
  fix n :: node and now
  show "\<exists>v \<in> set (cache_keys n). fst (pick_victim now n) = Some v" if ne: "cache n \<noteq> []"
  proof -
    obtain h hs where k: "cache_keys n = h # hs"
      using ne by (cases "cache_keys n") auto
    with select_from_mem show ?thesis by (fastforce simp: pick_victim_select [OF k] Let_def)
  qed
  show "\<exists>k \<ge> pinned_evictions n. snd (pick_victim now n) = n\<lparr>pinned_evictions := k\<rparr>"
    by (auto simp: pick_victim_def Let_def intro: exI [of _ "pinned_evictions n"]
        exI [of _ "pinned_evictions n + 1"])
qed

section \<open>Belady's MIN\<close>

definition uses_ok :: "(int, int list) pydict \<Rightarrow> bool" where
  "uses_ok uses \<longleftrightarrow> list_all (\<lambda>(h, us). sorted us \<and> list_all (\<lambda>i. 0 \<le> i) us) uses"

definition eviction_ok :: "eviction \<Rightarrow> bool" where
  "eviction_ok ev = (case ev of Priority_LRU \<Rightarrow> True | Belady uses \<Rightarrow> uses_ok uses)"

lemma bisect_right_loop_sorted:
  assumes "sorted a" and "hi \<le> length a" and "lo \<le> hi"
    and "\<forall>i < lo. a ! i \<le> x" and "\<forall>i < length a. hi \<le> i \<longrightarrow> x < a ! i"
  shows "(\<forall>i < bisect_right_loop a x lo hi. a ! i \<le> x) \<and>
    (\<forall>i < length a. bisect_right_loop a x lo hi \<le> i \<longrightarrow> x < a ! i)"
  using assms
proof (induction a x lo hi rule: bisect_right_loop.induct)
  case (1 a x lo hi)
  let ?m = "(lo + hi) div 2"
  show ?case
  proof (cases "lo < hi")
    case False
    with "1.prems" show ?thesis by (simp add: bisect_right_loop_stop)
  next
    case True
    then have m: "lo \<le> ?m" "?m < hi" by auto
    show ?thesis
    proof (cases "x < a ! ?m")
      case less: True
      have "\<forall>i < length a. ?m \<le> i \<longrightarrow> x < a ! i"
        using less "1.prems"(1) sorted_nth_mono [of a ?m] by fastforce
      with "1.IH"(1) [OF True refl less] "1.prems" m show ?thesis
        by (simp add: bisect_right_loop.simps [of a x lo hi] Let_def True less)
    next
      case ge: False
      have "a ! i \<le> a ! ?m" if "i \<le> ?m" for i
        using "1.prems"(1,2) m that by (intro sorted_nth_mono) simp_all
      then have "a ! i \<le> x" if "i < ?m + 1" for i
        using ge that order_trans [of "a ! i" "a ! ?m" x] by simp
      with "1.IH"(2) [OF True refl ge] "1.prems" m show ?thesis
        by (simp add: bisect_right_loop.simps [of a x lo hi] Let_def True ge)
    qed
  qed
qed

text \<open>On a sorted list, \<open>bisect_right\<close> is the number of elements that are at most \<open>x\<close>.\<close>

lemma bisect_right_spec:
  assumes "sorted a"
  shows "bisect_right a x \<le> length a"
    and "i < bisect_right a x \<Longrightarrow> a ! i \<le> x"
    and "i < length a \<Longrightarrow> bisect_right a x \<le> i \<Longrightarrow> x < a ! i"
  using bisect_right_loop_sorted [OF assms, of "length a" 0 x]
    bisect_right_loop_bounds [of 0 "length a" a x]
  by (simp_all add: bisect_right_def)

lemma rnd_ge_0: "0 \<le> i \<Longrightarrow> Fin (- 1) < rnd (of_int i)"
proof -
  assume "0 \<le> i"
  then have "Fin 0 \<le> rnd (of_int i)" by (intro rnd_nonneg) simp
  then show ?thesis by (rule fless_le_trans [rotated]) simp
qed

lemma next_use_bounds:
  assumes "uses_ok uses"
  shows "Fin (- 1) < next_use uses n h"
proof (cases "d_get uses h")
  case None
  then show ?thesis by (simp add: next_use_def)
next
  case (Some us)
  then have "list_all (\<lambda>i. 0 \<le> i) us"
    using assms map_of_SomeD [of uses h us] by (fastforce simp: uses_ok_def list_all_iff d_get_def)
  then show ?thesis using Some by (auto simp: next_use_def Let_def list_all_length intro: rnd_ge_0)
qed

lemma belady_scan_spec:
  assumes "\<And>h. h \<in> set hs \<Longrightarrow> Fin (- 1) < next_use uses n h"
    and "case v of None \<Rightarrow> hs \<noteq> [] \<and> vn = Fin (- 1) | Some b \<Rightarrow> vn = next_use uses n b \<and> vn \<noteq> NaN"
  shows "\<exists>b \<in> set hs \<union> set_option v. belady_scan uses n hs v vn = Some b \<and>
    (\<forall>h \<in> set hs. next_use uses n h \<le> next_use uses n b) \<and> vn \<le> next_use uses n b"
  using assms
proof (induction hs arbitrary: v vn)
  case Nil
  then show ?case by (auto split: option.splits)
next
  case (Cons h hs)
  let ?nu = "next_use uses n h"
  have nu: "Fin (- 1) < ?nu" using Cons.prems(1) by simp
  then have nan: "?nu \<noteq> NaN" by (cases ?nu) auto
  have vn: "vn \<noteq> NaN" using Cons.prems(2) by (auto split: option.splits)
  have others: "next_use uses n g \<noteq> NaN" if "g \<in> set (h # hs)" for g
    using Cons.prems(1) [OF that] by (cases "next_use uses n g") auto
  consider "feq ?nu PosInf" | "\<not> feq ?nu PosInf" "vn < ?nu" | "\<not> feq ?nu PosInf" "\<not> vn < ?nu"
    by blast
  then show ?case
  proof cases
    case 1
    then have inf: "?nu = PosInf" by (simp add: feq_def)
    have top: "f \<noteq> NaN \<Longrightarrow> f \<le> PosInf" for f by (cases f) auto
    show ?thesis using 1 top [OF vn] top [OF others] by (auto simp: inf Let_def)
  next
    case 2
    then obtain b where b: "b \<in> set hs \<union> {h}" "belady_scan uses n hs (Some h) ?nu = Some b"
        "\<forall>g \<in> set hs. next_use uses n g \<le> next_use uses n b" "?nu \<le> next_use uses n b"
      using Cons.IH [where v = "Some h" and vn = ?nu] Cons.prems(1) nan by auto
    with 2 show ?thesis by (auto simp: Let_def intro: fle_trans [OF flt_le])
  next
    case 3
    then have le: "?nu \<le> vn" using vn nan by (simp add: fnot_less)
    then have "v \<noteq> None" using Cons.prems(2) nu 3(2) by (auto split: option.splits)
    then have "\<exists>b \<in> set hs \<union> set_option v. belady_scan uses n hs v vn = Some b \<and>
        (\<forall>g \<in> set hs. next_use uses n g \<le> next_use uses n b) \<and> vn \<le> next_use uses n b"
      using Cons.prems by (intro Cons.IH) auto
    with 3 le show ?thesis by (auto simp: Let_def intro: fle_trans)
  qed
qed

lemma pick_victim_belady_spec:
  assumes "uses_ok uses" and "cache n \<noteq> []"
  shows "\<exists>v \<in> set (cache_keys n). pick_victim_belady uses now n = (Some v, n) \<and>
    (\<forall>h \<in> set (cache_keys n). next_use uses n h \<le> next_use uses n v)"
proof -
  have "cache_keys n \<noteq> []" using assms(2) by (simp add: d_keys_def)
  then have "\<exists>b \<in> set (cache_keys n) \<union> set_option None.
      belady_scan uses n (cache_keys n) None (Fin (- 1)) = Some b \<and>
      (\<forall>h \<in> set (cache_keys n). next_use uses n h \<le> next_use uses n b) \<and>
      Fin (- 1) \<le> next_use uses n b"
    by (intro belady_scan_spec next_use_bounds [OF assms(1)]) simp
  then show ?thesis by (auto simp: pick_victim_belady_def)
qed

interpretation belady: victim_policy "pick_victim_belady uses" "uses_ok uses" for uses
proof unfold_locales
  fix n :: node and now
  show "\<exists>v \<in> set (cache_keys n). fst (pick_victim_belady uses now n) = Some v"
    if "uses_ok uses" "cache n \<noteq> []"
    using pick_victim_belady_spec [OF that, of now] by fastforce
  show "\<exists>k \<ge> pinned_evictions n. snd (pick_victim_belady uses now n) = n\<lparr>pinned_evictions := k\<rparr>"
    by (auto simp: pick_victim_belady_def intro: exI [of _ "pinned_evictions n"])
qed

interpretation picker: victim_policy "picker_of ev" "eviction_ok ev" for ev
proof (cases ev)
  case Priority_LRU
  then show "victim_policy (picker_of ev) (eviction_ok ev)"
    using prio.victim_policy_axioms by (simp add: picker_of_def eviction_ok_def)
next
  case (Belady uses)
  then show "victim_policy (picker_of ev) (eviction_ok ev)"
    using belady.victim_policy_axioms by (simp add: picker_of_def eviction_ok_def)
qed

end
