(* ===== verification/Admission.thy ===== *)
theory Admission
  imports Eviction
begin

text \<open>
  What \<open>Node.admit\<close> of \<open>src/bench/sim/node.py\<close> does to a node: it returns exactly when
  the capacity is not negative, keeps the invariant of the node, bounds the cache, serves the
  queue in FIFO order, overwrites the directives of the request's blocks, and evicts the
  blocks of lowest effective rank (or, on a Belady node, of furthest next use).
\<close>

text \<open>The node between insertion and eviction\<close>

definition staged ::
    "pyfloat \<Rightarrow> pyfloat \<Rightarrow> int list \<Rightarrow> pyfloat \<Rightarrow> int \<Rightarrow> int option \<Rightarrow> node \<Rightarrow> node" where
  "staged now service_time req_blocks retain_until idx priority n =
     (case directive now retain_until priority of (prio, expiry) \<Rightarrow>
        insert_blocks prio expiry req_blocks (enqueue now service_time idx n))"

lemma admit_eq:
  "admit now service_time req_blocks retain_until idx priority n =
     evict_loop (picker_of (eviction n)) now
       (staged now service_time req_blocks retain_until idx priority n)"
  by (simp add: admit_def admit_with_def staged_def split: prod.split)

lemma staged_frame [simp]:
  "node_id (staged now s bs r i p n) = node_id n"
  "busy_until (staged now s bs r i p n) = py_max2 now (busy_until n) + s"
  "pinned_evictions (staged now s bs r i p n) = pinned_evictions n"
  "at_index (staged now s bs r i p n) = i"
  "cache_capacity (staged now s bs r i p n) = cache_capacity n"
  "eviction (staged now s bs r i p n) = eviction n"
  by (simp_all add: staged_def enqueue_def split: prod.split)

lemma cache_keys_staged [simp]:
  "cache_keys (staged now s bs r i p n) = filter (\<lambda>k. k \<notin> set bs) (cache_keys n) @ remdups bs"
  by (simp add: staged_def enqueue_def cache_keys_insert_blocks split: prod.split)

lemma d_get_staged:
  "d_get (priority_of (staged now s bs r i p n)) h =
     (if h \<in> set bs then fst (directive now r p) else d_get (priority_of n) h)"
  "d_get (expiry_of (staged now s bs r i p n)) h =
     (if h \<in> set bs then map_option (\<lambda>_. snd (directive now r p)) (fst (directive now r p))
      else d_get (expiry_of n) h)"
  by (simp_all add: staged_def enqueue_def d_get_insert_blocks split: prod.split)

text \<open>A request's timing: it arrives at a finite time and takes a nonnegative time to serve.\<close>

definition timing_ok :: "pyfloat \<Rightarrow> pyfloat \<Rightarrow> bool" where
  "timing_ok now service_time \<longleftrightarrow>
     (case now of Fin _ \<Rightarrow> is_f64 now | _ \<Rightarrow> False) \<and> 0 \<le> service_time"

lemma timing_okE:
  assumes "timing_ok now s"
  obtains q where "now = Fin q" "is_f64 now" "0 \<le> s"
  using assms by (auto simp: timing_ok_def split: pyfloat.splits)

lemma enqueue_times:
  assumes "timing_ok now s" and "is_f64 b" and "b \<noteq> NaN"
  shows "now \<le> py_max2 now b + s" "b \<le> py_max2 now b + s"
proof -
  obtain q where q: "now = Fin q" "is_f64 now" "0 \<le> s" using assms(1) by (rule timing_okE)
  let ?m = "py_max2 now b"
  have m: "now \<le> ?m" "b \<le> ?m" "is_f64 ?m"
    using q assms(2,3) by (auto intro: max2_ge1 max2_ge2 is_f64_max2)
  have pos: "?m \<noteq> NegInf" using m(1) q(1) by (cases ?m) auto
  then have "?m + s \<noteq> NaN" "?m + 0 \<noteq> NaN"
    using m(1,3) q by (cases ?m; cases s; auto simp: zero_pyfloat_def)+
  then have "?m + 0 \<le> ?m + s" using q(3) m(1) by (intro fadd_mono) (auto dest: fle_not_NaN)
  then have "?m \<le> ?m + s" using m(3) by (simp add: fadd_0)
  then show "now \<le> ?m + s" "b \<le> ?m + s" using m(1,2) fle_trans by blast+
qed

lemma staged_ok:
  assumes "node_ok n" and "timing_ok now s"
  shows "node_ok (staged now s bs r i p n)"
proof -
  have "py_max2 now (busy_until n) + s \<noteq> NaN"
    using enqueue_times(1) [OF assms(2)] assms(1) by (auto simp: node_ok_def dest: fle_not_NaN)
  then have "node_ok (enqueue now s i n)"
    using assms(1) by (auto simp: node_ok_def enqueue_def side_tables_ok_def directives_ok_def)
  then show ?thesis
    by (auto simp: staged_def intro: insert_blocks_ok directive_ok split: prod.split)
qed

lemma admit_spec:
  assumes "node_ok n" "eviction_ok (eviction n)" "timing_ok now s" "0 \<le> cache_capacity n"
  shows "\<exists>n'. admit now s bs r i p n = Some n' \<and> node_ok n' \<and>
    shrunk (staged now s bs r i p n) n' \<and>
    length (cache n') = min (length (cache_keys (staged now s bs r i p n))) (nat (cache_capacity n))"
  unfolding admit_eq
  using picker.evict_loop_spec
    [OF assms(2) staged_ok [OF assms(1,3), where bs = bs and r = r and i = i and p = p], where now = now]
    assms(4)
  by (simp del: cache_keys_staged)

lemma admit_Some_iff:
  assumes "node_ok n" "eviction_ok (eviction n)" "timing_ok now s"
  shows "(\<exists>n'. admit now s bs r i p n = Some n') \<longleftrightarrow> 0 \<le> cache_capacity n"
proof (cases "0 \<le> cache_capacity n")
  case True
  then show ?thesis using admit_spec [OF assms True, of bs r i p] by blast
next
  case False
  then show ?thesis
    using picker.evict_loop_diverges [of "staged now s bs r i p n"] by (simp add: admit_eq)
qed

lemma admit_SomeD:
  assumes "node_ok n" "eviction_ok (eviction n)" "timing_ok now s"
    and "admit now s bs r i p n = Some n'"
  shows "node_ok n'" "shrunk (staged now s bs r i p n) n'"
    "0 \<le> cache_capacity n"
    "length (cache n') = min (length (cache_keys (staged now s bs r i p n))) (nat (cache_capacity n))"
proof -
  show cap: "0 \<le> cache_capacity n" using admit_Some_iff [OF assms(1-3)] assms(4) by blast
  show "node_ok n'" "shrunk (staged now s bs r i p n) n'"
    "length (cache n') = min (length (cache_keys (staged now s bs r i p n))) (nat (cache_capacity n))"
    using admit_spec [OF assms(1-3) cap, of bs r i p] assms(4) by auto
qed

section \<open>Which blocks the priority evictor keeps\<close>

text \<open>\<open>h\<close> goes before \<open>k\<close>: lower effective rank, or equal rank and less recently used.\<close>

definition goes_before :: "node \<Rightarrow> pyfloat \<Rightarrow> int \<Rightarrow> int \<Rightarrow> bool" where
  "goes_before n now h k \<longleftrightarrow>
     rank_of n now h < rank_of n now k \<or>
     \<not> rank_of n now k < rank_of n now h \<and> before (cache_keys n) h k"

definition evicted :: "node \<Rightarrow> node \<Rightarrow> int set" where
  "evicted n n' = set (cache_keys n) - set (cache_keys n')"

lemma rank_of_shrunk:
  assumes sh: "shrunk n n'" and h: "h \<in> set (cache_keys n')"
  shows "rank_of n' now h = rank_of n now h"
proof -
  have "d_get (priority_of n') h = d_get (priority_of n) h" "d_get (expiry_of n') h = d_get (expiry_of n) h"
    using sh h unfolding shrunk_def by blast+
  then show ?thesis by (simp only: rank_of_def expiry_get_def)
qed

lemma select_pick_beats:
  assumes "node_ok n" "cache_keys n = b # bs" "k \<in> set (cache_keys n)"
    "k \<noteq> select_from (\<lambda>x y. rank_of n now x < rank_of n now y) b bs"
  shows "goes_before n now (select_from (\<lambda>x y. rank_of n now x < rank_of n now y) b bs) k"
  using select_from_beats [of b bs "\<lambda>x y. rank_of n now x < rank_of n now y" k]
    rank_weak_order [of "set (b # bs)" "rank_of n now"] rank_of_num [OF assms(1)] assms
  by (auto simp: goes_before_def node_ok_def d_ok_def)

lemma evict_one_prio:
  assumes "node_ok n" and "cache n \<noteq> []"
  shows "\<exists>v \<in> set (cache_keys n).
    evict_one pick_victim now n = drop_block v (n\<lparr>pinned_evictions :=
       pinned_evictions n + (if pinned_in n now v then 1 else 0)\<rparr>) \<and>
    (\<forall>k \<in> set (cache_keys n). k \<noteq> v \<longrightarrow> goes_before n now v k)"
proof -
  let ?lt = "\<lambda>x y. rank_of n now x < rank_of n now y"
  from assms(2) obtain b bs where k: "cache_keys n = b # bs" by (cases "cache_keys n") auto
  let ?v = "select_from ?lt b bs"
  have "?v \<in> set (cache_keys n)" using select_from_mem [of ?lt b bs] k by simp
  moreover have "evict_one pick_victim now n = drop_block ?v (n\<lparr>pinned_evictions :=
       pinned_evictions n + (if pinned_in n now ?v then 1 else 0)\<rparr>)"
    by (simp add: evict_one_def pick_victim_select [OF k] Let_def)
  moreover have "goes_before n now ?v j" if "j \<in> set (cache_keys n)" "j \<noteq> ?v" for j
    using select_pick_beats [OF assms(1) k that] .
  ultimately show ?thesis by blast
qed

lemma goes_before_shrunk:
  assumes "goes_before m now h k" "cache_keys m = filter P (cache_keys n)" "shrunk n m"
    "h \<in> set (cache_keys m)" "k \<in> set (cache_keys m)"
  shows "goes_before n now h k"
  using assms before_filter [of P k "cache_keys n" h]
  by (auto simp: goes_before_def rank_of_shrunk [OF assms(3)])

lemma evict_loop_prio:
  assumes "node_ok n" "0 \<le> cache_capacity n" "evict_loop pick_victim now n = Some n'"
  shows "(\<forall>h \<in> evicted n n'. \<forall>k \<in> set (cache_keys n'). goes_before n now h k) \<and>
    pinned_evictions n' = pinned_evictions n + int (card {h \<in> evicted n n'. pinned_in n now h})"
  using assms
proof (induction "length (cache n)" arbitrary: n rule: less_induct)
  case less
  show ?case
  proof (cases "cache_capacity n < int (length (cache n))")
    case False
    then have "n' = n" using less.prems(3) by (simp add: evict_loop.simps)
    then show ?thesis by (simp add: evicted_def)
  next
    case True
    then have "cache n \<noteq> []" using less.prems by auto
    then obtain v where v: "v \<in> set (cache_keys n)"
        and m: "evict_one pick_victim now n = drop_block v (n\<lparr>pinned_evictions :=
           pinned_evictions n + (if pinned_in n now v then 1 else 0)\<rparr>)"
        and first: "\<forall>k \<in> set (cache_keys n). k \<noteq> v \<longrightarrow> goes_before n now v k"
      using evict_one_prio [OF less.prems(1), of now] by blast
    let ?m = "evict_one pick_victim now n"
    have mk: "cache_keys ?m = filter (\<lambda>x. x \<noteq> v) (cache_keys n)"
      by (simp add: m drop_block_def d_keys_pop)
    have "0 \<le> pinned_evictions n" using less.prems(1) by (simp add: node_ok_def)
    then have ok: "node_ok ?m" unfolding m using less.prems(1) by (intro drop_block_ok) simp_all
    have sh: "shrunk n ?m" unfolding m by (rule drop_block_shrunk) simp
    have cap: "cache_capacity ?m = cache_capacity n" by (rule prio.evict_one_capacity)
    have run: "evict_loop pick_victim now ?m = Some n'"
      using less.prems(3) True by (subst (asm) evict_loop.simps) simp
    have len: "length (cache ?m) < length (cache n)"
      using v length_d_pop [of "cache n" v] less.prems(1) by (simp add: m drop_block_def node_ok_def)
    have IH: "\<forall>h \<in> evicted ?m n'. \<forall>k \<in> set (cache_keys n'). goes_before ?m now h k"
        "pinned_evictions n' = pinned_evictions ?m + int (card {h \<in> evicted ?m n'. pinned_in ?m now h})"
      using less.hyps [OF len ok _ run] less.prems(2) cap by auto
    have sub: "set (cache_keys n') \<subseteq> set (cache_keys ?m)"
      using prio.evict_loop_spec [OF TrueI ok, of now] less.prems(2) cap run shrunk_keys by fastforce
    have ev: "evicted n n' = insert v (evicted ?m n')" "v \<notin> evicted ?m n'"
      using v sub mk by (auto simp: evicted_def)
    have "goes_before n now h k" if "h \<in> evicted n n'" "k \<in> set (cache_keys n')" for h k
    proof (cases "h = v")
      case True
      with that(2) sub mk first show ?thesis by auto
    next
      case False
      with that ev have "h \<in> evicted ?m n'" by simp
      then show ?thesis
        using IH(1) that(2) sub goes_before_shrunk [OF _ mk sh] by (auto simp: evicted_def)
    qed
    moreover have "pinned_in ?m now h = pinned_in n now h" if "h \<in> evicted ?m n'" for h
      using that rank_of_shrunk [OF sh] by (auto simp: pinned_in_def evicted_def)
    then have "{h \<in> evicted n n'. pinned_in n now h} =
        (if pinned_in n now v then insert v {h \<in> evicted ?m n'. pinned_in ?m now h}
         else {h \<in> evicted ?m n'. pinned_in ?m now h})"
      using ev by auto
    then have "pinned_evictions n' =
        pinned_evictions n + int (card {h \<in> evicted n n'. pinned_in n now h})"
      using IH(2) ev(2) by (auto simp: m drop_block_def evicted_def)
    ultimately show ?thesis by blast
  qed
qed

section \<open>Plain LRU\<close>

lemma evict_loop_lru:
  assumes "priority_of n = []" "expiry_of n = []" "0 \<le> cache_capacity n" "d_ok (cache n)"
    "evict_loop pick_victim now n = Some n'"
  shows "cache_keys n' = drop (length (cache n) - nat (cache_capacity n)) (cache_keys n) \<and>
    priority_of n' = [] \<and> pinned_evictions n' = pinned_evictions n"
  using assms
proof (induction "length (cache n)" arbitrary: n rule: less_induct)
  case less
  show ?case
  proof (cases "cache_capacity n < int (length (cache n))")
    case False
    then show ?thesis using less.prems by (simp add: evict_loop.simps)
  next
    case True
    then obtain b bs where k: "cache_keys n = b # bs" using less.prems(3) by (cases "cache_keys n") auto
    let ?m = "evict_one pick_victim now n"
    have m: "?m = drop_block b n" using k less.prems(1) by (simp add: evict_one_def pick_victim_def)
    have mk: "cache_keys ?m = bs"
      using k less.prems(4) by (auto simp: m drop_block_def d_keys_pop d_ok_def intro: filter_True)
    have run: "evict_loop pick_victim now ?m = Some n'"
      using less.prems(5) True by (subst (asm) evict_loop.simps) simp
    have len: "length (cache n) = Suc (length (cache ?m))"
      using mk k by (metis d_keys_simps(4) length_Cons)
    then have "cache_keys n' = drop (length (cache ?m) - nat (cache_capacity ?m)) (cache_keys ?m) \<and>
        priority_of n' = [] \<and> pinned_evictions n' = pinned_evictions ?m"
      using less.prems(1-4) run by (intro less.hyps) (simp_all add: m drop_block_def)
    moreover have "cache_capacity ?m = cache_capacity n" "pinned_evictions ?m = pinned_evictions n"
      by (simp_all add: m drop_block_def)
    moreover have "length (cache n) - nat (cache_capacity n) =
        Suc (length (cache ?m) - nat (cache_capacity n))"
      using True len by auto
    ultimately show ?thesis using mk k by simp
  qed
qed

lemma staged_plain:
  assumes "priority_of n = []" "expiry_of n = []" "\<not> now < r"
  shows "priority_of (staged now s bs r i None n) = []" "expiry_of (staged now s bs r i None n) = []"
proof -
  have "priority_of (insert_blocks None e bs m) = [] \<and> expiry_of (insert_blocks None e bs m) = []"
    if "priority_of m = []" "expiry_of m = []" for e m
    using that unfolding insert_blocks_def
    by (induction bs arbitrary: m) (simp_all add: insert_block_def)
  then show "priority_of (staged now s bs r i None n) = []" "expiry_of (staged now s bs r i None n) = []"
    using assms by (simp_all add: staged_def directive_def enqueue_def)
qed

lemma set_drop_append:
  "length ys \<le> k \<Longrightarrow> set ys \<subseteq> set (drop (length (xs @ ys) - k) (xs @ ys))"
  by auto

lemma matched_all: "set bs \<subseteq> set (cache_keys n) \<Longrightarrow> matched n bs = length bs"
  using matched_prefix_maximal [of "length bs" bs "d_has (cache n)"] matched_prefix_le [of bs "d_has (cache n)"]
  by (auto simp: matched_def d_has_def)

section \<open>Properties of admission\<close>

text \<open>C4: \<open>Node.admit\<close> on a well-formed node returns if and only if the capacity is not
  negative; with a negative capacity its eviction loop keeps asking an empty cache for a victim
  and never ends.\<close>

theorem admit_returns_iff:
  assumes "node_ok n" and "eviction_ok (eviction n)" and "timing_ok now s"
  shows "(\<exists>n'. admit now s bs r i p n = Some n') \<longleftrightarrow> 0 \<le> cache_capacity n"
  using assms by (rule admit_Some_iff)

lemma timing_ok_demo: "timing_ok (Fin 1) 1"
  by (simp add: timing_ok_def one_pyfloat_def zero_pyfloat_def)

theorem admit_returns_iff_witness:
  "admit (Fin 1) 1 [5, 6] 0 0 None (new_node 0 (- 1)) = None \<and>
   (\<exists>n'. admit (Fin 1) 1 [5, 6] 0 0 None (new_node 0 1) = Some n')"
  using admit_returns_iff
      [of "new_node 0 (- 1)" "Fin 1" 1 "[5, 6]" 0 0 None, OF new_node_ok _ timing_ok_demo]
    admit_returns_iff [of "new_node 0 1" "Fin 1" 1 "[5, 6]" 0 0 None, OF new_node_ok _ timing_ok_demo]
  by (simp add: new_node_def eviction_ok_def)

text \<open>C3: admission keeps the node's invariant (distinct cached blocks, directives only on
  cached blocks, priorities in range, no NaN clock), never exceeds the capacity, evicts no more
  than it must, and leaves the surviving blocks in recency order with the request's blocks
  newest.\<close>

theorem admit_keeps_invariant:
  assumes "node_ok n" and "eviction_ok (eviction n)" and "timing_ok now s"
    and "0 \<le> cache_capacity n"
  shows "\<exists>n'. admit now s bs r i p n = Some n' \<and> node_ok n' \<and>
    cache_capacity n' = cache_capacity n \<and>
    length (cache n') =
      min (length (filter (\<lambda>k. k \<notin> set bs) (cache_keys n) @ remdups bs)) (nat (cache_capacity n)) \<and>
    subseq (cache_keys n') (filter (\<lambda>k. k \<notin> set bs) (cache_keys n) @ remdups bs)"
  using admit_spec [OF assms, of bs r i p] by (auto simp: shrunk_def)

definition demo_node :: node where
  "demo_node = (new_node 0 2)\<lparr>cache := [(1, ()), (2, ())], priority_of := [(1, 100)],
     expiry_of := [(1, Fin 9)]\<rparr>"

lemma demo_node_ok:
  "node_ok demo_node" "eviction demo_node = Priority_LRU" "cache_capacity demo_node = 2"
  "cache_keys demo_node = [1, 2]" "d_get (priority_of demo_node) 1 = Some 100"
  "d_get (expiry_of demo_node) 1 = Some (Fin 9)" "busy_until demo_node = 0"
  "pinned_evictions demo_node = 0" "d_get (priority_of demo_node) 2 = None"
  by (simp_all add: demo_node_def new_node_def node_ok_def side_tables_ok_def directives_ok_def d_ok_def
      priority_defs zero_pyfloat_def d_get_def)

theorem admit_keeps_invariant_witness:
  "\<exists>n'. admit (Fin 1) 1 [3] 0 7 None demo_node = Some n' \<and> node_ok n' \<and> length (cache n') = 2"
  using admit_keeps_invariant [of demo_node "Fin 1" 1 "[3]" 0 7 None] timing_ok_demo
  by (auto simp: demo_node_ok eviction_ok_def)

text \<open>The queue is FIFO on one server: after an admission the node is busy until its old
  tail (or the arrival, when it was idle) plus the service time, so the clock never runs
  backwards; the identity is kept and the stream position recorded.\<close>

lemma admit_queue:
  assumes "node_ok n" and "eviction_ok (eviction n)" and "timing_ok now s"
    and "admit now s bs r i p n = Some n'"
  shows "busy_until n' = py_max2 now (busy_until n) + s \<and> busy_until n \<le> busy_until n' \<and>
    now \<le> busy_until n' \<and> node_id n' = node_id n \<and> at_index n' = i"
  using admit_SomeD(2) [OF assms] enqueue_times [OF assms(3), of "busy_until n"] assms(1)
  by (simp add: shrunk_def node_ok_def)

text \<open>C7: an admission overwrites the directive of every block of the request (an explicit
  priority is clamped and leased or persistent, a future \<open>retain_until\<close> alone is a HIGH lease,
  otherwise the mark is cleared), and touches no directive of any other surviving block.\<close>

theorem admit_overwrites_directives:
  assumes "node_ok n" and "eviction_ok (eviction n)" and "timing_ok now s"
    and "admit now s bs r i p n = Some n'" and "h \<in> set (cache_keys n')"
  shows "d_get (priority_of n') h =
      (if h \<in> set bs
       then (case p of None \<Rightarrow> if now < r then Some HIGH else None | Some q \<Rightarrow> Some (clamp_priority q))
       else d_get (priority_of n) h) \<and>
    d_get (expiry_of n') h =
      (if h \<in> set bs
       then if now < r then Some r else if p = None then None else Some PosInf
       else d_get (expiry_of n) h)"
proof -
  have "d_get (priority_of n') h = d_get (priority_of (staged now s bs r i p n)) h \<and>
      d_get (expiry_of n') h = d_get (expiry_of (staged now s bs r i p n)) h"
    using admit_SomeD(2) [OF assms(1-4)] assms(5) unfolding shrunk_def by blast
  then show ?thesis by (simp add: d_get_staged directive_def split: option.split)
qed

theorem admit_overwrites_directives_witness:
  "\<exists>n'. admit (Fin 1) 1 [2] 0 7 (Some 200) demo_node = Some n' \<and>
    d_get (priority_of n') 2 = Some 100 \<and> d_get (expiry_of n') 2 = Some PosInf \<and>
    d_get (priority_of n') 1 = Some 100 \<and> d_get (expiry_of n') 1 = Some (Fin 9)"
proof -
  let ?n = "staged (Fin 1) 1 [2] 0 7 (Some 200) demo_node"
  have keys: "cache_keys ?n = [1, 2]" by (simp add: demo_node_ok)
  then have "length (cache ?n) = 2" by (metis d_keys_simps(4) length_Cons list.size(3) numeral_2_eq_2)
  then have run: "admit (Fin 1) 1 [2] 0 7 (Some 200) demo_node = Some ?n"
    by (subst admit_eq, subst evict_loop.simps) (simp add: demo_node_ok)
  have pre: "node_ok demo_node" "eviction_ok (eviction demo_node)" "timing_ok (Fin 1) 1"
    by (simp_all add: demo_node_ok eviction_ok_def timing_ok_demo)
  have "d_get (priority_of ?n) 2 = Some 100 \<and> d_get (expiry_of ?n) 2 = Some PosInf"
    "d_get (priority_of ?n) 1 = Some 100 \<and> d_get (expiry_of ?n) 1 = Some (Fin 9)"
    using admit_overwrites_directives [OF pre run, of 2] admit_overwrites_directives [OF pre run, of 1]
    by (simp_all add: keys demo_node_ok priority_defs clamp_priority_def zero_pyfloat_def)
  with run show ?thesis by blast
qed

section \<open>Properties of the victim policies\<close>

text \<open>C2: on a well-formed node with a non-empty cache, the single scan of \<open>_pick_victim\<close>
  (three buckets, and the short cut when no directive is live) returns the cached block of
  lowest effective rank, the least recently used one among equals, and counts a pinned eviction
  exactly when that block is marked and unexpired; on an empty cache it returns None.\<close>

theorem pick_victim_lowest_rank:
  assumes "node_ok n"
  shows "case cache_keys n of
      [] \<Rightarrow> pick_victim now n = (None, n)
    | _ # _ \<Rightarrow> \<exists>v \<in> set (cache_keys n).
        pick_victim now n = (Some v, n\<lparr>pinned_evictions :=
          pinned_evictions n + (if is_marked (rank_of n now v) then 1 else 0)\<rparr>) \<and>
        (\<forall>k \<in> set (cache_keys n). k \<noteq> v \<longrightarrow>
           rank_of n now v < rank_of n now k \<or>
           \<not> rank_of n now k < rank_of n now v \<and> before (cache_keys n) v k)"
proof (cases "cache_keys n")
  case Nil
  then show ?thesis by (simp add: pick_victim_empty)
next
  case (Cons h hs)
  let ?v = "select_from (\<lambda>x y. rank_of n now x < rank_of n now y) h hs"
  have "?v \<in> set (cache_keys n)"
    using select_from_mem [of "\<lambda>x y. rank_of n now x < rank_of n now y" h hs] Cons by simp
  then show ?thesis
    using pick_victim_select [OF Cons, of now] select_pick_beats [OF assms Cons, of _ now] Cons
    by (auto simp: goes_before_def pinned_in_def Let_def intro!: bexI [of _ ?v])
qed

theorem pick_victim_lowest_rank_witness:
  "pick_victim (Fin 1) demo_node = (Some 2, demo_node) \<and>
   (\<exists>v \<in> {1, 2}. fst (pick_victim (Fin 1) demo_node) = Some v)"
  using pick_victim_lowest_rank [OF demo_node_ok(1), of "Fin 1"]
  by (auto simp: demo_node_ok rank_of_def expiry_get_def)

text \<open>C1: on a node with the priority evictor, every block that an admission evicts goes before
  every block it keeps in the order of effective rank with recency as the tie-break, and the
  pinned-evictions counter grows by exactly the number of marked, unexpired blocks evicted.\<close>

theorem admit_evicts_lowest_rank:
  assumes "node_ok n" and "eviction n = Priority_LRU" and "timing_ok now s"
    and "admit now s bs r i p n = Some n'"
  shows "(\<forall>h \<in> evicted (staged now s bs r i p n) n'. \<forall>k \<in> set (cache_keys n').
      goes_before (staged now s bs r i p n) now h k) \<and>
    pinned_evictions n' = pinned_evictions n +
      int (card {h \<in> evicted (staged now s bs r i p n) n'.
                 pinned_in (staged now s bs r i p n) now h})"
proof -
  have cap: "0 \<le> cache_capacity n"
    using admit_SomeD(3) [OF assms(1) _ assms(3,4)] assms(2) by (simp add: eviction_ok_def)
  have "evict_loop pick_victim now (staged now s bs r i p n) = Some n'"
    using assms(4,2) by (simp add: admit_eq picker_of_def)
  from evict_loop_prio [OF staged_ok [OF assms(1,3)] _ this] cap show ?thesis by simp
qed

theorem admit_evicts_lowest_rank_witness:
  "\<exists>n'. admit (Fin 1) 1 [3] 0 7 None demo_node = Some n' \<and>
    (\<forall>h \<in> evicted (staged (Fin 1) 1 [3] 0 7 None demo_node) n'. \<forall>k \<in> set (cache_keys n').
      goes_before (staged (Fin 1) 1 [3] 0 7 None demo_node) (Fin 1) h k)"
  using admit_evicts_lowest_rank [of demo_node "Fin 1" 1 "[3]" 0 7 None]
    admit_Some_iff [of demo_node "Fin 1" 1 "[3]" 0 7 None] timing_ok_demo
  by (auto simp: demo_node_ok eviction_ok_def)

lemma admit_lru_keys:
  assumes "node_ok n" and "eviction n = Priority_LRU" and "timing_ok now s"
    and "0 \<le> cache_capacity n" and "priority_of n = []" and "\<not> now < r"
  shows "\<exists>n'. admit now s bs r i None n = Some n' \<and>
    cache_keys n' =
      (let keys = filter (\<lambda>k. k \<notin> set bs) (cache_keys n) @ remdups bs
       in drop (length keys - nat (cache_capacity n)) keys) \<and>
    priority_of n' = [] \<and> pinned_evictions n' = pinned_evictions n \<and>
    (int (length (remdups bs)) \<le> cache_capacity n \<longrightarrow> matched n' bs = length bs)"
proof -
  let ?n = "staged now s bs r i None n"
  have ok: "node_ok ?n" using staged_ok [OF assms(1,3)] .
  have ex: "expiry_of n = []" using assms(1,5) by (simp add: node_ok_def side_tables_ok_def)
  have side: "priority_of ?n = []" "expiry_of ?n = []"
    using assms(5,6) ex by (simp_all add: staged_plain)
  obtain n' where n': "admit now s bs r i None n = Some n'"
    using admit_spec [OF assms(1) _ assms(3,4), of bs r i None] assms(2) by (auto simp: eviction_ok_def)
  have "evict_loop pick_victim now ?n = Some n'" using n' assms(2) by (simp add: admit_eq picker_of_def)
  then have *: "cache_keys n' = drop (length (cache_keys ?n) - nat (cache_capacity n)) (cache_keys ?n)"
      "priority_of n' = []" "pinned_evictions n' = pinned_evictions n"
    using evict_loop_lru [OF side _ _, of now n'] ok assms(4) by (simp_all add: node_ok_def del: cache_keys_staged)
  have "matched n' bs = length bs" if fit: "int (length (remdups bs)) \<le> cache_capacity n"
  proof -
    have "set bs \<subseteq> set (cache_keys n')" using * fit by (auto simp: set_drop_append)
    then show ?thesis by (simp add: matched_all)
  qed
  with * n' show ?thesis by (auto simp: Let_def)
qed

text \<open>C6: a node that carries no directive and gets none is a plain LRU cache: an admission
  keeps the newest blocks up to the capacity, and a request whose blocks fit is wholly matched
  afterwards.\<close>

theorem admit_plain_lru:
  assumes "node_ok n" and "eviction n = Priority_LRU" and "timing_ok now s"
    and "0 \<le> cache_capacity n" and "priority_of n = []" and "\<not> now < r"
  shows "\<exists>n'. admit now s bs r i None n = Some n' \<and>
    cache_keys n' =
      (let keys = filter (\<lambda>k. k \<notin> set bs) (cache_keys n) @ remdups bs
       in drop (length keys - nat (cache_capacity n)) keys) \<and>
    priority_of n' = [] \<and> pinned_evictions n' = pinned_evictions n \<and>
    (int (length (remdups bs)) \<le> cache_capacity n \<longrightarrow> matched n' bs = length bs)"
  using assms by (rule admit_lru_keys)

theorem admit_plain_lru_witness:
  "\<exists>n'. admit (Fin 1) 1 [3, 4] 0 7 None (new_node 0 1) = Some n' \<and> cache_keys n' = [4]"
  using admit_plain_lru [of "new_node 0 1" "Fin 1" 1 0 "[3, 4]" 7, OF new_node_ok _ timing_ok_demo]
  by (auto simp: new_node_def zero_pyfloat_def)

section \<open>Properties of Belady's policy\<close>

lemma filter_greater_drop:
  assumes "sorted us"
  shows "filter (\<lambda>u. x < u) us = drop (bisect_right us x) us"
proof -
  let ?b = "bisect_right us x"
  have "filter (\<lambda>u. x < u) (take ?b us) = []"
    using bisect_right_spec(2) [OF assms] by (fastforce simp: filter_empty_conv in_set_conv_nth)
  moreover have "filter (\<lambda>u. x < u) (drop ?b us) = drop ?b us"
    using bisect_right_spec(3) [OF assms] by (auto simp: filter_id_conv in_set_conv_nth)
  ultimately show ?thesis by (metis append_Nil append_take_drop_id filter_append)
qed

text \<open>The binary search of \<open>_next_use\<close> finds the first recorded use of the block strictly
  after the current stream position, and infinity exactly when there is none.\<close>

lemma next_use_is_first_later_use:
  assumes "uses_ok uses"
  shows "next_use uses n h =
    (case d_get uses h of
       None \<Rightarrow> PosInf
     | Some us \<Rightarrow> (case filter (\<lambda>u. at_index n < u) us of [] \<Rightarrow> PosInf | u # _ \<Rightarrow> rnd (of_int u)))"
proof (cases "d_get uses h")
  case None
  then show ?thesis by (simp add: next_use_def)
next
  case (Some us)
  have "sorted us"
    using assms Some map_of_SomeD [of uses h us] by (fastforce simp: uses_ok_def list_all_iff d_get_def)
  then show ?thesis
    using Some by (cases "length us \<le> bisect_right us (at_index n)")
      (auto simp: next_use_def filter_greater_drop Cons_nth_drop_Suc [symmetric])
qed

definition demo_uses :: "(int, int list) pydict" where
  "demo_uses = [(1, [0, 3, 8]), (2, [5]), (4, [9])]"

definition demo_belady :: node where
  "demo_belady = (new_belady_node 0 2 demo_uses)\<lparr>cache := [(1, ()), (2, ())], at_index := 3\<rparr>"

lemma demo_belady_facts:
  "uses_ok demo_uses" "cache demo_belady \<noteq> []" "cache_keys demo_belady = [1, 2]"
  "at_index demo_belady = 3"
  by (simp_all add: demo_uses_def uses_ok_def demo_belady_def new_belady_node_def new_node_def)

text \<open>C8: a Belady node with a non-empty cache evicts a cached block whose next use is furthest in
  the future (never used again counts as infinitely far) and leaves its counters alone.\<close>

theorem belady_victim_furthest:
  assumes "uses_ok uses" and "cache n \<noteq> []"
  shows "\<exists>v \<in> set (cache_keys n). pick_victim_belady uses now n = (Some v, n) \<and>
    (\<forall>h \<in> set (cache_keys n). next_use uses n h \<le> next_use uses n v)"
  using assms by (rule pick_victim_belady_spec)

theorem belady_victim_furthest_witness:
  "pick_victim_belady demo_uses (Fin 0) demo_belady = (Some 1, demo_belady)"
proof -
  have u: "next_use demo_uses demo_belady 1 = Fin 8" "next_use demo_uses demo_belady 2 = Fin 5"
    by (simp_all add: next_use_def demo_uses_def demo_belady_facts(4) d_get_def rnd_numeral
        bisect_right_def bisect_right_loop.simps)
  from belady_victim_furthest [OF demo_belady_facts(1,2), of "Fin 0"] show ?thesis
    by (auto simp: demo_belady_facts(3) u)
qed

end
