(* ===== verification/Router_Index.thy ===== *)
theory Router_Index
  imports Admission
begin

text \<open>
  \<open>_RouterIndex\<close> of \<open>src/bench/sim/policies.py\<close>: the router's belief of which blocks
  each node holds, one capacity-bounded LRU per node, fed by routing decisions only.

  The trimming loop rests on the contract \<open>lru_table\<close> of ordered dictionaries. The main
  result is a simulation: as long as a node evicts by plain LRU, its cache is the newest
  \<open>cache_capacity\<close> blocks of the router's table, so beliefs go stale in one direction only:
  the router may believe an evicted block resident, never the converse.
\<close>

section \<open>Python list indexing\<close>

text \<open>\<open>xs[i]\<close>: a negative index counts from the end, out of range raises\<close>

definition py_pos :: "nat \<Rightarrow> int \<Rightarrow> nat res" where
  "py_pos len i =
     (let j = (if i < 0 then i + int len else i)
      in if 0 \<le> j \<and> j < int len then Inr (nat j) else Inl IndexError)"

definition py_index :: "'a list \<Rightarrow> int \<Rightarrow> 'a res" where
  "py_index xs i = rbind (py_pos (length xs) i) (\<lambda>j. Inr (xs ! j))"

lemma py_pos_nat: "0 \<le> i \<Longrightarrow> i < int len \<Longrightarrow> py_pos len i = Inr (nat i)"
  by (simp add: py_pos_def Let_def)

lemma py_pos_less: "py_pos len i = Inr j \<Longrightarrow> j < len"
  by (auto simp: py_pos_def Let_def split: if_splits)

lemma py_index_nat: "0 \<le> i \<Longrightarrow> i < int (length xs) \<Longrightarrow> py_index xs i = Inr (xs ! nat i)"
  by (simp add: py_index_def py_pos_nat)

section \<open>The index\<close>

record RouterIndex =
  ri_capacity :: int
  ri_blocks :: "(int, unit) pydict list"

definition new_router_index :: "nat \<Rightarrow> int \<Rightarrow> RouterIndex" where
  "new_router_index num_nodes capacity =
     \<lparr>ri_capacity = capacity, ri_blocks = replicate num_nodes []\<rparr>"

definition ri_matched :: "RouterIndex \<Rightarrow> int \<Rightarrow> int list \<Rightarrow> nat res" where
  "ri_matched ri nid req_blocks =
     rbind (py_index (ri_blocks ri) nid) (\<lambda>index. Inr (matched_prefix req_blocks (d_has index)))"

definition touch_all :: "int list \<Rightarrow> (int, unit) pydict \<Rightarrow> (int, unit) pydict" where
  "touch_all req_blocks index = fold (\<lambda>h. d_touch h ()) req_blocks index"

definition ri_record :: "int \<Rightarrow> int list \<Rightarrow> RouterIndex \<Rightarrow> RouterIndex res" where
  "ri_record nid req_blocks ri =
     rbind (py_pos (length (ri_blocks ri)) nid) (\<lambda>j.
     rbind (d_trim (ri_capacity ri) (touch_all req_blocks (ri_blocks ri ! j))) (\<lambda>index.
       Inr (ri\<lparr>ri_blocks := (ri_blocks ri)[j := index]\<rparr>)))"

text \<open>The router's table of node \<open>j\<close>, oldest block first\<close>

definition belief :: "RouterIndex \<Rightarrow> nat \<Rightarrow> int list" where
  "belief ri j = d_keys (ri_blocks ri ! j)"

definition index_ok :: "nat \<Rightarrow> RouterIndex \<Rightarrow> bool" where
  "index_ok len ri \<longleftrightarrow>
     length (ri_blocks ri) = len \<and> 0 \<le> ri_capacity ri \<and>
     list_all (\<lambda>d. d_ok d \<and> int (length d) \<le> ri_capacity ri) (ri_blocks ri)"

lemma touch_all_keys: "d_keys (touch_all bs d) = filter (\<lambda>k. k \<notin> set bs) (d_keys d) @ remdups bs"
proof (induction bs arbitrary: d)
  case (Cons b bs)
  have "d_keys (touch_all (b # bs) d) = d_keys (touch_all bs (d_touch b () d))"
    by (simp add: touch_all_def)
  also have "\<dots> = filter (\<lambda>k. k \<notin> set (b # bs)) (d_keys d) @ remdups (b # bs)"
    unfolding Cons.IH by (auto simp: d_keys_touch intro: filter_cong)
  finally show ?case .
qed (simp add: touch_all_def)

lemma touch_all_ok: "d_ok d \<Longrightarrow> d_ok (touch_all bs d)"
  by (auto simp: d_ok_def touch_all_keys)

lemma new_router_index_ok: "0 \<le> cap \<Longrightarrow> index_ok len (new_router_index len cap)"
  by (simp add: index_ok_def new_router_index_def list_all_length)

lemma ri_record_spec:
  assumes "index_ok len ri" "0 \<le> nid" "nid < int len"
  shows "\<exists>ri'. ri_record nid bs ri = Inr ri' \<and> index_ok len ri' \<and> ri_capacity ri' = ri_capacity ri \<and>
    (\<forall>j < len. belief ri' j =
      (if j = nat nid then
         (let keys = filter (\<lambda>k. k \<notin> set bs) (belief ri j) @ remdups bs
          in drop (length keys - nat (ri_capacity ri)) keys)
       else belief ri j))"
proof -
  let ?j = "nat nid" and ?cap = "ri_capacity ri"
  let ?t = "touch_all bs (ri_blocks ri ! ?j)"
  have j: "?j < length (ri_blocks ri)" "length (ri_blocks ri) = len" "0 \<le> ?cap"
    using assms by (simp_all add: index_ok_def nat_less_iff)
  from dict_lru.trim_returns [OF j(3)] obtain d where d: "d_trim ?cap ?t = Inr d" by metis
  have dk: "d_keys d = drop (length (d_keys ?t) - nat ?cap) (d_keys ?t)"
    by (rule dict_lru.keys_trim [OF d])
  have "d_ok (ri_blocks ri ! ?j)" using assms(1) j(1) by (simp add: index_ok_def list_all_length)
  then have "d_ok ?t" by (rule touch_all_ok)
  then have "d_ok d" "int (length d) \<le> ?cap"
    using dk j(3) by (simp_all add: d_ok_def flip: d_keys_simps(4))
  then have "index_ok len (ri\<lparr>ri_blocks := (ri_blocks ri)[?j := d]\<rparr>)"
    using assms(1) j by (auto simp: index_ok_def list_all_length nth_list_update)
  then show ?thesis
    using assms(2,3) j d dk
    by (auto simp: ri_record_def py_pos_nat belief_def nth_list_update touch_all_keys Let_def)
qed

lemma ri_matched_nat:
  "index_ok len ri \<Longrightarrow> 0 \<le> nid \<Longrightarrow> nid < int len \<Longrightarrow>
   ri_matched ri nid bs = Inr (matched_prefix bs (\<lambda>h. h \<in> set (belief ri (nat nid))))"
  by (simp add: ri_matched_def py_index_nat index_ok_def belief_def d_has_def [abs_def])

section \<open>Beliefs against caches\<close>

text \<open>\<open>newest k xs\<close>: the \<open>k\<close> most recently used keys\<close>

definition newest :: "nat \<Rightarrow> 'a list \<Rightarrow> 'a list" where
  "newest k xs = drop (length xs - k) xs"

lemma newest_short: "length xs \<le> k \<Longrightarrow> newest k xs = xs"
  by (simp add: newest_def)

lemma newest_append_long: "k \<le> length ys \<Longrightarrow> newest k (xs @ ys) = newest k ys"
  by (simp add: newest_def)

lemma newest_append: "newest k (xs @ ys) = newest (k - length ys) xs @ newest k ys"
  by (cases "k \<le> length ys") (simp_all add: newest_def)

lemma newest_newest: "j \<le> k \<Longrightarrow> newest j (newest k xs) = newest j xs"
  by (cases "length xs \<le> k") (simp_all add: newest_def)

lemma set_newest: "set (newest k xs) \<subseteq> set xs"
  by (simp add: newest_def set_drop_subset)

text \<open>Restricting to the newest \<open>c\<close> keys before touching \<open>bs\<close> loses nothing of the newest
  \<open>c\<close> keys after.\<close>

lemma newest_touch:
  assumes "distinct keys"
  shows "newest c (filter (\<lambda>k. k \<notin> set bs) (newest c keys) @ remdups bs) =
    newest c (filter (\<lambda>k. k \<notin> set bs) keys @ remdups bs)"
proof -
  let ?P = "\<lambda>k. k \<notin> set bs" and ?new = "newest c keys"
  have split: "keys = take (length keys - c) keys @ ?new" by (simp add: newest_def)
  have "newest (c - length (remdups bs)) (filter ?P keys) =
      newest (c - length (remdups bs)) (filter ?P ?new)"
  proof (cases "length keys \<le> c")
    case False
    have "length (filter (\<lambda>k. k \<in> set bs) ?new) = card (set (filter (\<lambda>k. k \<in> set bs) ?new))"
      using assms by (intro distinct_card [symmetric]) (simp add: newest_def)
    also have "\<dots> \<le> card (set bs)" by (intro card_mono) auto
    finally have "length (filter (\<lambda>k. k \<in> set bs) ?new) \<le> length (remdups bs)"
      by (simp add: length_remdups_card_conv)
    moreover have "length ?new = c" using False by (simp add: newest_def)
    ultimately have "c - length (remdups bs) \<le> length (filter ?P ?new)"
      using sum_length_filter_compl [of "\<lambda>k. k \<in> set bs" ?new] by linarith
    then have "newest (c - length (remdups bs))
        (filter ?P (take (length keys - c) keys) @ filter ?P ?new) =
        newest (c - length (remdups bs)) (filter ?P ?new)"
      by (rule newest_append_long)
    then show ?thesis using split by (metis filter_append)
  qed (simp add: newest_short)
  then show ?thesis by (simp add: newest_append)
qed

text \<open>\<open>n\<close>'s cache is the newest part of the router's table \<open>j\<close>.\<close>

definition mirrors :: "node \<Rightarrow> RouterIndex \<Rightarrow> nat \<Rightarrow> bool" where
  "mirrors n ri j \<longleftrightarrow> cache_keys n = newest (nat (cache_capacity n)) (belief ri j)"

lemma mirrors_matched_le:
  "mirrors n ri j \<Longrightarrow> matched n bs \<le> matched_prefix bs (\<lambda>h. h \<in> set (belief ri j))"
  using matched_prefix_maximal [of "matched n bs" bs "\<lambda>h. h \<in> set (belief ri j)"]
    matched_prefix_maximal [of "matched n bs" bs "d_has (cache n)"] set_newest
  by (fastforce simp: mirrors_def matched_def d_has_def)

lemma mirrors_step:
  assumes n: "node_ok n" "eviction n = Priority_LRU" "priority_of n = []" "0 \<le> cache_capacity n"
    and adm: "timing_ok now s" "\<not> now < r"
    and ri: "index_ok len ri" "0 \<le> nid" "nid < int len" "cache_capacity n \<le> ri_capacity ri"
    and sim: "mirrors n ri (nat nid)"
  shows "\<exists>n' ri'. admit now s bs r i None n = Some n' \<and> ri_record nid bs ri = Inr ri' \<and>
    mirrors n' ri' (nat nid) \<and> index_ok len ri' \<and> ri_capacity ri' = ri_capacity ri \<and>
    node_ok n' \<and> eviction n' = Priority_LRU \<and> priority_of n' = [] \<and>
    cache_capacity n' = cache_capacity n"
proof -
  let ?c = "nat (cache_capacity n)" and ?k = "belief ri (nat nid)"
  obtain n' where n': "admit now s bs r i None n = Some n'"
      "cache_keys n' = newest ?c (filter (\<lambda>k. k \<notin> set bs) (cache_keys n) @ remdups bs)"
      "priority_of n' = []"
    using admit_lru_keys [OF n(1,2) adm(1) n(4,3) adm(2), of bs i] by (auto simp: newest_def Let_def)
  have ok: "node_ok n'" "shrunk (staged now s bs r i None n) n'"
    using admit_SomeD(1,2) [OF n(1) _ adm(1) n'(1)] n(2) by (simp_all add: eviction_ok_def)
  obtain ri' where ri': "ri_record nid bs ri = Inr ri'" "index_ok len ri'"
      "ri_capacity ri' = ri_capacity ri"
      "belief ri' (nat nid) = newest (nat (ri_capacity ri)) (filter (\<lambda>k. k \<notin> set bs) ?k @ remdups bs)"
    using ri_record_spec [OF ri(1-3), of bs] ri(2,3) by (auto simp: newest_def Let_def)
  have "distinct ?k"
    using ri(1-3) by (auto simp: index_ok_def list_all_length belief_def d_ok_def nat_less_iff)
  then have "cache_keys n' = newest ?c (filter (\<lambda>k. k \<notin> set bs) ?k @ remdups bs)"
    using n'(2) sim newest_touch by (simp add: mirrors_def)
  also have "\<dots> = newest ?c (belief ri' (nat nid))"
    using ri(4) n(4) by (simp add: ri'(4) newest_newest nat_mono)
  finally have "mirrors n' ri' (nat nid)" using ok(2) by (simp add: mirrors_def shrunk_def)
  then show ?thesis using n' ri' ok n(2) by (auto simp: shrunk_def)
qed

section \<open>Properties\<close>

text \<open>C16: the router-side index simulates the node's cache: when a node evicts by plain LRU and its
  capacity is at most the index's, recording every request that is routed to it keeps the node's
  cache equal to the newest part of the router's table. Beliefs therefore err in one direction:
  the index never reports a shorter match than the node has.\<close>

theorem index_simulates_node_cache:
  assumes "node_ok n" "eviction n = Priority_LRU" "priority_of n = []"
    and "0 \<le> cache_capacity n" "cache_capacity n \<le> ri_capacity ri"
    and "timing_ok now s" "\<not> now < r"
    and "index_ok len ri" "0 \<le> nid" "nid < int len"
    and "mirrors n ri (nat nid)"
  shows "\<exists>n' ri'. admit now s bs r i None n = Some n' \<and> ri_record nid bs ri = Inr ri' \<and>
    mirrors n' ri' (nat nid) \<and>
    (\<forall>req. \<exists>m. ri_matched ri' nid req = Inr m \<and> matched n' req \<le> m)"
proof -
  obtain n' ri' where *: "admit now s bs r i None n = Some n'" "ri_record nid bs ri = Inr ri'"
      "mirrors n' ri' (nat nid)" "index_ok len ri'"
    using mirrors_step [OF assms(1-4,6-10,5,11)] by blast
  then show ?thesis
    using ri_matched_nat [OF *(4) assms(9,10)] mirrors_matched_le [OF *(3)] by auto
qed

theorem index_simulates_node_cache_witness:
  "\<exists>n' ri'. admit (Fin 1) 1 [3, 4] 0 0 None (new_node 0 1) = Some n' \<and>
    ri_record 0 [3, 4] (new_router_index 2 5) = Inr ri' \<and> mirrors n' ri' 0"
  using index_simulates_node_cache [of "new_node 0 1" "new_router_index 2 5" "Fin 1" 1 0 2 0 "[3, 4]" 0,
      OF new_node_ok _ _ _ _ timing_ok_demo _ new_router_index_ok]
  by (auto simp: new_node_def new_router_index_def mirrors_def belief_def newest_def zero_pyfloat_def)

text \<open>Recording a request keeps every table of the index within its capacity and free of
  duplicates, changes the routed node's table only, and leaves there the newest blocks with the
  request's last.\<close>

lemma index_record_bounded:
  assumes "index_ok len ri" "0 \<le> nid" "nid < int len"
  shows "\<exists>ri'. ri_record nid bs ri = Inr ri' \<and> index_ok len ri' \<and>
    (\<forall>j < len. int (length (belief ri' j)) \<le> ri_capacity ri \<and>
       belief ri' j = (if j = nat nid
         then newest (nat (ri_capacity ri)) (filter (\<lambda>k. k \<notin> set bs) (belief ri j) @ remdups bs)
         else belief ri j))"
proof -
  obtain ri' where *: "ri_record nid bs ri = Inr ri'" "index_ok len ri'" "ri_capacity ri' = ri_capacity ri"
      "\<forall>j < len. belief ri' j = (if j = nat nid
         then newest (nat (ri_capacity ri)) (filter (\<lambda>k. k \<notin> set bs) (belief ri j) @ remdups bs)
         else belief ri j)"
    using ri_record_spec [OF assms, of bs] by (auto simp: newest_def Let_def)
  have "int (length (belief ri' j)) \<le> ri_capacity ri" if "j < len" for j
    using *(2,3) that by (simp add: index_ok_def list_all_length belief_def)
  with * show ?thesis by auto
qed

end
