(* ===== verification/Cost.thy ===== *)
theory Cost
  imports Admission
begin

text \<open>
  \<open>src/bench/sim/cost.py\<close>: the predicted time to first token of serving a request on a
  node, and the argmin over all (node, transfer) pairs.

  All times are binary64 floats evaluated in the order of the code, so the price of a
  placement is its rounded sum and an argmin compares rounded sums. Integer operands are
  converted where Python converts them (\<open>int_times\<close>), which may overflow; a zero bandwidth
  raises. Placements are compared as the tuples (ttft, node id, transfer). \<open>node is hot\<close>
  is equality of node ids, which the engine assigns once per object.
\<close>

section \<open>Data\<close>

datatype Regime = WAIT | TRANSFER | RECOMPUTE

record CostParams =
  block_size :: int
  prefill_per_token :: pyfloat
  prefill_fixed :: pyfloat
  block_kv_bytes :: pyfloat
  bandwidth :: pyfloat
  link_latency :: pyfloat
  inter_token :: pyfloat

definition default_params :: CostParams where
  "default_params =
     \<lparr>block_size = DEFAULT_BLOCK_SIZE, prefill_per_token = rnd (1 / 5000),
      prefill_fixed = rnd (1 / 200), block_kv_bytes = Fin 800000, bandwidth = Fin 4000000000,
      link_latency = rnd (1 / 2000), inter_token = rnd (1 / 100)\<rparr>"

record Placement =
  p_node_id :: int
  p_transfer :: bool
  p_regime :: Regime
  p_ttft :: pyfloat
  p_retain_until :: pyfloat
  p_priority :: "int option"

definition mk_placement :: "int \<Rightarrow> bool \<Rightarrow> Regime \<Rightarrow> pyfloat \<Rightarrow> Placement" where
  "mk_placement nid transfer regime ttft =
     \<lparr>p_node_id = nid, p_transfer = transfer, p_regime = regime, p_ttft = ttft,
      p_retain_until = 0, p_priority = None\<rparr>"

section \<open>Operations\<close>

definition transfer_time :: "CostParams \<Rightarrow> int \<Rightarrow> pyfloat res" where
  "transfer_time ps blocks =
     (if blocks \<le> 0 then Inr 0
      else rbind (int_times blocks (block_kv_bytes ps)) (\<lambda>bytes.
           rbind (fdiv bytes (bandwidth ps)) (\<lambda>t. Inr (t + link_latency ps))))"

definition prefill_time :: "CostParams \<Rightarrow> int \<Rightarrow> pyfloat res" where
  "prefill_time ps missing_blocks =
     rbind (int_times (missing_blocks * block_size ps) (prefill_per_token ps)) (\<lambda>t.
       Inr (t + prefill_fixed ps))"

text \<open>\<open>key(b) < key(x)\<close> for \<open>key = (n.matched(req_blocks), -n.node_id)\<close>\<close>

definition hotter :: "int list \<Rightarrow> node \<Rightarrow> node \<Rightarrow> bool" where
  "hotter req_blocks x b \<longleftrightarrow>
     matched b req_blocks < matched x req_blocks \<or>
     matched b req_blocks = matched x req_blocks \<and> - node_id b < - node_id x"

definition hot_node :: "int list \<Rightarrow> node list \<Rightarrow> node res" where
  "hot_node req_blocks nodes = select_by (hotter req_blocks) nodes"

definition seeded_blocks :: "int list \<Rightarrow> node \<Rightarrow> node \<Rightarrow> bool \<Rightarrow> int" where
  "seeded_blocks req_blocks n hot transfer =
     (if transfer then max 0 (int (matched hot req_blocks) - int (matched n req_blocks)) else 0)"

definition predict ::
    "int list \<Rightarrow> node \<Rightarrow> pyfloat \<Rightarrow> CostParams \<Rightarrow> node \<Rightarrow> bool \<Rightarrow> Placement res" where
  "predict req_blocks n now ps hot transfer =
     (let total = int (length req_blocks);
          local = int (matched n req_blocks);
          xfer_blocks = seeded_blocks req_blocks n hot transfer;
          missing = total - (local + xfer_blocks)
      in rbind (transfer_time ps xfer_blocks) (\<lambda>xfer_cost.
         rbind (prefill_time ps missing) (\<lambda>prefill.
           let ttft = wait n now + xfer_cost + prefill;
               regime = (if 0 < xfer_blocks then TRANSFER
                         else if node_id n = node_id hot \<and> 0 < local then WAIT
                         else RECOMPUTE)
           in Inr (mk_placement (node_id n) transfer regime ttft))))"

text \<open>The tuple comparison of \<open>(ttft, node_id, transfer)\<close>\<close>

definition placement_less :: "Placement \<Rightarrow> Placement \<Rightarrow> bool" where
  "placement_less p q \<longleftrightarrow>
     (if feq (p_ttft p) (p_ttft q) then
        (if p_node_id p = p_node_id q then \<not> p_transfer p \<and> p_transfer q
         else p_node_id p < p_node_id q)
      else p_ttft p < p_ttft q)"

text \<open>The candidates in the order the loop appends them\<close>

definition choices :: "bool \<Rightarrow> node \<Rightarrow> node list \<Rightarrow> (node \<times> bool) list" where
  "choices allow_transfer hot nodes =
     concat (map (\<lambda>n. if allow_transfer \<and> node_id n \<noteq> node_id hot then [(n, False), (n, True)]
                      else [(n, False)]) nodes)"

definition best_placement ::
    "int list \<Rightarrow> node list \<Rightarrow> pyfloat \<Rightarrow> CostParams \<Rightarrow> bool \<Rightarrow> Placement res" where
  "best_placement req_blocks nodes now ps allow_transfer =
     rbind (hot_node req_blocks nodes) (\<lambda>hot.
     rbind (rmap (\<lambda>(n, transfer). predict req_blocks n now ps hot transfer)
              (choices allow_transfer hot nodes))
       (select_by placement_less))"

section \<open>Inputs of the cost model\<close>

definition fin_nonneg :: "pyfloat \<Rightarrow> bool" where
  "fin_nonneg x \<longleftrightarrow> (case x of Fin q \<Rightarrow> 0 \<le> q \<and> is_f64 x | _ \<Rightarrow> False)"

definition params_ok :: "CostParams \<Rightarrow> bool" where
  "params_ok ps \<longleftrightarrow>
     0 < block_size ps \<and> fin_nonneg (prefill_per_token ps) \<and> fin_nonneg (prefill_fixed ps) \<and>
     fin_nonneg (block_kv_bytes ps) \<and> fin_nonneg (bandwidth ps) \<and> bandwidth ps \<noteq> 0 \<and>
     fin_nonneg (link_latency ps) \<and> fin_nonneg (inter_token ps)"

text \<open>
  The clock is a finite float and the request's tokens are counted exactly by a float
  (at most \<open>2 ^ 53\<close> of them).
\<close>

definition query_ok :: "CostParams \<Rightarrow> pyfloat \<Rightarrow> int list \<Rightarrow> bool" where
  "query_ok ps now req_blocks \<longleftrightarrow>
     params_ok ps \<and> (case now of Fin _ \<Rightarrow> is_f64 now | _ \<Rightarrow> False) \<and>
     int (length req_blocks) * block_size ps \<le> 2 ^ 53"

definition nodes_ok :: "node list \<Rightarrow> bool" where
  "nodes_ok nodes \<longleftrightarrow> list_all node_ok nodes \<and> distinct (map node_id nodes)"

lemma fin_nonnegE:
  assumes "fin_nonneg x"
  obtains q where "x = Fin q" "0 \<le> q" "rnd q = Fin q" "0 \<le> x"
  using assms by (auto simp: fin_nonneg_def zero_pyfloat_def split: pyfloat.splits)

lemma fin_nonneg_rnd: "rnd q = Fin r \<Longrightarrow> 0 \<le> q \<Longrightarrow> fin_nonneg (rnd q)"
  using rnd_nonneg [of q] by (auto simp: fin_nonneg_def dest: rnd_idem)

section \<open>Prices\<close>

lemma int_times_small:
  assumes "0 \<le> n" "n \<le> 2 ^ 53" "fin_nonneg x"
  shows "int_times n x = Inr (Fin (of_int n) * x)" "0 \<le> Fin (of_int n) * x"
proof -
  have r: "rnd (of_int n) = Fin (of_int n)" using assms(1,2) by (intro rnd_of_int) simp
  then show "int_times n x = Inr (Fin (of_int n) * x)" by (simp add: int_times_def float_of_int_def)
  from assms(3) obtain q where "x = Fin q" "0 \<le> q" by (rule fin_nonnegE)
  then show "0 \<le> Fin (of_int n) * x" using assms(1) by (simp add: zero_pyfloat_def rnd_nonneg)
qed

lemma fmul_mono_int:
  assumes "0 \<le> m" "m \<le> n" "fin_nonneg x"
  shows "Fin (of_int m) * x \<le> Fin (of_int n) * x"
proof -
  from assms(3) obtain q where "x = Fin q" "0 \<le> q" by (rule fin_nonnegE)
  then show ?thesis using assms(1,2) by (auto intro!: rnd_mono mult_right_mono)
qed

lemma fnonneg_add_not_NaN: "0 \<le> a \<Longrightarrow> 0 \<le> b \<Longrightarrow> (a + b :: pyfloat) \<noteq> NaN"
  by (rule fnonneg_not_NaN [OF fadd_nonneg])

lemma fadd_mono_nonneg:
  "0 \<le> a \<Longrightarrow> 0 \<le> c \<Longrightarrow> a \<le> b \<Longrightarrow> c \<le> d \<Longrightarrow> a + c \<le> (b + d :: pyfloat)"
  by (intro fadd_mono fnonneg_add_not_NaN) (auto intro: fle_trans)

lemma fle_add_right: "0 \<le> a \<Longrightarrow> 0 \<le> b \<Longrightarrow> is_f64 a \<Longrightarrow> a \<le> (a + b :: pyfloat)"
  using fadd_mono_nonneg [of a 0 a b] by (simp add: fadd_0 fnonneg_not_NaN)

lemma prefill_time_spec:
  assumes "params_ok ps" "0 \<le> m" "m * block_size ps \<le> 2 ^ 53"
  shows "prefill_time ps m =
      Inr (Fin (of_int (m * block_size ps)) * prefill_per_token ps + prefill_fixed ps)"
    and "0 \<le> Fin (of_int (m * block_size ps)) * prefill_per_token ps + prefill_fixed ps"
proof -
  have n: "0 \<le> m * block_size ps" using assms(1,2) by (simp add: params_ok_def)
  have p: "fin_nonneg (prefill_per_token ps)" "fin_nonneg (prefill_fixed ps)"
    using assms(1) by (simp_all add: params_ok_def)
  show "prefill_time ps m =
      Inr (Fin (of_int (m * block_size ps)) * prefill_per_token ps + prefill_fixed ps)"
    using int_times_small(1) [OF n assms(3) p(1)] by (simp add: prefill_time_def)
  from p(2) have "0 \<le> prefill_fixed ps" by (rule fin_nonnegE)
  then show "0 \<le> Fin (of_int (m * block_size ps)) * prefill_per_token ps + prefill_fixed ps"
    using int_times_small(2) [OF n assms(3) p(1)] by (rule fadd_nonneg [rotated])
qed

lemma prefill_time_mono:
  assumes "params_ok ps" "0 \<le> m" "m \<le> k" "k * block_size ps \<le> 2 ^ 53"
    and "prefill_time ps m = Inr s" "prefill_time ps k = Inr t"
  shows "s \<le> t"
proof -
  have bs: "0 < block_size ps" using assms(1) by (simp add: params_ok_def)
  then have mk: "m * block_size ps \<le> k * block_size ps" using assms(3) by simp
  then have m: "m * block_size ps \<le> 2 ^ 53" "0 \<le> m * block_size ps" "0 \<le> k"
    using order_trans [OF mk assms(4)] assms(2,3) bs by simp_all
  have p: "fin_nonneg (prefill_per_token ps)" "fin_nonneg (prefill_fixed ps)"
    using assms(1) by (simp_all add: params_ok_def)
  from p(2) have "0 \<le> prefill_fixed ps" by (rule fin_nonnegE)
  then show ?thesis
    using prefill_time_spec(1) [OF assms(1,2) m(1)] prefill_time_spec(1) [OF assms(1) m(3) assms(4)]
      assms(5,6) fmul_mono_int [OF m(2) mk p(1)] int_times_small(2) [OF m(2,1) p(1)]
    by (auto intro!: fadd_mono_nonneg simp: fnonneg_not_NaN)
qed

lemma fquot_pos: "0 \<le> a \<Longrightarrow> 0 < w \<Longrightarrow> 0 \<le> fquot a (Fin w)"
  by (erule fnonneg_cases) (auto simp: zero_pyfloat_def signed_inf_def rnd_nonneg)

lemma transfer_time_spec:
  assumes "params_ok ps" "b \<le> 2 ^ 53"
  shows "\<exists>t. transfer_time ps b = Inr t \<and> 0 \<le> t \<and> is_f64 t \<and> (b \<le> 0 \<longrightarrow> t = 0)"
proof (cases "b \<le> 0")
  case True
  then show ?thesis by (simp add: transfer_time_def zero_pyfloat_def)
next
  case False
  have p: "fin_nonneg (block_kv_bytes ps)" "fin_nonneg (bandwidth ps)" "bandwidth ps \<noteq> 0"
      "fin_nonneg (link_latency ps)"
    using assms(1) by (simp_all add: params_ok_def)
  from p(2) obtain w where w: "bandwidth ps = Fin w" "0 \<le> w" by (rule fin_nonnegE)
  with p(3) have pos: "0 < w" by (simp add: zero_pyfloat_def order_less_le)
  let ?x = "Fin (of_int b) * block_kv_bytes ps"
  have x: "int_times b (block_kv_bytes ps) = Inr ?x" "0 \<le> ?x"
    using int_times_small [of b, OF _ assms(2) p(1)] False by simp_all
  have d: "fdiv ?x (bandwidth ps) = Inr (fquot ?x (bandwidth ps))" "0 \<le> fquot ?x (bandwidth ps)"
    using pos fquot_pos [OF x(2) pos] by (auto simp: fdiv_def w)
  from p(4) have "0 \<le> link_latency ps" by (rule fin_nonnegE)
  then show ?thesis
    using False x d by (simp add: transfer_time_def fadd_nonneg)
qed

lemma wait_nonneg [simp]: "0 \<le> wait n now"
  by (simp add: wait_def)

lemma is_f64_wait [simp]: "is_f64 (wait n now)"
  by (simp add: wait_def)

section \<open>One prediction\<close>

lemma matched_le: "matched n bs \<le> length bs"
  by (simp add: matched_def matched_prefix_le)

lemma query_okD:
  assumes "query_ok ps now bs"
  shows "params_ok ps" "finite_f now" "is_f64 now" "int (length bs) * block_size ps \<le> 2 ^ 53"
    "int (length bs) \<le> 2 ^ 53"
proof -
  show *: "params_ok ps" "finite_f now" "is_f64 now" "int (length bs) * block_size ps \<le> 2 ^ 53"
    using assms by (auto simp: query_ok_def split: pyfloat.splits)
  have "1 \<le> block_size ps" using *(1) by (simp add: params_ok_def)
  then have "int (length bs) * 1 \<le> int (length bs) * block_size ps" by (intro mult_left_mono) simp_all
  then show "int (length bs) \<le> 2 ^ 53" using *(4) by linarith
qed

lemma missing_ok:
  assumes "query_ok ps now bs" "m \<le> int (length bs)"
  shows "m * block_size ps \<le> 2 ^ 53"
proof -
  have "m * block_size ps \<le> int (length bs) * block_size ps"
    using query_okD(1) [OF assms(1)] assms(2) by (intro mult_right_mono) (auto simp: params_ok_def)
  then show ?thesis using query_okD(4) [OF assms(1)] by linarith
qed

definition missing_blocks :: "int list \<Rightarrow> node \<Rightarrow> node \<Rightarrow> bool \<Rightarrow> int" where
  "missing_blocks bs n hot transfer =
     int (length bs) - (int (matched n bs) + seeded_blocks bs n hot transfer)"

lemma missing_blocks_bounds:
  "0 \<le> missing_blocks bs n hot tr" "missing_blocks bs n hot tr \<le> int (length bs)"
  "seeded_blocks bs n hot tr \<le> int (length bs)" "0 \<le> seeded_blocks bs n hot tr"
  using matched_le [of n bs] matched_le [of hot bs]
  by (auto simp: missing_blocks_def seeded_blocks_def)

lemma predict_spec:
  assumes "query_ok ps now bs"
  obtains x t where
    "transfer_time ps (seeded_blocks bs n hot tr) = Inr x" "0 \<le> x" "is_f64 x"
    "seeded_blocks bs n hot tr \<le> 0 \<longrightarrow> x = 0"
    "prefill_time ps (missing_blocks bs n hot tr) = Inr t" "0 \<le> t"
    "predict bs n now ps hot tr = Inr (mk_placement (node_id n) tr
       (if 0 < seeded_blocks bs n hot tr then TRANSFER
        else if node_id n = node_id hot \<and> 0 < matched n bs then WAIT else RECOMPUTE)
       (wait n now + x + t))"
proof -
  have s: "seeded_blocks bs n hot tr \<le> 2 ^ 53"
    using missing_blocks_bounds(3) [of bs n hot tr] query_okD(5) [OF assms] by linarith
  obtain x where x: "transfer_time ps (seeded_blocks bs n hot tr) = Inr x" "0 \<le> x" "is_f64 x"
      "seeded_blocks bs n hot tr \<le> 0 \<longrightarrow> x = 0"
    using transfer_time_spec [OF query_okD(1) [OF assms] s] by blast
  obtain t where t: "prefill_time ps (missing_blocks bs n hot tr) = Inr t" "0 \<le> t"
    using prefill_time_spec [OF query_okD(1) [OF assms] missing_blocks_bounds(1)
        missing_ok [OF assms missing_blocks_bounds(2)]] by blast
  show thesis
    using that x t by (simp add: predict_def Let_def missing_blocks_def [symmetric])
qed

lemma predict_returns:
  assumes "query_ok ps now bs"
  shows "\<exists>p. predict bs n now ps hot tr = Inr p \<and> 0 \<le> p_ttft p \<and> is_f64 (p_ttft p) \<and>
    p_node_id p = node_id n \<and> p_transfer p = tr \<and> p_retain_until p = 0 \<and> p_priority p = None \<and>
    (p_regime p = TRANSFER \<longleftrightarrow> 0 < seeded_blocks bs n hot tr)"
  by (rule predict_spec [OF assms, of n hot tr]) (auto simp: mk_placement_def fadd_nonneg)

lemma predict_InrD:
  assumes "query_ok ps now bs" "predict bs n now ps hot tr = Inr p"
  shows "0 \<le> p_ttft p" "p_ttft p \<noteq> NaN" "p_node_id p = node_id n" "p_transfer p = tr"
    "p_regime p = TRANSFER \<longleftrightarrow> 0 < seeded_blocks bs n hot tr"
  using predict_returns [OF assms(1), of n hot tr] assms(2) by (auto simp: fnonneg_not_NaN)

lemma predict_le:
  assumes q: "query_ok ps now bs" and "predict bs n now ps hot tr = Inr p"
    and "predict bs m now ps hot' tr' = Inr r"
    and "wait n now \<le> wait m now" "seeded_blocks bs n hot tr \<le> 0"
    and "missing_blocks bs n hot tr \<le> missing_blocks bs m hot' tr'"
  shows "p_ttft p \<le> p_ttft r"
proof -
  obtain x t where x: "0 \<le> x" "x = 0" "prefill_time ps (missing_blocks bs n hot tr) = Inr t" "0 \<le> t"
      "p_ttft p = wait n now + x + t"
    by (rule predict_spec [OF q, of n hot tr]) (use assms(2,5) in \<open>auto simp: mk_placement_def\<close>)
  obtain y u where y: "0 \<le> y" "prefill_time ps (missing_blocks bs m hot' tr') = Inr u" "0 \<le> u"
      "p_ttft r = wait m now + y + u"
    by (rule predict_spec [OF q, of m hot' tr']) (use assms(3) in \<open>auto simp: mk_placement_def\<close>)
  have "t \<le> u"
    using prefill_time_mono [OF query_okD(1) [OF q] missing_blocks_bounds(1) assms(6)
        missing_ok [OF q missing_blocks_bounds(2)] x(3) y(2)] .
  moreover have "wait n now + x \<le> wait m now + y"
    using assms(4) x(2) y(1) by (intro fadd_mono_nonneg) simp_all
  ultimately show ?thesis
    unfolding x(5) y(4) using fadd_mono_nonneg [OF fadd_nonneg [OF wait_nonneg x(1)] x(4)] by blast
qed

section \<open>The hot node\<close>

lemma hotter_weak_order: "weak_order_on S (hotter bs)"
  by (rule weak_order_onI) (auto simp: hotter_def)

lemma hot_node_spec:
  assumes "hot_node bs nodes = Inr hot" "n \<in> set nodes"
  shows "hot \<in> set nodes" "matched n bs \<le> matched hot bs"
    "matched n bs = matched hot bs \<Longrightarrow> node_id hot \<le> node_id n"
  using select_by_mem [OF assms(1) [unfolded hot_node_def]]
    select_by_least [OF hotter_weak_order assms(1) [unfolded hot_node_def] assms(2)]
  by (auto simp: hotter_def)

lemma hot_node_Inr_iff: "(\<exists>hot. hot_node bs nodes = Inr hot) \<longleftrightarrow> nodes \<noteq> []"
  by (simp add: hot_node_def select_by_Inr_iff)

section \<open>The argmin\<close>

lemma placement_weak_order:
  assumes "\<And>p. p \<in> S \<Longrightarrow> p_ttft p \<noteq> NaN"
  shows "weak_order_on S placement_less"
proof (rule weak_order_onI)
  show "\<not> placement_less x x" if "x \<in> S" for x
    using assms [OF that] by (simp add: placement_less_def feq_def)
  show "placement_less x z" if "x \<in> S" "y \<in> S" "z \<in> S" "placement_less x y" "placement_less y z" for x y z
    using that assms [of x] assms [of y] assms [of z]
    by (auto simp: placement_less_def feq_def split: if_splits dest: flt_trans)
  show "\<not> placement_less x z" if "x \<in> S" "y \<in> S" "z \<in> S" "\<not> placement_less x y" "\<not> placement_less y z" for x y z
    using that assms [of x] assms [of y] assms [of z]
    by (auto simp: placement_less_def feq_def fnot_less split: if_splits dest: fle_trans fle_antisym)
qed

lemma set_choices:
  "(n, tr) \<in> set (choices atr hot nodes) \<longleftrightarrow>
   n \<in> set nodes \<and> (tr \<longrightarrow> atr \<and> node_id n \<noteq> node_id hot)"
  by (auto simp: choices_def split: if_splits)

lemma choices_Nil_iff [simp]: "choices atr hot nodes = [] \<longleftrightarrow> nodes = []"
  by (cases nodes) (simp_all add: choices_def)

lemma rmap_choices:
  assumes "rmap (\<lambda>(n, tr). f n tr) (choices atr hot nodes) = Inr cs"
  shows "r \<in> set cs \<longleftrightarrow>
    (\<exists>n \<in> set nodes. \<exists>tr. (tr \<longrightarrow> atr \<and> node_id n \<noteq> node_id hot) \<and> f n tr = Inr r)"
  unfolding rmap_Inr_set [OF assms] split_beta
  using set_choices [of _ _ atr hot nodes] by (metis fst_conv prod.collapse snd_conv)

lemma best_placement_returns:
  assumes "query_ok ps now bs" "nodes \<noteq> []"
  shows "\<exists>p. best_placement bs nodes now ps atr = Inr p"
proof -
  obtain hot where hot: "hot_node bs nodes = Inr hot" using hot_node_Inr_iff assms(2) by blast
  have "returns (rmap (\<lambda>(n, tr). predict bs n now ps hot tr) (choices atr hot nodes))"
  proof (rule rmap_returns)
    fix c :: "node \<times> bool"
    show "returns (case c of (n, tr) \<Rightarrow> predict bs n now ps hot tr)"
      using predict_returns [OF assms(1), of "fst c" hot "snd c"] by (auto simp: split_beta returns_iff)
  qed
  then obtain ps' where r: "rmap (\<lambda>(n, tr). predict bs n now ps hot tr) (choices atr hot nodes) = Inr ps'"
    by (auto simp: returns_iff)
  then have "ps' \<noteq> []" using rmap_Inr_length [OF r] assms(2) by (cases ps') auto
  then show ?thesis using hot r select_by_Inr_iff [of placement_less ps']
    by (simp add: best_placement_def)
qed

lemma best_placement_spec:
  assumes q: "query_ok ps now bs" and b: "best_placement bs nodes now ps atr = Inr p"
  obtains hot where "hot_node bs nodes = Inr hot"
    "\<exists>n \<in> set nodes. \<exists>tr. (tr \<longrightarrow> atr \<and> node_id n \<noteq> node_id hot) \<and> predict bs n now ps hot tr = Inr p"
    "\<And>n tr r. n \<in> set nodes \<Longrightarrow> tr \<longrightarrow> atr \<and> node_id n \<noteq> node_id hot \<Longrightarrow>
       predict bs n now ps hot tr = Inr r \<Longrightarrow> \<not> placement_less r p"
proof -
  from b obtain hot cs where hot: "hot_node bs nodes = Inr hot"
      and cs: "rmap (\<lambda>(n, tr). predict bs n now ps hot tr) (choices atr hot nodes) = Inr cs"
      and p: "select_by placement_less cs = Inr p"
    by (auto simp: best_placement_def)
  note mem = rmap_choices [OF cs]
  have "p_ttft r \<noteq> NaN" if "r \<in> set cs" for r
  proof -
    from that mem obtain n tr where "predict bs n now ps hot tr = Inr r" by blast
    then show ?thesis by (rule predict_InrD(2) [OF q])
  qed
  then have wo: "weak_order_on (set cs) placement_less" by (rule placement_weak_order)
  have "\<exists>n \<in> set nodes. \<exists>tr. (tr \<longrightarrow> atr \<and> node_id n \<noteq> node_id hot) \<and> predict bs n now ps hot tr = Inr p"
    using select_by_mem [OF p] mem [of p] by blast
  moreover have "\<not> placement_less r p"
    if "n \<in> set nodes" "tr \<longrightarrow> atr \<and> node_id n \<noteq> node_id hot" "predict bs n now ps hot tr = Inr r" for n tr r
  proof -
    have "r \<in> set cs" using mem [of r] that by blast
    then show ?thesis by (rule select_by_least [OF wo p])
  qed
  ultimately show thesis using that hot by blast
qed

lemma placement_not_less_ttft:
  "\<not> placement_less r p \<Longrightarrow> p_ttft p \<noteq> NaN \<Longrightarrow> p_ttft r \<noteq> NaN \<Longrightarrow> p_ttft p \<le> p_ttft r"
  by (auto simp: placement_less_def feq_def fnot_less split: if_splits)

subsection \<open>Consequences of the argmin\<close>

lemma best_placement_le:
  assumes q: "query_ok ps now bs" and b: "best_placement bs nodes now ps atr = Inr p"
    and hot: "hot_node bs nodes = Inr hot"
    and n: "n \<in> set nodes" and tr: "tr \<longrightarrow> atr \<and> node_id n \<noteq> node_id hot"
    and r: "predict bs n now ps hot tr = Inr r"
  shows "p_ttft p \<le> p_ttft r" "\<not> placement_less r p"
proof -
  from best_placement_spec [OF q b] obtain n' tr' where
      p: "predict bs n' now ps hot tr' = Inr p" and nl: "\<not> placement_less r p"
    using hot n tr r by (metis Inr_inject)
  then show "\<not> placement_less r p" by simp
  show "p_ttft p \<le> p_ttft r"
    using placement_not_less_ttft [OF nl] predict_InrD(2) [OF q p] predict_InrD(2) [OF q r] by blast
qed

lemma best_placement_source:
  assumes q: "query_ok ps now bs" and b: "best_placement bs nodes now ps atr = Inr p"
    and hot: "hot_node bs nodes = Inr hot"
  obtains n tr where "n \<in> set nodes" "tr \<longrightarrow> atr \<and> node_id n \<noteq> node_id hot"
    "predict bs n now ps hot tr = Inr p"
  using best_placement_spec [OF q b] hot by (metis Inr_inject)

text \<open>Asking to seed a node with nothing costs exactly what not asking costs.\<close>

lemma predict_no_seed:
  assumes "seeded_blocks bs n hot tr = 0" "predict bs n now ps hot tr = Inr p"
  shows "predict bs n now ps hot False = Inr (p\<lparr>p_transfer := False\<rparr>)"
  using assms by (auto simp: predict_def Let_def mk_placement_def) (auto simp: seeded_blocks_def)

section \<open>Sample cluster\<close>

lemma fin_nonneg_rnd_small: "0 \<le> q \<Longrightarrow> q \<le> 9007199254740992 \<Longrightarrow> fin_nonneg (rnd q)"
proof -
  assume q: "0 \<le> q" "q \<le> 9007199254740992"
  have "rnd 9007199254740992 = Fin 9007199254740992" by (rule rnd_numeral) simp
  then have "rnd q \<le> Fin 9007199254740992" using q(2) by (intro rnd_le_Fin) simp_all
  then obtain r where "rnd q = Fin r" using rnd_nonneg [OF q(1)] by (cases "rnd q") auto
  then show ?thesis using q(1) by (rule fin_nonneg_rnd)
qed

lemma default_params_ok: "params_ok default_params"
  by (simp add: params_ok_def default_params_def DEFAULT_BLOCK_SIZE_def fin_nonneg_rnd_small
      zero_pyfloat_def) (simp add: fin_nonneg_def rnd_numeral)

lemma default_query_ok:
  "length bs \<le> 1000 \<Longrightarrow> query_ok default_params (Fin 1) bs"
  "length bs \<le> 1000 \<Longrightarrow> query_ok default_params (Fin 0) bs"
  using default_params_ok
  by (simp_all add: query_ok_def) (simp_all add: default_params_def DEFAULT_BLOCK_SIZE_def)

definition demo_cluster :: "node list" where
  "demo_cluster =
     [(new_node 0 4)\<lparr>cache := [(7, ()), (8, ())]\<rparr>, (new_node 1 4)\<lparr>cache := [(7, ())]\<rparr>]"

lemma demo_cluster_hot: "hot_node [7, 8] demo_cluster = Inr ((new_node 0 4)\<lparr>cache := [(7, ()), (8, ())]\<rparr>)"
  by (simp add: hot_node_def demo_cluster_def hotter_def matched_def matched_prefix_def d_has_def
      new_node_def)

section \<open>Properties\<close>

text \<open>C15: \<open>best_placement\<close> on a non-empty cluster returns one of the predictions it considers
  (every node without a transfer, and every node but the hot one with a transfer when that is
  allowed), each of which returns; no considered prediction is cheaper, and among equally cheap
  ones the lowest node id wins and then the one without a transfer.\<close>

theorem best_placement_optimal:
  assumes "query_ok ps now bs" and "nodes \<noteq> []"
  shows "\<exists>hot p. hot_node bs nodes = Inr hot \<and> best_placement bs nodes now ps atr = Inr p \<and>
    (\<exists>n \<in> set nodes. \<exists>tr. (tr \<longrightarrow> atr \<and> node_id n \<noteq> node_id hot) \<and>
       predict bs n now ps hot tr = Inr p) \<and>
    (\<forall>n \<in> set nodes. \<forall>tr. (tr \<longrightarrow> atr \<and> node_id n \<noteq> node_id hot) \<longrightarrow>
       (\<exists>r. predict bs n now ps hot tr = Inr r \<and> p_ttft p \<le> p_ttft r \<and>
          (p_ttft r = p_ttft p \<longrightarrow> p_node_id p < p_node_id r \<or>
             p_node_id p = p_node_id r \<and> (p_transfer p \<longrightarrow> p_transfer r))))"
proof -
  obtain hot where hot: "hot_node bs nodes = Inr hot" using hot_node_Inr_iff assms(2) by blast
  obtain p where p: "best_placement bs nodes now ps atr = Inr p"
    using best_placement_returns [OF assms] by blast
  have A: "\<exists>r. predict bs n now ps hot tr = Inr r \<and> p_ttft p \<le> p_ttft r \<and>
      (p_ttft r = p_ttft p \<longrightarrow> p_node_id p < p_node_id r \<or>
         p_node_id p = p_node_id r \<and> (p_transfer p \<longrightarrow> p_transfer r))"
    if n: "n \<in> set nodes" and tr: "tr \<longrightarrow> atr \<and> node_id n \<noteq> node_id hot" for n tr
  proof -
    obtain r where r: "predict bs n now ps hot tr = Inr r" "p_ttft r \<noteq> NaN"
      using predict_returns [OF assms(1), of n hot tr] by (auto simp: fnonneg_not_NaN)
    from best_placement_le [OF assms(1) p hot n tr r(1)] r show ?thesis
      by (auto simp: placement_less_def feq_def split: if_splits)
  qed
  have B: "\<exists>n \<in> set nodes. \<exists>tr. (tr \<longrightarrow> atr \<and> node_id n \<noteq> node_id hot) \<and>
      predict bs n now ps hot tr = Inr p"
    by (rule best_placement_source [OF assms(1) p hot]) blast
  show ?thesis
    by (rule exI [of _ hot], rule exI [of _ p], intro conjI hot p B ballI allI, rule impI, rule A)
qed

theorem best_placement_optimal_witness:
  "\<exists>p. best_placement [7, 8] demo_cluster (Fin 1) default_params True = Inr p \<and> p_node_id p \<in> {0, 1}"
proof -
  let ?bs = "[7, 8]"
  have q: "query_ok default_params (Fin 1) ?bs" by (rule default_query_ok(1)) simp
  have "demo_cluster \<noteq> []" by (simp add: demo_cluster_def)
  from best_placement_optimal [OF q this, of True] obtain hot p n tr where
    p: "best_placement ?bs demo_cluster (Fin 1) default_params True = Inr p" "n \<in> set demo_cluster"
      "predict ?bs n (Fin 1) default_params hot tr = Inr p" by blast
  have "p_node_id p = node_id n" by (rule predict_InrD(3) [OF q p(3)])
  with p show ?thesis by (auto simp: demo_cluster_def new_node_def)
qed

text \<open>Whenever the hot node is idle, sending the request there and recomputing the rest is a
  cheapest placement: no transfer and no less loaded node beats it, and the argmin costs exactly
  that.\<close>

lemma idle_hot_node_is_optimal:
  assumes "query_ok ps now bs" and "hot_node bs nodes = Inr hot" and "wait hot now = 0"
  shows "\<exists>p r. best_placement bs nodes now ps atr = Inr p \<and>
    predict bs hot now ps hot False = Inr r \<and> p_ttft p = p_ttft r"
proof -
  have mem: "hot \<in> set nodes" using assms(2) select_by_mem by (simp add: hot_node_def)
  then obtain p where p: "best_placement bs nodes now ps atr = Inr p"
    using best_placement_returns [OF assms(1), of nodes] by fastforce
  obtain r where r: "predict bs hot now ps hot False = Inr r" using predict_returns [OF assms(1)] by blast
  obtain n tr where n: "n \<in> set nodes" "predict bs n now ps hot tr = Inr p"
    using best_placement_source [OF assms(1) p assms(2)] by blast
  have "missing_blocks bs hot hot False \<le> missing_blocks bs n hot tr"
    using hot_node_spec(2) [OF assms(2) n(1)] by (simp add: missing_blocks_def seeded_blocks_def)
  then have "p_ttft r \<le> p_ttft p"
    using assms(3) by (intro predict_le [OF assms(1) r n(2)]) (simp_all add: seeded_blocks_def)
  moreover have "p_ttft p \<le> p_ttft r"
    using best_placement_le(1) [OF assms(1) p assms(2) mem _ r] by simp
  ultimately show ?thesis using p r fle_antisym by blast
qed

text \<open>The argmin asks for a transfer exactly when it moves blocks: the transfer flag of its
  result is set if and only if its regime is TRANSFER, so a pointless transfer is never chosen.\<close>

lemma best_placement_transfer_moves_blocks:
  assumes "query_ok ps now bs" and "best_placement bs nodes now ps atr = Inr p"
  shows "p_transfer p \<longleftrightarrow> p_regime p = TRANSFER"
proof -
  obtain hot where hot: "hot_node bs nodes = Inr hot" using assms(2) by (auto simp: best_placement_def)
  obtain n tr where n: "n \<in> set nodes" "predict bs n now ps hot tr = Inr p"
    using best_placement_source [OF assms hot] by blast
  note d = predict_InrD [OF assms(1) n(2)]
  have "\<not> (tr \<and> seeded_blocks bs n hot tr = 0)"
  proof
    assume z: "tr \<and> seeded_blocks bs n hot tr = 0"
    then have f: "predict bs n now ps hot False = Inr (p\<lparr>p_transfer := False\<rparr>)"
      using predict_no_seed n(2) by blast
    have "\<not> placement_less (p\<lparr>p_transfer := False\<rparr>) p"
      using best_placement_le(2) [OF assms hot n(1) _ f] by simp
    then show False using z d by (simp add: placement_less_def feq_def)
  qed
  moreover have "tr" if "0 < seeded_blocks bs n hot tr"
    using that by (simp add: seeded_blocks_def split: if_splits)
  ultimately show ?thesis using d missing_blocks_bounds(4) [of bs n hot tr] by auto
qed

text \<open>Allowing transfers never makes the best placement more expensive.\<close>

lemma transfers_never_hurt:
  assumes "query_ok ps now bs" and "nodes \<noteq> []"
  shows "\<exists>p r. best_placement bs nodes now ps True = Inr p \<and>
    best_placement bs nodes now ps False = Inr r \<and> p_ttft p \<le> p_ttft r"
proof -
  obtain hot where hot: "hot_node bs nodes = Inr hot" using hot_node_Inr_iff assms(2) by blast
  obtain p r where p: "best_placement bs nodes now ps True = Inr p"
      and r: "best_placement bs nodes now ps False = Inr r"
    using best_placement_returns [OF assms] by metis
  from best_placement_source [OF assms(1) r hot] obtain n where
    n: "n \<in> set nodes" "predict bs n now ps hot False = Inr r" by (metis (full_types))
  show ?thesis using best_placement_le(1) [OF assms(1) p hot n(1) _ n(2)] p r by simp
qed

end
