(* ===== verification/Tool_Gaps.thy ===== *)
theory Tool_Gaps
  imports Cost
begin

text \<open>
  \<open>GapStat\<close>, \<open>ToolGapIndex\<close>, \<open>gap_confidence\<close> and \<open>observe_gap\<close> of
  \<open>src/bench/sim/policies.py\<close>: re-arrival gaps per tool, learned from timing alone.

  The statistics are binary64 floats updated in the code's order of operations. The two
  tables are bounded LRU dictionaries (contract \<open>lru_table\<close>). The lemmas show that no
  sequence of observations makes a variance negative (a negative one would turn
  \<open>var**0.5\<close> into a complex number), that the confidence is a weight in [0, 1] that falls
  with the variance, and that the last-seen table measures exact gaps while it is not full.
\<close>

section \<open>Definitions\<close>

record GapStat =
  gs_count :: int
  gs_mean :: pyfloat
  gs_var :: pyfloat

definition new_gap_stat :: GapStat where
  "new_gap_stat = \<lparr>gs_count = 0, gs_mean = 0, gs_var = 0\<rparr>"

record ToolGapIndex =
  tg_capacity :: int
  tg_alpha :: pyfloat
  tg_priors :: "(string, pyfloat \<times> pyfloat) pydict"
  tg_default_prior :: "pyfloat \<times> pyfloat"
  tg_stats :: "(string, GapStat) pydict"

definition new_tool_gap_index ::
    "int \<Rightarrow> pyfloat \<Rightarrow> (string, pyfloat \<times> pyfloat) pydict \<Rightarrow> pyfloat \<times> pyfloat \<Rightarrow> ToolGapIndex" where
  "new_tool_gap_index capacity alpha priors default_prior =
     \<lparr>tg_capacity = capacity, tg_alpha = alpha, tg_priors = priors,
      tg_default_prior = default_prior, tg_stats = []\<rparr>"

definition default_tool_gap_index :: ToolGapIndex where
  "default_tool_gap_index = new_tool_gap_index 512 (rnd (3 / 10)) [] (Fin 2, Fin 16)"

definition fold_gap :: "pyfloat \<Rightarrow> pyfloat \<Rightarrow> GapStat \<Rightarrow> GapStat" where
  "fold_gap alpha gap stat =
     (if gs_count stat = 0
      then \<lparr>gs_count = gs_count stat + 1, gs_mean = gap, gs_var = 0\<rparr>
      else let delta = gap - gs_mean stat in
        \<lparr>gs_count = gs_count stat + 1, gs_mean = gs_mean stat + alpha * delta,
         gs_var = (1 - alpha) * (gs_var stat + alpha * delta * delta)\<rparr>)"

definition tg_record :: "string \<Rightarrow> pyfloat \<Rightarrow> ToolGapIndex \<Rightarrow> ToolGapIndex res" where
  "tg_record tool gap ti =
     (let stat = (case d_get (tg_stats ti) tool of None \<Rightarrow> new_gap_stat | Some s \<Rightarrow> s)
      in rbind (d_trim (tg_capacity ti) (d_touch tool (fold_gap (tg_alpha ti) gap stat) (tg_stats ti)))
           (\<lambda>stats. Inr (ti\<lparr>tg_stats := stats\<rparr>)))"

definition tg_predict :: "ToolGapIndex \<Rightarrow> string option \<Rightarrow> pyfloat \<times> pyfloat" where
  "tg_predict ti tool =
     (case tool of
        None \<Rightarrow> tg_default_prior ti
      | Some t \<Rightarrow> (case d_get (tg_stats ti) t of
            Some stat \<Rightarrow> (gs_mean stat, gs_var stat)
          | None \<Rightarrow> (case d_get (tg_priors ti) t of
                Some prior \<Rightarrow> prior
              | None \<Rightarrow> tg_default_prior ti)))"

definition gap_confidence :: "pyfloat \<Rightarrow> pyfloat \<Rightarrow> pyfloat res" where
  "gap_confidence mean var =
     (let scale = py_max2 (mean * mean) (rnd (1 / 1000000000))
      in rbind (fdiv var scale) (\<lambda>ratio. fdiv 1 (1 + ratio)))"

definition tg_confidence :: "ToolGapIndex \<Rightarrow> string option \<Rightarrow> pyfloat res" where
  "tg_confidence ti tool = (case tg_predict ti tool of (mean, var) \<Rightarrow> gap_confidence mean var)"

definition GAP_TRACKER_CAPACITY :: int where
  "GAP_TRACKER_CAPACITY = 8192"

definition observe_gap ::
    "(int, pyfloat) pydict \<Rightarrow> int option \<Rightarrow> string option \<Rightarrow> pyfloat \<Rightarrow> int \<Rightarrow>
     (pyfloat option \<times> (int, pyfloat) pydict) res" where
  "observe_gap last_seen conversation_id tool now capacity =
     (case conversation_id of
        None \<Rightarrow> Inr (None, last_seen)
      | Some c \<Rightarrow>
          rbind (d_trim capacity (d_touch c now last_seen)) (\<lambda>seen.
            Inr (case (d_get last_seen c, tool) of
                   (Some prev, Some t) \<Rightarrow> Some (now - prev)
                 | _ \<Rightarrow> None, seen)))"

section \<open>Variances stay nonnegative\<close>

text \<open>Nonnegative, or not a number at all\<close>

definition nonneg_or_nan :: "pyfloat \<Rightarrow> bool" where
  "nonneg_or_nan x \<longleftrightarrow> \<not> x < 0"

lemma nonneg_or_nan_iff: "nonneg_or_nan x \<longleftrightarrow> x = NaN \<or> 0 \<le> x"
  by (cases x) (auto simp: nonneg_or_nan_def zero_pyfloat_def)

lemma nonneg_or_nanE:
  assumes "nonneg_or_nan x"
  obtains "x = NaN" | "x = PosInf" | q where "x = Fin q" "0 \<le> q"
  using assms by (cases x) (auto simp: nonneg_or_nan_def zero_pyfloat_def)

lemma nonneg_or_nan_simps [simp]:
  "nonneg_or_nan NaN" "nonneg_or_nan PosInf" "\<not> nonneg_or_nan NegInf"
  "nonneg_or_nan (Fin q) \<longleftrightarrow> 0 \<le> q" "nonneg_or_nan 0"
  by (auto simp: nonneg_or_nan_def zero_pyfloat_def)

lemma nonneg_or_nan_rnd: "0 \<le> q \<Longrightarrow> nonneg_or_nan (rnd q)"
  using rnd_nonneg [of q] by (simp add: nonneg_or_nan_iff zero_pyfloat_def)

lemma nonneg_or_nan_add: "nonneg_or_nan a \<Longrightarrow> nonneg_or_nan b \<Longrightarrow> nonneg_or_nan (a + b)"
  by (erule nonneg_or_nanE; erule nonneg_or_nanE) (auto simp: nonneg_or_nan_rnd)

lemma nonneg_or_nan_mult: "nonneg_or_nan a \<Longrightarrow> nonneg_or_nan b \<Longrightarrow> nonneg_or_nan (a * b)"
  by (erule nonneg_or_nanE; erule nonneg_or_nanE)
    (auto simp: nonneg_or_nan_rnd signed_inf_def)

lemma rnd_sign: "q \<le> 0 \<Longrightarrow> rnd q \<le> Fin 0"
  by (rule rnd_le_Fin) simp_all

text \<open>\<open>alpha * delta * delta\<close>, whatever \<open>delta\<close> is\<close>

lemma scaled_square_nonneg:
  assumes "fin_nonneg a"
  shows "nonneg_or_nan (a * d * d)"
proof -
  obtain q where a: "a = Fin q" "0 \<le> q" using assms by (rule fin_nonnegE)
  show ?thesis
  proof (cases d)
    case (Fin r)
    show ?thesis
    proof (cases "0 \<le> r")
      case True
      then have "nonneg_or_nan (a * d)" by (simp add: a Fin nonneg_or_nan_rnd)
      then show ?thesis by (rule nonneg_or_nan_mult) (simp add: Fin True)
    next
      case False
      then have "rnd (q * r) \<le> Fin 0" using a(2) by (intro rnd_sign) (simp add: mult_nonneg_nonpos)
      then show ?thesis using False
        by (cases "rnd (q * r)")
          (auto simp: a Fin signed_inf_def intro!: nonneg_or_nan_rnd mult_nonpos_nonpos)
    qed
  qed (use a in \<open>auto simp: signed_inf_def\<close>)
qed

definition alpha_ok :: "pyfloat \<Rightarrow> bool" where
  "alpha_ok a \<longleftrightarrow> fin_nonneg a \<and> a \<le> 1"

lemma alpha_ok_compl: "alpha_ok a \<Longrightarrow> nonneg_or_nan (1 - a)"
  by (auto simp: alpha_ok_def one_pyfloat_def minus_pyfloat_def elim!: fin_nonnegE
      intro!: nonneg_or_nan_rnd)

lemma fold_gap_nonneg:
  assumes "alpha_ok a" "nonneg_or_nan (gs_var st)" "0 \<le> gs_count st"
  shows "nonneg_or_nan (gs_var (fold_gap a gap st))" "0 < gs_count (fold_gap a gap st)"
  using assms
  by (auto simp: fold_gap_def Let_def alpha_ok_def
      intro!: nonneg_or_nan_mult nonneg_or_nan_add scaled_square_nonneg alpha_ok_compl)

definition gap_index_ok :: "ToolGapIndex \<Rightarrow> bool" where
  "gap_index_ok ti \<longleftrightarrow>
     0 \<le> tg_capacity ti \<and> alpha_ok (tg_alpha ti) \<and>
     d_ok (tg_stats ti) \<and> int (length (tg_stats ti)) \<le> tg_capacity ti \<and>
     list_all (\<lambda>(t, st). 0 < gs_count st \<and> nonneg_or_nan (gs_var st)) (tg_stats ti) \<and>
     list_all (\<lambda>(t, m, v). nonneg_or_nan v) (tg_priors ti) \<and>
     nonneg_or_nan (snd (tg_default_prior ti))"

lemma d_get_list_all: "list_all (\<lambda>(k, v). P k v) d \<Longrightarrow> d_get d k = Some v \<Longrightarrow> P k v"
  by (auto simp: d_get_def list_all_iff dest!: map_of_SomeD)

lemma tg_predict_nonneg:
  assumes "gap_index_ok ti"
  shows "nonneg_or_nan (snd (tg_predict ti tool))"
proof (cases tool)
  case None
  then show ?thesis using assms by (simp add: tg_predict_def gap_index_ok_def)
next
  case (Some t)
  have stats: "list_all (\<lambda>(t, st). nonneg_or_nan (gs_var st)) (tg_stats ti)"
    and priors: "list_all (\<lambda>(t, p). nonneg_or_nan (snd p)) (tg_priors ti)"
    using assms by (auto simp: gap_index_ok_def list_all_iff)
  show ?thesis
  proof (cases "d_get (tg_stats ti) t")
    case None
    then show ?thesis
      using assms Some d_get_list_all [OF priors, of t]
      by (cases "d_get (tg_priors ti) t") (auto simp: tg_predict_def gap_index_ok_def)
  next
    case (Some st)
    with \<open>tool = Some t\<close> d_get_list_all [OF stats, of t st] show ?thesis by (simp add: tg_predict_def)
  qed
qed

lemma list_all_drop: "list_all P xs \<Longrightarrow> list_all P (drop k xs)"
  by (auto simp: list_all_iff dest: in_set_dropD)

lemma tg_record_spec:
  assumes "gap_index_ok ti"
  shows "\<exists>ti'. tg_record tool gap ti = Inr ti' \<and> gap_index_ok ti' \<and>
    tg_capacity ti' = tg_capacity ti \<and> tg_alpha ti' = tg_alpha ti \<and>
    tg_priors ti' = tg_priors ti \<and> tg_default_prior ti' = tg_default_prior ti"
proof -
  let ?cap = "tg_capacity ti"
  let ?st = "case d_get (tg_stats ti) tool of None \<Rightarrow> new_gap_stat | Some s \<Rightarrow> s"
  let ?new = "fold_gap (tg_alpha ti) gap ?st"
  let ?P = "\<lambda>(t :: string, st). 0 < gs_count st \<and> nonneg_or_nan (gs_var st)"
  have ti: "0 \<le> ?cap" "alpha_ok (tg_alpha ti)" "d_ok (tg_stats ti)" "list_all ?P (tg_stats ti)"
    using assms by (simp_all add: gap_index_ok_def)
  have "nonneg_or_nan (gs_var ?st) \<and> 0 \<le> gs_count ?st"
    using d_get_list_all [OF ti(4), of tool] by (auto simp: new_gap_stat_def split: option.split)
  then have "?P (tool, ?new)" using fold_gap_nonneg [OF ti(2)] by simp
  moreover obtain stats where r: "d_trim ?cap (d_touch tool ?new (tg_stats ti)) = Inr stats"
    using dict_lru.trim_returns [OF ti(1)] by blast
  moreover have "stats = drop (length (d_touch tool ?new (tg_stats ti)) - nat ?cap)
      (d_touch tool ?new (tg_stats ti))"
    using r ti(1) by (simp add: d_trim_eq)
  ultimately have "list_all ?P stats"
    using ti(4) by (auto simp: d_touch_eq intro!: list_all_drop list_all_d_pop)
  moreover have "d_ok stats" "int (length stats) \<le> ?cap"
    using dict_lru.record_distinct [OF r] dict_lru.record_bounded [OF r] ti(3) by (simp_all add: d_ok_def)
  ultimately show ?thesis using r assms by (auto simp: tg_record_def gap_index_ok_def Let_def)
qed

section \<open>Confidence\<close>

definition tiny :: pyfloat where
  "tiny = rnd (1 / 1000000000)"

lemma tiny_bounds: "0 < tiny" "finite_f tiny"
proof -
  show "0 < tiny" by (simp add: tiny_def flt_eval)
  show "finite_f tiny" unfolding tiny_def
    by (rule fin_nonnegE [OF fin_nonneg_rnd_small [of "1 / 1000000000"]]) auto
qed

lemma scale_pos:
  assumes "finite_f mean"
  shows "0 < py_max2 (mean * mean) tiny" "py_max2 (mean * mean) tiny \<noteq> NaN"
proof -
  obtain q where q: "mean = Fin q" using assms by blast
  have nn: "0 \<le> mean * mean" by (simp add: q zero_pyfloat_def rnd_nonneg)
  then have "tiny \<le> py_max2 (mean * mean) tiny"
    using tiny_bounds(2) by (intro max2_ge2) (auto simp: fnonneg_not_NaN)
  then show "0 < py_max2 (mean * mean) tiny" "py_max2 (mean * mean) tiny \<noteq> NaN"
    using fless_le_trans [OF tiny_bounds(1)] fle_not_NaN by blast+
qed

text \<open>Dividing nonnegative finite numbers by a positive scale\<close>

lemma ratio_spec:
  assumes "0 < s" "s \<noteq> NaN" "0 \<le> v" "v \<noteq> PosInf"
  shows "fdiv v s = Inr (fquot v s)" "0 \<le> fquot v s"
proof -
  obtain q where v: "v = Fin q" "0 \<le> q" using assms(3,4) by (auto elim: fnonneg_cases)
  show "fdiv v s = Inr (fquot v s)" using assms(1) by (auto simp: fdiv_def zero_pyfloat_def)
  show "0 \<le> fquot v s" using assms(1,2) v
    by (cases s) (auto simp: zero_pyfloat_def rnd_nonneg)
qed

lemma ratio_mono:
  assumes "0 < s" "s \<noteq> NaN" "0 \<le> v" "v \<le> w" "w \<noteq> PosInf"
  shows "fquot v s \<le> fquot w s"
proof -
  have "0 \<le> w" using assms(3,4) by (rule fle_trans)
  then obtain r where w: "w = Fin r" "0 \<le> r" using assms(5) by (auto elim: fnonneg_cases)
  obtain q where v: "v = Fin q" "0 \<le> q" using assms(3,4) w by (auto elim!: fnonneg_cases)
  show ?thesis using assms(1,2,4) v w
    by (cases s) (auto simp: zero_pyfloat_def intro!: rnd_mono divide_right_mono)
qed

lemma one_plus_ge: "0 \<le> r \<Longrightarrow> 1 \<le> (1 + r :: pyfloat)"
  by (rule fle_add_right) (simp_all add: one_pyfloat_def zero_pyfloat_def)

lemma inverse_weight:
  assumes "1 \<le> (x :: pyfloat)"
  shows "fdiv 1 x = Inr (fquot 1 x)" "0 \<le> fquot 1 x" "fquot 1 x \<le> 1"
proof -
  from assms consider q where "x = Fin q" "1 \<le> q" | "x = PosInf"
    by (cases x) (auto simp: one_pyfloat_def)
  then show "fdiv 1 x = Inr (fquot 1 x)" "0 \<le> fquot 1 x" "fquot 1 x \<le> 1"
    by (cases; auto simp: fdiv_def zero_pyfloat_def one_pyfloat_def intro!: rnd_nonneg rnd_le_Fin)+
qed

lemma inverse_antimono:
  assumes "1 \<le> x" "x \<le> (y :: pyfloat)"
  shows "fquot 1 y \<le> fquot 1 x"
proof -
  have y: "1 \<le> y" using assms by (rule fle_trans)
  show ?thesis
  proof (cases "y = PosInf \<or> x = PosInf")
    case True
    then have "y = PosInf" using assms(2) by (cases y) auto
    then show ?thesis using inverse_weight(2) [OF assms(1)] by (simp add: one_pyfloat_def zero_pyfloat_def)
  next
    case False
    then obtain p q where "x = Fin p" "y = Fin q" "1 \<le> p" "p \<le> q"
      using assms y by (cases x; cases y) (auto simp: one_pyfloat_def)
    then show ?thesis by (auto simp: one_pyfloat_def intro!: rnd_mono divide_left_mono)
  qed
qed

lemma gap_confidence_eq:
  assumes "finite_f mean" "0 \<le> var" "var \<noteq> PosInf"
  shows "gap_confidence mean var = Inr (fquot 1 (1 + fquot var (py_max2 (mean * mean) tiny)))"
    "1 \<le> 1 + fquot var (py_max2 (mean * mean) tiny)"
proof -
  note s = scale_pos [OF assms(1)]
  note r = ratio_spec [OF s assms(2,3)]
  show ge: "1 \<le> 1 + fquot var (py_max2 (mean * mean) tiny)" by (rule one_plus_ge [OF r(2)])
  show "gap_confidence mean var = Inr (fquot 1 (1 + fquot var (py_max2 (mean * mean) tiny)))"
    using r(1) inverse_weight(1) [OF ge] by (simp add: gap_confidence_def tiny_def Let_def)
qed

section \<open>Gap measurement\<close>

text \<open>The last-seen table after a run of turns\<close>

definition seen_after ::
    "int \<Rightarrow> string option \<Rightarrow> (int \<times> pyfloat) list \<Rightarrow> (int, pyfloat) pydict \<Rightarrow> (int, pyfloat) pydict res" where
  "seen_after cap tool turns seen =
     rfold (\<lambda>(c, t) s. rbind (observe_gap s (Some c) tool t cap) (\<lambda>(g, s'). Inr s')) turns seen"

lemma observe_gap_Some:
  assumes "0 \<le> cap"
  shows "observe_gap seen (Some c) tool now cap =
    Inr (case (d_get seen c, tool) of (Some prev, Some t) \<Rightarrow> Some (now - prev) | _ \<Rightarrow> None,
         drop (length (d_touch c now seen) - nat cap) (d_touch c now seen))"
  using assms by (simp add: observe_gap_def d_trim_eq)

lemma length_d_touch: "d_ok d \<Longrightarrow> length (d_touch k v d) = card (insert k (set (d_keys d)))"
proof -
  assume "d_ok d"
  then have "distinct (d_keys (d_touch k v d))" using d_ok_touch by (simp add: d_ok_def)
  then have "length (d_keys (d_touch k v d)) = card (set (d_keys (d_touch k v d)))"
    by (simp add: distinct_card)
  also have "set (d_keys (d_touch k v d)) = insert k (set (d_keys d))" by (auto simp: d_keys_touch)
  finally show ?thesis by simp
qed

lemma seen_after_exact:
  assumes "int (card (set (d_keys seen) \<union> fst ` set turns)) \<le> cap" "d_ok seen"
  shows "\<exists>s. seen_after cap tool turns seen = Inr s \<and> d_ok s \<and>
    (\<forall>c. d_get s c = (case map_of (rev turns) c of None \<Rightarrow> d_get seen c | Some t \<Rightarrow> Some t))"
  using assms
proof (induction turns arbitrary: seen)
  case Nil
  then show ?case by (simp add: seen_after_def)
next
  case (Cons x turns)
  obtain c t where x: "x = (c, t)" by (cases x)
  let ?s = "d_touch c t seen"
  have sub: "insert c (set (d_keys seen)) \<subseteq> set (d_keys seen) \<union> fst ` set (x # turns)"
    by (auto simp: x)
  have "card (insert c (set (d_keys seen))) \<le> card (set (d_keys seen) \<union> fst ` set (x # turns))"
    using sub by (intro card_mono) auto
  then have fit: "int (length ?s) \<le> cap" "0 \<le> cap"
    using Cons.prems length_d_touch [of seen c t] by linarith+
  have step: "seen_after cap tool (x # turns) seen = seen_after cap tool turns ?s"
    using fit by (simp add: seen_after_def observe_gap_Some x)
  have "set (d_keys ?s) \<union> fst ` set turns = set (d_keys seen) \<union> fst ` set (x # turns)"
    by (auto simp: d_keys_touch x)
  then obtain s where s: "seen_after cap tool turns ?s = Inr s" "d_ok s"
      "\<forall>k. d_get s k = (case map_of (rev turns) k of None \<Rightarrow> d_get ?s k | Some u \<Rightarrow> Some u)"
    using Cons.IH [of ?s] Cons.prems by auto
  have "d_get s k = (case map_of (rev (x # turns)) k of None \<Rightarrow> d_get seen k | Some u \<Rightarrow> Some u)" for k
    using s(3) by (auto simp: x d_get_touch map_add_def split: option.split)
  with s step show ?case by auto
qed

section \<open>Properties\<close>

text \<open>On a finite mean and a nonnegative finite variance the confidence is a weight in [0, 1]
  (no division by zero, no NaN), it never grows with the variance, and a zero variance, which is
  what a tool has after its first observation, gives full confidence.\<close>

lemma gap_confidence_weight:
  assumes "finite_f mean" and "0 \<le> v" and "v \<le> w" and "w \<noteq> PosInf"
  shows "\<exists>cv cw. gap_confidence mean v = Inr cv \<and> gap_confidence mean w = Inr cw \<and>
    0 \<le> cw \<and> cw \<le> cv \<and> cv \<le> 1 \<and> gap_confidence mean 0 = Inr 1"
proof -
  let ?s = "py_max2 (mean * mean) tiny"
  have nn: "0 \<le> w" "v \<noteq> PosInf"
    using fle_trans [OF assms(2,3)] assms(3,4) by (cases w; auto)+
  note V = gap_confidence_eq [OF assms(1,2) nn(2)]
  note W = gap_confidence_eq [OF assms(1) nn(1) assms(4)]
  have "1 + fquot v ?s \<le> 1 + fquot w ?s"
    using ratio_mono [OF scale_pos [OF assms(1)] assms(2-4)]
      ratio_spec(2) [OF scale_pos [OF assms(1)] assms(2) nn(2)]
    by (intro fadd_mono_nonneg) (simp_all add: one_pyfloat_def zero_pyfloat_def)
  then have "fquot 1 (1 + fquot w ?s) \<le> fquot 1 (1 + fquot v ?s)" by (rule inverse_antimono [OF V(2)])
  moreover have "gap_confidence mean 0 = Inr 1"
  proof -
    have "fquot 0 ?s = Fin 0"
      using scale_pos [OF assms(1)] by (cases ?s) (auto simp: zero_pyfloat_def)
    then show ?thesis
      using gap_confidence_eq(1) [OF assms(1), of 0] by (simp add: zero_pyfloat_def one_pyfloat_def)
  qed
  ultimately show ?thesis
    using V(1) W(1) inverse_weight(2) [OF W(2)] inverse_weight(3) [OF V(2)] by blast
qed

text \<open>Whatever gaps a \<open>ToolGapIndex\<close> is fed (negative, infinite and NaN ones too), recording
  never raises, the table stays within its capacity, and the variance it predicts for any tool is
  never negative, so \<open>var**0.5\<close> is a real number.\<close>

lemma gap_index_invariant:
  assumes "gap_index_ok ti"
  shows "\<exists>ti'. rfold (\<lambda>(tool, gap). tg_record tool gap) observations ti = Inr ti' \<and>
    gap_index_ok ti' \<and> int (length (tg_stats ti')) \<le> tg_capacity ti \<and>
    \<not> snd (tg_predict ti' tool) < 0"
proof -
  have "\<exists>ti'. rfold (\<lambda>(tool, gap). tg_record tool gap) observations ti = Inr ti' \<and>
      gap_index_ok ti' \<and> tg_capacity ti' = tg_capacity ti"
    using assms
  proof (induction observations arbitrary: ti)
    case (Cons x xs)
    from tg_record_spec [OF Cons.prems, of "fst x" "snd x"] obtain tj where
      tj: "tg_record (fst x) (snd x) ti = Inr tj" "gap_index_ok tj" "tg_capacity tj = tg_capacity ti"
      by blast
    from Cons.IH [OF tj(2)] tj show ?case by (auto simp: case_prod_unfold)
  qed simp
  then obtain ti' where *: "rfold (\<lambda>(tool, gap). tg_record tool gap) observations ti = Inr ti'"
      "gap_index_ok ti'" "tg_capacity ti' = tg_capacity ti" by blast
  with tg_predict_nonneg [OF *(2), of tool] show ?thesis
    by (auto simp: gap_index_ok_def nonneg_or_nan_def)
qed

lemma demo_gap_index_ok: "gap_index_ok (new_tool_gap_index 2 (Fin 0) [] (Fin 2, Fin 16))"
  by (simp add: gap_index_ok_def new_tool_gap_index_def alpha_ok_def fin_nonneg_def one_pyfloat_def)

text \<open>C17: right after an observation the prediction for its tool is the updated statistic (the gap
  itself with zero variance the first time, the EWMA step afterwards), and the prediction for any
  other tool that is still in the table is unchanged.\<close>

theorem gap_index_learns:
  assumes "gap_index_ok ti" and "0 < tg_capacity ti"
  shows "\<exists>ti'. tg_record tool gap ti = Inr ti' \<and>
    tg_predict ti' (Some tool) =
      (case d_get (tg_stats ti) tool of
         None \<Rightarrow> (gap, 0)
       | Some st \<Rightarrow> let delta = gap - gs_mean st; a = tg_alpha ti in
           (gs_mean st + a * delta, (1 - a) * (gs_var st + a * delta * delta))) \<and>
    (\<forall>other. other \<noteq> tool \<longrightarrow> d_has (tg_stats ti') other \<longrightarrow>
       tg_predict ti' (Some other) = tg_predict ti (Some other))"
proof -
  let ?st = "case d_get (tg_stats ti) tool of None \<Rightarrow> new_gap_stat | Some s \<Rightarrow> s"
  let ?t = "d_touch tool (fold_gap (tg_alpha ti) gap ?st) (tg_stats ti)"
  have d: "distinct (d_keys (tg_stats ti))" using assms(1) by (simp add: gap_index_ok_def d_ok_def)
  obtain stats where r: "d_trim (tg_capacity ti) ?t = Inr stats"
    using dict_lru.trim_returns [of "tg_capacity ti" ?t] assms(2) by auto
  then have rec: "tg_record tool gap ti = Inr (ti\<lparr>tg_stats := stats\<rparr>)" by (simp add: tg_record_def Let_def)
  have new: "d_get stats tool = Some (fold_gap (tg_alpha ti) gap ?st)"
    by (rule dict_lru.record_newest(2) [OF r assms(2) d])
  have counted: "0 < gs_count st" if "d_get (tg_stats ti) tool = Some st" for st
    using d_get_list_all [of "\<lambda>t st. 0 < gs_count st \<and> nonneg_or_nan (gs_var st)" "tg_stats ti" tool st]
      assms(1) that by (simp add: gap_index_ok_def)
  have "d_get stats other = d_get (tg_stats ti) other" if "other \<noteq> tool" "d_has stats other" for other
    using dict_lru.lookup_trim [OF r _ that(2) [unfolded d_has_def]] d_ok_touch [of "tg_stats ti"] d that(1)
    by (simp add: d_get_touch d_ok_def)
  then have "tg_predict (ti\<lparr>tg_stats := stats\<rparr>) (Some other) = tg_predict ti (Some other)"
    if "other \<noteq> tool" "d_has stats other" for other
    using that by (cases "d_get (tg_stats ti) other"; cases "d_get (tg_priors ti) other")
      (simp_all add: tg_predict_def)
  moreover have "tg_predict (ti\<lparr>tg_stats := stats\<rparr>) (Some tool) =
      (case d_get (tg_stats ti) tool of
         None \<Rightarrow> (gap, 0)
       | Some st \<Rightarrow> let delta = gap - gs_mean st; a = tg_alpha ti in
           (gs_mean st + a * delta, (1 - a) * (gs_var st + a * delta * delta)))"
    using new counted
    by (cases "d_get (tg_stats ti) tool") (auto simp: tg_predict_def fold_gap_def new_gap_stat_def Let_def)
  ultimately show ?thesis using rec by auto
qed

theorem gap_index_learns_witness:
  "\<exists>ti'. tg_record ''grep'' (Fin 3) (new_tool_gap_index 2 (Fin 0) [] (Fin 2, Fin 16)) = Inr ti' \<and>
    tg_predict ti' (Some ''grep'') = (Fin 3, 0)"
  using gap_index_learns [OF demo_gap_index_ok, of "''grep''" "Fin 3"]
  by (auto simp: new_tool_gap_index_def)

text \<open>While the distinct conversations fit in the last-seen table, the gap measured for a turn
  is exactly its arrival minus the arrival of the conversation's previous turn, and no gap is
  reported for a first turn or when no tool is known.\<close>

lemma observed_gap_is_exact:
  assumes "int (card (insert c (fst ` set turns))) \<le> cap"
  shows "\<exists>seen seen'. seen_after cap t turns [] = Inr seen \<and>
    observe_gap seen (Some c) tool now cap =
      Inr (case (map_of (rev turns) c, tool) of (Some prev, Some _) \<Rightarrow> Some (now - prev) | _ \<Rightarrow> None,
           seen')"
proof -
  have "card (fst ` set turns) \<le> card (insert c (fst ` set turns))" by (intro card_mono) auto
  then have fit: "int (card (set (d_keys []) \<union> fst ` set turns)) \<le> cap" "0 \<le> cap"
    using assms by auto
  from seen_after_exact [OF fit(1), of t] obtain seen where
    s: "seen_after cap t turns [] = Inr seen"
      "\<And>k. d_get seen k = (case map_of (rev turns) k of None \<Rightarrow> d_get [] k | Some u \<Rightarrow> Some u)"
    by auto
  show ?thesis using s(1) observe_gap_Some [OF fit(2), of seen c tool now]
    by (cases "map_of (rev turns) c") (simp_all add: s(2))
qed

end
