(* ===== verification/Routing.thy ===== *)
theory Routing
  imports Router_Index Tool_Gaps
begin

text \<open>
  The routing policies of \<open>src/bench/sim/policies.py\<close>.

  A policy is a function from the request as the router sees it, the nodes, the clock and
  the cost parameters to a placement. Policies that are objects with attributes thread them
  as a state; \<open>policy_obj\<close> is the object \<open>build_policy\<close> returns and \<open>policy_call\<close> its
  \<open>__call__\<close>. The contract the engine relies on is the locale \<open>routing_policy\<close>: a
  placement names a node of the cluster, and asks to seed a node only if it is not the hot
  one. Every policy is an interpretation of it.
\<close>

section \<open>The request as the router sees it\<close>

record RequestView =
  v_blocks :: "int list"
  v_prompt_tokens :: int
  v_num_messages :: int
  v_has_tool_messages :: bool
  v_last_message_tokens :: int
  v_label :: string
  v_conversation_id :: "int option"
  v_last_tool_name :: "string option"

definition RAG_USER_TOKENS :: int where
  "RAG_USER_TOKENS = 128"

definition classify :: "RequestView \<Rightarrow> string" where
  "classify req =
     (if v_has_tool_messages req then ''tool''
      else if v_num_messages req \<le> 1 then ''oneshot''
      else if RAG_USER_TOKENS \<le> v_last_message_tokens req then ''rag'' else ''tool'')"

type_synonym 's policy =
  "RequestView \<Rightarrow> node list \<Rightarrow> pyfloat \<Rightarrow> CostParams \<Rightarrow> 's \<Rightarrow> (Placement \<times> 's) res"

definition DEFAULT_SATURATION_DEPTH :: int where
  "DEFAULT_SATURATION_DEPTH = 8"

section \<open>Round robin and cache-local\<close>

definition round_robin :: "int policy" where
  "round_robin req nodes now ps nxt =
     (if nodes = [] then Inl ZeroDivisionError
      else rbind (py_index nodes (nxt mod int (length nodes))) (\<lambda>n.
           rbind (hot_node (v_blocks req) nodes) (\<lambda>hot.
           rbind (predict (v_blocks req) n now ps hot False) (\<lambda>p. Inr (p, nxt + 1)))))"

definition cache_local ::
    "RequestView \<Rightarrow> node list \<Rightarrow> pyfloat \<Rightarrow> CostParams \<Rightarrow> Placement res" where
  "cache_local req nodes now ps =
     rbind (hot_node (v_blocks req) nodes) (\<lambda>hot. predict (v_blocks req) hot now ps hot False)"

section \<open>Transfer-aware\<close>

definition nominal_service :: "CostParams \<Rightarrow> pyfloat" where
  "nominal_service ps = prefill_fixed ps + inter_token ps * Fin 40"

definition quantized_wait :: "node \<Rightarrow> pyfloat \<Rightarrow> CostParams \<Rightarrow> pyfloat res" where
  "quantized_wait n now ps =
     (let nominal = nominal_service ps; exact = wait n now
      in if 0 < nominal
         then rbind (fdiv exact nominal) (\<lambda>r. rbind (py_round r) (\<lambda>k. int_times k nominal))
         else Inr exact)"

text \<open>A choice re-scored with the coarse wait\<close>

definition scored ::
    "int list \<Rightarrow> pyfloat \<Rightarrow> CostParams \<Rightarrow> node \<Rightarrow> node \<times> bool \<Rightarrow> Placement res" where
  "scored blocks now ps hot c =
     rbind (predict blocks (fst c) now ps hot (snd c)) (\<lambda>p.
     rbind (quantized_wait (fst c) now ps) (\<lambda>w.
       Inr (mk_placement (p_node_id p) (p_transfer p) (p_regime p)
              (p_ttft p - wait (fst c) now + w))))"

definition keep_better :: "Placement \<Rightarrow> Placement option \<Rightarrow> Placement option" where
  "keep_better s best =
     (case best of None \<Rightarrow> Some s | Some b \<Rightarrow> if placement_less s b then Some s else Some b)"

definition transfer_aware ::
    "RequestView \<Rightarrow> node list \<Rightarrow> pyfloat \<Rightarrow> CostParams \<Rightarrow> Placement res" where
  "transfer_aware req nodes now ps =
     rbind (hot_node (v_blocks req) nodes) (\<lambda>hot.
     rbind (rfold (\<lambda>c best. rbind (scored (v_blocks req) now ps hot c) (\<lambda>s. Inr (keep_better s best)))
              (choices True hot nodes) None)
       (\<lambda>best. case best of None \<Rightarrow> Inl AssertionError | Some p \<Rightarrow> Inr p))"

section \<open>Weighted scorers\<close>

record WeightedScorers =
  w_precise :: bool
  w_prefix_weight :: pyfloat
  w_load_weight :: pyfloat
  w_saturation_depth :: int
  w_index_capacity :: int
  w_index :: "RouterIndex option"

definition new_weighted_scorers :: "bool \<Rightarrow> WeightedScorers" where
  "new_weighted_scorers precise =
     \<lparr>w_precise = precise, w_prefix_weight = Fin 2, w_load_weight = Fin 1,
      w_saturation_depth = DEFAULT_SATURATION_DEPTH, w_index_capacity = 2048, w_index = None\<rparr>"

text \<open>\<open>a / b\<close> of two integers, \<open>b\<close> not zero\<close>

definition prefix_score :: "WeightedScorers \<Rightarrow> node \<Rightarrow> int list \<Rightarrow> pyfloat res" where
  "prefix_score ws n req_blocks =
     (if req_blocks = [] then Inr 0
      else if w_precise ws
      then Inr (rnd (of_nat (matched n req_blocks) / of_nat (length req_blocks)))
      else case w_index ws of
          None \<Rightarrow> Inl AssertionError
        | Some ri \<Rightarrow> rbind (ri_matched ri (node_id n) req_blocks) (\<lambda>m.
            Inr (rnd (of_nat m / of_nat (length req_blocks)))))"

text \<open>\<open>{n.node_id: _quantized_wait(n, now, params) for n in nodes}\<close> and \<open>waits[n.node_id]\<close>\<close>

definition poll_waits :: "node list \<Rightarrow> pyfloat \<Rightarrow> CostParams \<Rightarrow> (int, pyfloat) pydict res" where
  "poll_waits nodes now ps =
     rfold (\<lambda>n d. rbind (quantized_wait n now ps) (\<lambda>w. Inr (d_set (node_id n) w d))) nodes []"

definition wait_at :: "(int, pyfloat) pydict \<Rightarrow> node \<Rightarrow> pyfloat res" where
  "wait_at waits n = (case d_get waits (node_id n) of None \<Rightarrow> Inl KeyError | Some w \<Rightarrow> Inr w)"

fun rfilter :: "('a \<Rightarrow> bool res) \<Rightarrow> 'a list \<Rightarrow> 'a list res" where
  "rfilter P [] = Inr []"
| "rfilter P (x # xs) =
     rbind (P x) (\<lambda>b. rbind (rfilter P xs) (\<lambda>ys. Inr (if b then x # ys else ys)))"

definition total_score ::
    "WeightedScorers \<Rightarrow> int list \<Rightarrow> (int, pyfloat) pydict \<Rightarrow> pyfloat \<Rightarrow> pyfloat \<Rightarrow> node \<Rightarrow> pyfloat res" where
  "total_score ws req_blocks waits lo hi n =
     rbind (if feq hi lo then Inr 1
            else rbind (wait_at waits n) (\<lambda>w. rbind (fdiv (w - lo) (hi - lo)) (\<lambda>r. Inr (1 - r))))
       (\<lambda>load. rbind (prefix_score ws n req_blocks) (\<lambda>prefix.
          Inr (w_prefix_weight ws * prefix + w_load_weight ws * load)))"

text \<open>\<open>key(b) < key(x)\<close> for \<open>key = (score(n), -n.node_id)\<close>, with the score evaluated once\<close>

definition better_score :: "pyfloat \<times> node \<Rightarrow> pyfloat \<times> node \<Rightarrow> bool" where
  "better_score x b \<longleftrightarrow>
     (if feq (fst b) (fst x) then - node_id (snd b) < - node_id (snd x) else fst b < fst x)"

text \<open>The saturation filter, falling back to all nodes\<close>

definition unsaturated ::
    "node list \<Rightarrow> (int, pyfloat) pydict \<Rightarrow> pyfloat \<Rightarrow> node list res" where
  "unsaturated nodes waits limit =
     rbind (rfilter (\<lambda>n. rbind (wait_at waits n) (\<lambda>w. Inr (w \<le> limit))) nodes)
       (\<lambda>cs. Inr (if cs = [] then nodes else cs))"

definition pick_best_scored ::
    "WeightedScorers \<Rightarrow> int list \<Rightarrow> (int, pyfloat) pydict \<Rightarrow> node list \<Rightarrow> node res" where
  "pick_best_scored ws req_blocks waits candidates =
     rbind (rmap (wait_at waits) candidates) (\<lambda>cw.
     rbind (select_by (\<lambda>x b. x < b) cw) (\<lambda>lo.
     rbind (select_by (\<lambda>x b. b < x) cw) (\<lambda>hi.
     rbind (rmap (\<lambda>n. rbind (total_score ws req_blocks waits lo hi n) (\<lambda>s. Inr (s, n))) candidates)
       (\<lambda>scores. rbind (select_by better_score scores) (\<lambda>b. Inr (snd b))))))"

definition with_index :: "nat \<Rightarrow> WeightedScorers \<Rightarrow> WeightedScorers" where
  "with_index num_nodes ws =
     (case w_index ws of
        None \<Rightarrow> ws\<lparr>w_index := Some (new_router_index num_nodes (w_index_capacity ws))\<rparr>
      | Some ri \<Rightarrow> ws)"

definition record_choice :: "int \<Rightarrow> int list \<Rightarrow> WeightedScorers \<Rightarrow> WeightedScorers res" where
  "record_choice nid req_blocks ws =
     (if w_precise ws then Inr ws
      else case w_index ws of
          None \<Rightarrow> Inl AssertionError
        | Some ri \<Rightarrow> rbind (ri_record nid req_blocks ri) (\<lambda>ri'. Inr (ws\<lparr>w_index := Some ri'\<rparr>)))"

definition weighted_scorers :: "WeightedScorers policy" where
  "weighted_scorers req nodes now ps ws0 =
     (let ws = with_index (length nodes) ws0 in
      rbind (poll_waits nodes now ps) (\<lambda>waits.
      rbind (int_times (w_saturation_depth ws) (nominal_service ps)) (\<lambda>limit.
      rbind (unsaturated nodes waits limit) (\<lambda>candidates.
      rbind (pick_best_scored ws (v_blocks req) waits candidates) (\<lambda>best.
      rbind (record_choice (node_id best) (v_blocks req) ws) (\<lambda>ws'.
      rbind (hot_node (v_blocks req) nodes) (\<lambda>hot.
      rbind (predict (v_blocks req) best now ps hot False) (\<lambda>p. Inr (p, ws')))))))))"

section \<open>Class-aware\<close>

definition least_loaded :: "node list \<Rightarrow> pyfloat \<Rightarrow> CostParams \<Rightarrow> node res" where
  "least_loaded nodes now ps =
     rbind (rmap (\<lambda>n. rbind (quantized_wait n now ps) (\<lambda>w. Inr (w, n))) nodes) (\<lambda>keyed.
     rbind (select_by (\<lambda>x b. if feq (fst x) (fst b) then node_id (snd x) < node_id (snd b)
                             else fst x < fst b) keyed) (\<lambda>x. Inr (snd x)))"

definition class_aware ::
    "RequestView \<Rightarrow> node list \<Rightarrow> pyfloat \<Rightarrow> CostParams \<Rightarrow> Placement res" where
  "class_aware req nodes now ps =
     (let kind = classify req; blocks = v_blocks req in
      if kind = ''oneshot'' then
        rbind (least_loaded nodes now ps) (\<lambda>n.
        rbind (hot_node blocks nodes) (\<lambda>hot. predict blocks n now ps hot False))
      else if kind = ''rag'' then
        rbind (hot_node blocks nodes) (\<lambda>hot.
        rbind (int_times DEFAULT_SATURATION_DEPTH (nominal_service ps)) (\<lambda>limit.
        rbind (if 0 < matched hot blocks
               then rbind (quantized_wait hot now ps) (\<lambda>w. Inr (w \<le> limit)) else Inr False) (\<lambda>stay.
          if stay then predict blocks hot now ps hot False else transfer_aware req nodes now ps)))
      else transfer_aware req nodes now ps)"

section \<open>The contract of a policy\<close>

text \<open>A placement names a node, and seeds it only if it is not the hot one.\<close>

definition targets :: "int list \<Rightarrow> node list \<Rightarrow> Placement \<Rightarrow> bool" where
  "targets blocks nodes p \<longleftrightarrow>
     (\<exists>hot. hot_node blocks nodes = Inr hot \<and>
        (\<exists>n \<in> set nodes. p_node_id p = node_id n \<and> (p_transfer p \<longrightarrow> node_id n \<noteq> node_id hot)))"

locale routing_policy =
  fixes call :: "'s policy"
  assumes call_targets:
    "call req nodes now ps s = Inr (p, s') \<Longrightarrow> targets (v_blocks req) nodes p"
begin

lemma call_node:
  assumes "call req nodes now ps s = Inr (p, s')"
  obtains n where "n \<in> set nodes" "p_node_id p = node_id n"
  using call_targets [OF assms] by (auto simp: targets_def)

lemma call_transfer:
  assumes "call req nodes now ps s = Inr (p, s')" "hot_node (v_blocks req) nodes = Inr hot"
    and "p_transfer p"
  shows "p_node_id p \<noteq> node_id hot"
  using call_targets [OF assms(1)] assms(2,3) by (auto simp: targets_def)

end

text \<open>A policy without attributes\<close>

definition stateless ::
    "(RequestView \<Rightarrow> node list \<Rightarrow> pyfloat \<Rightarrow> CostParams \<Rightarrow> Placement res) \<Rightarrow> 's policy" where
  "stateless f req nodes now ps s = rbind (f req nodes now ps) (\<lambda>p. Inr (p, s))"

lemma routing_policy_stateless:
  assumes "\<And>req nodes now ps p. f req nodes now ps = Inr p \<Longrightarrow> targets (v_blocks req) nodes p"
  shows "routing_policy (stateless f)"
  using assms by unfold_locales (auto simp: stateless_def)

lemma predict_fields:
  "predict bs n now ps hot tr = Inr p \<Longrightarrow>
   p_node_id p = node_id n \<and> p_transfer p = tr \<and> p_retain_until p = 0 \<and> p_priority p = None"
  by (auto simp: predict_def Let_def mk_placement_def)

lemma targets_predict:
  "hot_node bs nodes = Inr hot \<Longrightarrow> n \<in> set nodes \<Longrightarrow> tr \<longrightarrow> node_id n \<noteq> node_id hot \<Longrightarrow>
   predict bs n now ps hot' tr = Inr p \<Longrightarrow> targets bs nodes p"
  by (auto simp: targets_def dest!: predict_fields)

lemma py_index_mem: "py_index xs i = Inr x \<Longrightarrow> x \<in> set xs"
  by (auto simp: py_index_def dest: py_pos_less)

lemma round_robin_targets:
  "round_robin req nodes now ps s = Inr (p, s') \<Longrightarrow> targets (v_blocks req) nodes p"
  by (auto simp: round_robin_def intro: targets_predict dest: py_index_mem split: if_splits)

lemma hot_node_mem: "hot_node bs nodes = Inr hot \<Longrightarrow> hot \<in> set nodes"
  unfolding hot_node_def by (rule select_by_mem)

lemma cache_local_targets:
  "cache_local req nodes now ps = Inr p \<Longrightarrow> targets (v_blocks req) nodes p"
  by (auto simp: cache_local_def intro: targets_predict hot_node_mem)

lemma best_placement_targets:
  assumes "best_placement bs nodes now ps atr = Inr p"
  shows "targets bs nodes p"
proof -
  from assms obtain hot cs where hot: "hot_node bs nodes = Inr hot"
      and cs: "rmap (\<lambda>(n, tr). predict bs n now ps hot tr) (choices atr hot nodes) = Inr cs"
      and p: "select_by placement_less cs = Inr p"
    by (auto simp: best_placement_def)
  from select_by_mem [OF p] obtain n tr where "n \<in> set nodes" "tr \<longrightarrow> node_id n \<noteq> node_id hot"
      "predict bs n now ps hot tr = Inr p"
    unfolding rmap_choices [OF cs] by blast
  then show ?thesis by (rule targets_predict [OF hot])
qed

section \<open>The transfer-aware argmin\<close>

text \<open>The loop is the first-wins minimum of the re-scored choices.\<close>

lemma keep_better_fold:
  assumes "rfold (\<lambda>c best. rbind (f c) (\<lambda>s. Inr (keep_better s best))) cs (Some b) = Inr r"
  shows "\<exists>ss. rmap f cs = Inr ss \<and> r = Some (select_from placement_less b ss)"
  using assms
proof (induction cs arbitrary: b)
  case (Cons c cs)
  then obtain s where s: "f c = Inr s"
      "rfold (\<lambda>c best. rbind (f c) (\<lambda>s. Inr (keep_better s best))) cs
         (Some (if placement_less s b then s else b)) = Inr r"
    by (auto simp: keep_better_def split: if_splits)
  from Cons.IH [OF s(2)] s(1) show ?case by auto
qed simp

lemma transfer_aware_select:
  assumes "transfer_aware req nodes now ps = Inr p"
  obtains hot ss where "hot_node (v_blocks req) nodes = Inr hot"
    "rmap (scored (v_blocks req) now ps hot) (choices True hot nodes) = Inr ss"
    "select_by placement_less ss = Inr p"
proof -
  let ?step = "\<lambda>hot c best. rbind (scored (v_blocks req) now ps hot c) (\<lambda>s. Inr (keep_better s best))"
  from assms obtain hot where hot: "hot_node (v_blocks req) nodes = Inr hot"
      and f: "rfold (?step hot) (choices True hot nodes) None = Inr (Some p)"
    by (auto simp: transfer_aware_def split: option.splits)
  then obtain c cs where cc: "choices True hot nodes = c # cs" by (cases "choices True hot nodes") auto
  with f obtain s where s: "scored (v_blocks req) now ps hot c = Inr s"
      "rfold (?step hot) cs (Some s) = Inr (Some p)"
    by (auto simp: keep_better_def)
  from keep_better_fold [OF s(2)] s(1) cc hot that show thesis by auto
qed

lemma scored_fields:
  assumes "scored bs now ps hot c = Inr s"
  shows "p_node_id s = node_id (fst c)" "p_transfer s = snd c" "p_priority s = None" "p_retain_until s = 0"
  using assms by (auto simp: scored_def mk_placement_def dest!: predict_fields)

lemma scored_choices:
  assumes "rmap (scored bs now ps hot) (choices atr hot nodes) = Inr ss"
  shows "s \<in> set ss \<longleftrightarrow> (\<exists>n \<in> set nodes. \<exists>tr. (tr \<longrightarrow> atr \<and> node_id n \<noteq> node_id hot) \<and>
    scored bs now ps hot (n, tr) = Inr s)"
  using rmap_choices [of "\<lambda>n tr. scored bs now ps hot (n, tr)" atr hot nodes ss s] assms by simp

lemma transfer_aware_targets:
  assumes "transfer_aware req nodes now ps = Inr p"
  shows "targets (v_blocks req) nodes p"
proof -
  obtain hot ss where hot: "hot_node (v_blocks req) nodes = Inr hot"
    and ss: "rmap (scored (v_blocks req) now ps hot) (choices True hot nodes) = Inr ss"
    and p: "select_by placement_less ss = Inr p"
    using assms by (rule transfer_aware_select)
  from select_by_mem [OF p] obtain n tr where "n \<in> set nodes" "tr \<longrightarrow> node_id n \<noteq> node_id hot"
      "scored (v_blocks req) now ps hot (n, tr) = Inr p"
    unfolding scored_choices [OF ss] by blast
  with hot show ?thesis by (auto simp: targets_def scored_fields)
qed

section \<open>Class-aware and weighted targets\<close>

lemma least_loaded_spec:
  assumes "least_loaded nodes now ps = Inr n"
  obtains w keyed where "n \<in> set nodes" "quantized_wait n now ps = Inr w"
    "rmap (\<lambda>n. rbind (quantized_wait n now ps) (\<lambda>w. Inr (w, n))) nodes = Inr keyed"
    "select_by (\<lambda>x b. if feq (fst x) (fst b) then node_id (snd x) < node_id (snd b)
                       else fst x < fst b) keyed = Inr (w, n)"
proof -
  from assms obtain keyed x where k: "rmap (\<lambda>n. rbind (quantized_wait n now ps) (\<lambda>w. Inr (w, n))) nodes = Inr keyed"
    "select_by (\<lambda>x b. if feq (fst x) (fst b) then node_id (snd x) < node_id (snd b)
                       else fst x < fst b) keyed = Inr x" "n = snd x"
    by (auto simp: least_loaded_def)
  from select_by_mem [OF k(2)] have "\<exists>m \<in> set nodes. rbind (quantized_wait m now ps) (\<lambda>w. Inr (w, m)) = Inr x"
    unfolding rmap_Inr_set [OF k(1)] .
  with k that show thesis by auto
qed

lemma class_aware_targets:
  assumes "class_aware req nodes now ps = Inr p"
  shows "targets (v_blocks req) nodes p"
proof -
  have "targets (v_blocks req) nodes p" if "least_loaded nodes now ps = Inr n"
      "hot_node (v_blocks req) nodes = Inr hot" "predict (v_blocks req) n now ps hot False = Inr p" for n hot
    by (rule least_loaded_spec [OF that(1)], rule targets_predict [OF that(2) _ _ that(3)]) simp_all
  moreover have "targets (v_blocks req) nodes p"
    if "hot_node (v_blocks req) nodes = Inr hot" "predict (v_blocks req) hot now ps hot False = Inr p" for hot
    using targets_predict [OF that(1) hot_node_mem [OF that(1)] _ that(2)] by simp
  ultimately show ?thesis
    using assms transfer_aware_targets [of req nodes now ps p]
    by (auto simp: class_aware_def Let_def split: if_splits)
qed

lemma rfilter_subset: "rfilter P xs = Inr ys \<Longrightarrow> set ys \<subseteq> set xs"
  by (induction xs arbitrary: ys) (auto split: if_splits)

lemma rfilter_Inr_set: "rfilter P xs = Inr ys \<Longrightarrow> x \<in> set ys \<longleftrightarrow> x \<in> set xs \<and> P x = Inr True"
proof (induction xs arbitrary: ys)
  case (Cons a xs)
  then obtain b zs where z: "P a = Inr b" "rfilter P xs = Inr zs" "ys = (if b then a # zs else zs)" by auto
  with Cons.IH [OF z(2)] show ?case by auto
qed simp

lemma unsaturated_subset: "unsaturated nodes waits limit = Inr cs \<Longrightarrow> set cs \<subseteq> set nodes"
  by (auto simp: unsaturated_def dest: rfilter_subset split: if_splits)

lemma pick_best_scored_mem: "pick_best_scored ws bs waits cs = Inr n \<Longrightarrow> n \<in> set cs"
  by (auto simp: pick_best_scored_def rmap_Inr_set dest!: select_by_mem)

lemma weighted_scorers_spec:
  assumes "weighted_scorers req nodes now ps ws0 = Inr (p, ws')"
  obtains ws waits limit cs n hot where
    "ws = with_index (length nodes) ws0" "poll_waits nodes now ps = Inr waits"
    "int_times (w_saturation_depth ws) (nominal_service ps) = Inr limit"
    "unsaturated nodes waits limit = Inr cs" "pick_best_scored ws (v_blocks req) waits cs = Inr n"
    "record_choice (node_id n) (v_blocks req) ws = Inr ws'" "n \<in> set nodes" "n \<in> set cs"
    "hot_node (v_blocks req) nodes = Inr hot" "predict (v_blocks req) n now ps hot False = Inr p"
proof -
  from assms obtain waits limit cs n hot where *: "poll_waits nodes now ps = Inr waits"
    "int_times (w_saturation_depth (with_index (length nodes) ws0)) (nominal_service ps) = Inr limit"
    "unsaturated nodes waits limit = Inr cs"
    "pick_best_scored (with_index (length nodes) ws0) (v_blocks req) waits cs = Inr n"
    "record_choice (node_id n) (v_blocks req) (with_index (length nodes) ws0) = Inr ws'"
    "hot_node (v_blocks req) nodes = Inr hot" "predict (v_blocks req) n now ps hot False = Inr p"
    by (auto simp: weighted_scorers_def Let_def)
  then have "n \<in> set cs" "n \<in> set nodes" using pick_best_scored_mem unsaturated_subset by blast+
  with * that [OF refl] show thesis by blast
qed

lemma weighted_scorers_targets:
  assumes "weighted_scorers req nodes now ps ws0 = Inr (p, ws')"
  shows "targets (v_blocks req) nodes p"
  by (rule weighted_scorers_spec [OF assms], rule targets_predict) auto

interpretation rr: routing_policy round_robin
  by unfold_locales (rule round_robin_targets)

interpretation local: routing_policy "stateless cache_local"
  by (rule routing_policy_stateless) (rule cache_local_targets)

interpretation transfer: routing_policy "stateless transfer_aware"
  by (rule routing_policy_stateless) (rule transfer_aware_targets)

interpretation weighted: routing_policy weighted_scorers
  by unfold_locales (rule weighted_scorers_targets)

interpretation classes: routing_policy "stateless class_aware"
  by (rule routing_policy_stateless) (rule class_aware_targets)

end
