(* ===== verification/Coarse.thy ===== *)
theory Coarse
  imports Routing
begin

text \<open>
  What the coarse load signal of \<open>_quantized_wait\<close> does to the policies of
  \<open>src/bench/sim/policies.py\<close> that read it: it is a nonnegative number whenever queues
  are shorter than \<open>2 ^ 32\<close> seconds; \<open>transfer_aware\<close> is the argmin of the re-scored
  choices and coincides with the oracle on an idle cluster; a one-shot goes to a least
  loaded node; the saturation filter of \<open>WeightedScorers\<close> is respected.
\<close>

section \<open>The load signal\<close>

text \<open>The nominal service time is zero or between \<open>2 ^ -20\<close> and \<open>2 ^ 32\<close> seconds.\<close>

definition load_ok :: "CostParams \<Rightarrow> bool" where
  "load_ok ps \<longleftrightarrow>
     params_ok ps \<and>
     (case nominal_service ps of
        Fin q \<Rightarrow> q = 0 \<or> 1 / 1048576 \<le> q \<and> q \<le> 4294967296
      | _ \<Rightarrow> False)"

definition calm :: "pyfloat \<Rightarrow> node \<Rightarrow> bool" where
  "calm now n \<longleftrightarrow> wait n now \<le> Fin 4294967296"

lemma rnd_finite_below:
  assumes "0 \<le> q" "q \<le> 2 ^ 84"
  shows "\<exists>r. rnd q = Fin r \<and> 0 \<le> r"
proof -
  have "rnd (2 ^ 84) = Fin (2 ^ 84)" by (simp add: flt_eval)
  then have "rnd q \<le> Fin (2 ^ 84)" using assms(2) by (intro rnd_le_Fin)
  then show ?thesis using rnd_nonneg [OF assms(1)] by (cases "rnd q") auto
qed

lemma coarse_units:
  assumes "0 \<le> e" "e \<le> 4294967296" "1 / 1048576 \<le> q"
  shows "\<exists>r. rnd (e / q) = Fin r \<and> 0 \<le> round_even r \<and> round_even r \<le> 2 ^ 52"
proof -
  have q: "0 < q" "1 \<le> q * 1048576" using assms(3) by simp_all
  have "e * 1 \<le> 4294967296 * (q * 1048576)" using assms(1,2) q(2) by (intro mult_mono) simp_all
  then have "e / q \<le> 4503599627370496" using q(1) by (simp add: pos_divide_le_eq mult.commute)
  moreover have "rnd 4503599627370496 = Fin 4503599627370496" by (rule rnd_numeral) simp
  ultimately have "rnd (e / q) \<le> Fin 4503599627370496" by (rule rnd_le_Fin)
  moreover have "Fin 0 \<le> rnd (e / q)" using assms(1) q(1) by (intro rnd_nonneg) simp
  ultimately obtain r where "rnd (e / q) = Fin r" "0 \<le> r" "r \<le> of_int 4503599627370496"
    by (cases "rnd (e / q)") auto
  then show ?thesis
    using round_even_ge_of_int [of 0 r] round_even_le_of_int [of r 4503599627370496] by simp
qed

lemma quantized_wait_spec:
  assumes "load_ok ps" "calm now n"
  obtains w where "quantized_wait n now ps = Inr w" "0 \<le> w" "wait n now = 0 \<longrightarrow> w = 0"
    "finite_f w" "is_f64 w"
proof -
  from assms(1) obtain q where q: "nominal_service ps = Fin q"
      "q = 0 \<or> 1 / 1048576 \<le> q \<and> q \<le> 4294967296"
    by (auto simp: load_ok_def split: pyfloat.splits)
  from assms(2) obtain e where e: "wait n now = Fin e" "0 \<le> e" "e \<le> 4294967296"
    using wait_nonneg [of n now] by (cases "wait n now") (auto simp: calm_def zero_pyfloat_def)
  show thesis
  proof (cases "q = 0")
    case True
    then have "quantized_wait n now ps = Inr (wait n now)"
      using q(1) by (simp add: quantized_wait_def zero_pyfloat_def)
    then show thesis using that wait_nonneg is_f64_wait e(1) by blast
  next
    case False
    then have pos: "1 / 1048576 \<le> q" "q \<le> 4294967296" using q(2) by simp_all
    have "0 < q" by (rule less_le_trans [OF _ pos(1)]) simp
    obtain r where r: "rnd (e / q) = Fin r" "0 \<le> round_even r" "round_even r \<le> 2 ^ 52"
      using coarse_units [OF e(2,3) pos(1)] by blast
    have "rnd (of_int (round_even r)) = Fin (of_int (round_even r))" using r by (intro rnd_of_int) simp
    then have w: "quantized_wait n now ps = Inr (rnd (of_int (round_even r) * q))"
      using \<open>0 < q\<close> by (simp add: quantized_wait_def q(1) e(1) r(1) fdiv_def int_times_def
          float_of_int_def zero_pyfloat_def Let_def)
    have "r = 0" if "e = 0" using r(1) that by simp
    then have "e = 0 \<Longrightarrow> rnd (of_int (round_even r) * q) = Fin 0" using round_even_of_int [of 0] by simp
    moreover have "\<exists>x. rnd (of_int (round_even r) * q) = Fin x \<and> 0 \<le> x"
    proof (rule rnd_finite_below)
      show "0 \<le> of_int (round_even r) * q" using r(2) \<open>0 < q\<close> by simp
      have "rat_of_int (round_even r) \<le> rat_of_int (2 ^ 52)" using r(3) by (simp only: of_int_le_iff)
      then have "of_int (round_even r) * q \<le> of_int (2 ^ 52) * 4294967296"
        using pos \<open>0 < q\<close> by (intro mult_mono) simp_all
      then show "of_int (round_even r) * q \<le> 2 ^ 84" by simp
    qed
    ultimately show thesis using that w e(1) is_f64_rnd by (auto simp: zero_pyfloat_def)
  qed
qed

lemma calm_wait_finite: "calm now n \<Longrightarrow> \<exists>e. wait n now = Fin e \<and> 0 \<le> e \<and> e \<le> 4294967296"
  using wait_nonneg [of n now] by (cases "wait n now") (auto simp: calm_def zero_pyfloat_def)

section \<open>Re-scored choices\<close>

lemma rescore_not_NaN:
  assumes "0 \<le> t" "0 \<le> e" "e \<le> 4294967296" "0 \<le> (w :: pyfloat)"
  shows "t - Fin e + w \<noteq> NaN"
proof (cases t)
  case (Fin x)
  then have "0 \<le> x" using assms(1) by (simp add: zero_pyfloat_def)
  then have "rnd (- 4294967296) \<le> rnd (x - e)" using assms(3) by (intro rnd_mono) simp
  moreover have "rnd (- 4294967296) = Fin (- 4294967296)" using rnd_of_int [of "- 4294967296"] by simp
  ultimately have "rnd (x - e) \<noteq> NegInf" by auto
  then show ?thesis using assms(4)
    by (cases "rnd (x - e)"; cases w) (auto simp: Fin minus_pyfloat_def zero_pyfloat_def)
qed (use assms in \<open>cases w; auto simp: minus_pyfloat_def zero_pyfloat_def\<close>)+

lemma scored_returns:
  assumes "query_ok ps now bs" "load_ok ps" "calm now (fst c)"
  shows "\<exists>s. scored bs now ps hot c = Inr s \<and> p_ttft s \<noteq> NaN"
proof -
  obtain w where w: "quantized_wait (fst c) now ps = Inr w" "0 \<le> w"
    using quantized_wait_spec [OF assms(2,3)] by blast
  obtain p where p: "predict bs (fst c) now ps hot (snd c) = Inr p" "0 \<le> p_ttft p"
    using predict_returns [OF assms(1), of "fst c" hot "snd c"] by blast
  obtain e where e: "wait (fst c) now = Fin e" "0 \<le> e" "e \<le> 4294967296" using calm_wait_finite [OF assms(3)] by blast
  have "p_ttft p - Fin e + w \<noteq> NaN"
    using rescore_not_NaN [OF p(2) e(2,3) w(2)] .
  then show ?thesis using w(1) p(1) e(1) by (simp add: scored_def mk_placement_def)
qed

text \<open>On an idle node the coarse score is the prediction itself.\<close>

lemma scored_idle:
  assumes "query_ok ps now bs" "load_ok ps" "wait (fst c) now = 0"
  shows "scored bs now ps hot c = predict bs (fst c) now ps hot (snd c)"
proof -
  have "calm now (fst c)" by (simp add: calm_def assms(3) zero_pyfloat_def)
  then obtain w where w: "quantized_wait (fst c) now ps = Inr w" "w = 0"
    using quantized_wait_spec [OF assms(2)] assms(3) by metis
  obtain p where p: "predict bs (fst c) now ps hot (snd c) = Inr p" "is_f64 (p_ttft p)"
      "p_retain_until p = 0" "p_priority p = None"
    using predict_returns [OF assms(1), of "fst c" hot "snd c"] by blast
  have "p_ttft p - 0 + 0 = p_ttft p"
  proof -
    have "- (0 :: pyfloat) = 0" by (simp add: zero_pyfloat_def)
    then show ?thesis using p(2) by (simp add: minus_pyfloat_def fadd_0)
  qed
  then show ?thesis using w p assms(3) by (simp add: scored_def mk_placement_def)
qed

lemma keep_better_None: "keep_better s None = Some s"
  by (simp add: keep_better_def)

lemma keep_better_Some: "keep_better s (Some b) = Some (if placement_less s b then s else b)"
  by (simp add: keep_better_def)

lemma transfer_aware_eq:
  "transfer_aware req nodes now ps =
   rbind (hot_node (v_blocks req) nodes) (\<lambda>hot.
   rbind (rmap (scored (v_blocks req) now ps hot) (choices True hot nodes)) (select_by placement_less))"
proof -
  have fold: "rfold (\<lambda>c best. rbind (f c) (\<lambda>s. Inr (keep_better s best))) cs (Some b) =
      rbind (rmap f cs) (\<lambda>ss. Inr (Some (select_from placement_less b ss)))" for f cs b
  proof (induction cs arbitrary: b)
    case (Cons c cs)
    show ?case by (cases "f c"; cases "rmap f cs") (simp_all add: Cons.IH keep_better_Some)
  qed simp
  show ?thesis
  proof (cases "hot_node (v_blocks req) nodes")
    case (Inr hot)
    then have "nodes \<noteq> []" using hot_node_mem by fastforce
    then obtain c cs where "choices True hot nodes = c # cs" by (cases "choices True hot nodes") auto
    then show ?thesis
      by (cases "scored (v_blocks req) now ps hot c"; cases "rmap (scored (v_blocks req) now ps hot) cs")
        (simp_all add: transfer_aware_def Inr keep_better_None fold)
  qed (simp add: transfer_aware_def)
qed

lemma rmap_cong: "(\<And>x. x \<in> set xs \<Longrightarrow> f x = g x) \<Longrightarrow> rmap f xs = rmap g xs"
  by (induction xs) auto

section \<open>Sample\<close>

lemma default_load_ok: "load_ok default_params"
proof -
  have "rnd (1 / 200) + rnd (1 / 100) * Fin 40 \<le> Fin 1 \<and> Fin (1 / 8) \<le> rnd (1 / 200) + rnd (1 / 100) * Fin 40"
    by (simp add: flt_eval)
  then show ?thesis
    using default_params_ok
    by (cases "rnd (1 / 200) + rnd (1 / 100) * Fin 40")
      (auto simp: load_ok_def nominal_service_def default_params_def)
qed

lemma demo_cluster_idle: "n \<in> set demo_cluster \<Longrightarrow> wait n (Fin 1) = 0"
  by (auto simp: demo_cluster_def wait_def new_node_def flt_eval)

lemma demo_cluster_calm: "n \<in> set demo_cluster \<Longrightarrow> calm (Fin 1) n"
  by (simp add: calm_def demo_cluster_idle zero_pyfloat_def)

definition demo_view :: "int \<Rightarrow> RequestView" where
  "demo_view messages =
     \<lparr>v_blocks = [7, 8], v_prompt_tokens = 32, v_num_messages = messages, v_has_tool_messages = False,
      v_last_message_tokens = 4, v_label = ''unknown'', v_conversation_id = Some 1,
      v_last_tool_name = None\<rparr>"

lemma demo_view_simps [simp]: "v_blocks (demo_view m) = [7, 8]"
  by (simp add: demo_view_def)

section \<open>Properties\<close>

lemma transfer_aware_spec:
  assumes "query_ok ps now (v_blocks req)" and "load_ok ps" and "nodes \<noteq> []"
    and "\<forall>n \<in> set nodes. calm now n"
  shows "\<exists>hot p. hot_node (v_blocks req) nodes = Inr hot \<and> transfer_aware req nodes now ps = Inr p \<and>
    (\<exists>n \<in> set nodes. \<exists>tr. (tr \<longrightarrow> node_id n \<noteq> node_id hot) \<and>
       scored (v_blocks req) now ps hot (n, tr) = Inr p) \<and>
    (\<forall>n \<in> set nodes. \<forall>tr. (tr \<longrightarrow> node_id n \<noteq> node_id hot) \<longrightarrow>
       (\<exists>s. scored (v_blocks req) now ps hot (n, tr) = Inr s \<and> p_ttft p \<le> p_ttft s))"
proof -
  let ?bs = "v_blocks req"
  obtain hot where hot: "hot_node ?bs nodes = Inr hot" using hot_node_Inr_iff assms(3) by blast
  have ret: "\<exists>s. scored ?bs now ps hot (n, tr) = Inr s \<and> p_ttft s \<noteq> NaN" if "n \<in> set nodes" for n tr
    using scored_returns [OF assms(1,2), of "(n, tr)" hot] assms(4) that by simp
  have "returns (rmap (scored ?bs now ps hot) (choices True hot nodes))"
  proof (rule rmap_returns)
    fix c assume "c \<in> set (choices True hot nodes)"
    then have "fst c \<in> set nodes" using set_choices [of "fst c" "snd c"] by simp
    then show "returns (scored ?bs now ps hot c)"
      using ret [of "fst c" "snd c"] by (auto simp: returns_iff)
  qed
  then obtain ss where ss: "rmap (scored ?bs now ps hot) (choices True hot nodes) = Inr ss"
    by (auto simp: returns_iff)
  note mem = scored_choices [OF ss]
  have "ss \<noteq> []" using rmap_Inr_length [OF ss] assms(3) by (cases ss) auto
  then obtain p where p: "select_by placement_less ss = Inr p"
    using select_by_Inr_iff [of placement_less ss] by auto
  have nn: "p_ttft s \<noteq> NaN" if "s \<in> set ss" for s
  proof -
    from that mem obtain n tr where "n \<in> set nodes" "scored ?bs now ps hot (n, tr) = Inr s" by blast
    then show ?thesis using ret [of n tr] by auto
  qed
  have A: "\<exists>s. scored ?bs now ps hot (n, tr) = Inr s \<and> p_ttft p \<le> p_ttft s"
    if n: "n \<in> set nodes" "tr \<longrightarrow> node_id n \<noteq> node_id hot" for n tr
  proof -
    obtain s where s: "scored ?bs now ps hot (n, tr) = Inr s" using ret n(1) by blast
    then have "s \<in> set ss" using mem n by blast
    then show ?thesis
      using select_by_least [OF placement_weak_order p, of s] nn select_by_mem [OF p] s
        placement_not_less_ttft by blast
  qed
  have T: "transfer_aware req nodes now ps = Inr p" using hot ss p by (simp add: transfer_aware_eq)
  have B: "\<exists>n \<in> set nodes. \<exists>tr. (tr \<longrightarrow> node_id n \<noteq> node_id hot) \<and>
      scored ?bs now ps hot (n, tr) = Inr p"
    using select_by_mem [OF p] mem by blast
  show ?thesis
    by (rule exI [of _ hot], rule exI [of _ p], intro conjI hot T B ballI allI, rule impI, rule A)
qed

text \<open>C18: \<open>transfer_aware\<close> on a non-empty cluster with bounded queues returns, and what it returns is
  a cheapest of all (node, transfer) choices re-scored with the quantized wait: an argmin on
  approximate state over the oracle's choice set.\<close>

theorem transfer_aware_argmin:
  assumes "query_ok ps now (v_blocks req)" and "load_ok ps" and "nodes \<noteq> []"
    and "\<forall>n \<in> set nodes. calm now n"
  shows "\<exists>hot p. hot_node (v_blocks req) nodes = Inr hot \<and> transfer_aware req nodes now ps = Inr p \<and>
    (\<exists>n \<in> set nodes. \<exists>tr. (tr \<longrightarrow> node_id n \<noteq> node_id hot) \<and>
       scored (v_blocks req) now ps hot (n, tr) = Inr p) \<and>
    (\<forall>n \<in> set nodes. \<forall>tr. (tr \<longrightarrow> node_id n \<noteq> node_id hot) \<longrightarrow>
       (\<exists>s. scored (v_blocks req) now ps hot (n, tr) = Inr s \<and> p_ttft p \<le> p_ttft s))"
  using assms by (rule transfer_aware_spec)

theorem transfer_aware_argmin_witness:
  "\<exists>p. transfer_aware (demo_view 2) demo_cluster (Fin 1) default_params = Inr p"
proof -
  have q: "query_ok default_params (Fin 1) (v_blocks (demo_view 2))"
    using default_query_ok(1) [of "[7, 8]"] by simp
  have c: "demo_cluster \<noteq> []" "\<forall>n \<in> set demo_cluster. calm (Fin 1) n"
    using demo_cluster_calm by (auto simp: demo_cluster_def)
  from transfer_aware_argmin [OF q default_load_ok c] show ?thesis by blast
qed

text \<open>C19: on an idle cluster the approximate router loses nothing: \<open>transfer_aware\<close> makes exactly
  the oracle's placement (or raises the oracle's exception).\<close>

theorem transfer_aware_idle_is_oracle:
  assumes "query_ok ps now (v_blocks req)" and "load_ok ps" and "\<forall>n \<in> set nodes. wait n now = 0"
  shows "transfer_aware req nodes now ps = best_placement (v_blocks req) nodes now ps True"
proof -
  have "rmap (scored (v_blocks req) now ps hot) (choices True hot nodes) =
      rmap (\<lambda>(n, tr). predict (v_blocks req) n now ps hot tr) (choices True hot nodes)" for hot
  proof (rule rmap_cong)
    fix c assume "c \<in> set (choices True hot nodes)"
    then have "fst c \<in> set nodes" using set_choices [of "fst c" "snd c"] by simp
    then show "scored (v_blocks req) now ps hot c =
        (case c of (n, tr) \<Rightarrow> predict (v_blocks req) n now ps hot tr)"
      using scored_idle [OF assms(1,2), of c hot] assms(3) by (simp add: split_beta)
  qed
  then show ?thesis by (simp add: transfer_aware_eq best_placement_def)
qed

theorem transfer_aware_idle_is_oracle_witness:
  "transfer_aware (demo_view 2) demo_cluster (Fin 1) default_params =
   best_placement [7, 8] demo_cluster (Fin 1) default_params True"
  using transfer_aware_idle_is_oracle [of default_params "Fin 1" "demo_view 2" demo_cluster]
    default_query_ok(1) [of "[7, 8]"] default_load_ok demo_cluster_idle by simp

lemma oneshot_spec:
  assumes "query_ok ps now (v_blocks req)" and "load_ok ps" and "nodes \<noteq> []"
    and "\<forall>n \<in> set nodes. calm now n" and "classify req = ''oneshot''"
  shows "\<exists>p n w. class_aware req nodes now ps = Inr p \<and> n \<in> set nodes \<and> p_node_id p = node_id n \<and>
    \<not> p_transfer p \<and> quantized_wait n now ps = Inr w \<and>
    (\<forall>m \<in> set nodes. \<exists>v. quantized_wait m now ps = Inr v \<and> w \<le> v \<and>
       (v = w \<longrightarrow> node_id n \<le> node_id m))"
proof -
  let ?key = "\<lambda>n. rbind (quantized_wait n now ps) (\<lambda>w. Inr (w, n))"
  let ?lt = "\<lambda>x b. if feq (fst x) (fst b) then node_id (snd x) < node_id (snd b) else fst x < fst b"
  have q: "\<exists>w. quantized_wait m now ps = Inr w \<and> 0 \<le> w" if "m \<in> set nodes" for m
    using quantized_wait_spec [OF assms(2)] assms(4) that by metis
  obtain keyed where k: "rmap ?key nodes = Inr keyed"
    using rmap_returns [of nodes ?key] q by (fastforce simp: returns_iff)
  note mem = rmap_Inr_set [OF k]
  have nn: "0 \<le> fst x" if x: "x \<in> set keyed" for x
  proof -
    from x mem obtain m where "m \<in> set nodes" "?key m = Inr x" by blast
    then show ?thesis using q [of m] by auto
  qed
  have "keyed \<noteq> []" using rmap_Inr_length [OF k] assms(3) by (cases keyed) auto
  then obtain b where b: "select_by ?lt keyed = Inr b"
    using select_by_Inr_iff [of ?lt keyed] by (metis (no_types, lifting))
  have wo: "weak_order_on (set keyed) ?lt"
    by (rule weak_order_onI)
      (auto simp: feq_def fnot_less fnonneg_not_NaN dest!: nn split: if_splits
        dest: flt_trans fless_le_trans fle_antisym)
  obtain n w where nw: "n \<in> set nodes" "b = (w, n)" "quantized_wait n now ps = Inr w"
    using select_by_mem [OF b] mem by fastforce
  have least: "\<exists>v. quantized_wait m now ps = Inr v \<and> w \<le> v \<and> (v = w \<longrightarrow> node_id n \<le> node_id m)"
    if m: "m \<in> set nodes" for m
  proof -
    obtain v where v: "quantized_wait m now ps = Inr v" "0 \<le> v" using q [OF m] by blast
    then have "(v, m) \<in> set keyed" using mem m by force
    from select_by_least [OF wo b this] nn [OF select_by_mem [OF b]] v show ?thesis
      by (auto simp: nw(2) feq_def fnot_less fnonneg_not_NaN split: if_splits)
  qed
  obtain hot where hot: "hot_node (v_blocks req) nodes = Inr hot" using hot_node_Inr_iff assms(3) by blast
  obtain p where p: "predict (v_blocks req) n now ps hot False = Inr p"
    using predict_returns [OF assms(1)] by blast
  have "least_loaded nodes now ps = Inr n" using k b nw(2) by (simp add: least_loaded_def)
  then have "class_aware req nodes now ps = Inr p" using hot p assms(5) by (simp add: class_aware_def)
  then show ?thesis using predict_fields [OF p] nw least by auto
qed

text \<open>\<open>class_aware\<close> sends a one-shot to a node of least quantized wait, the lowest id among
  equals, without looking at caches and without a transfer.\<close>

lemma oneshot_goes_to_least_loaded:
  assumes "query_ok ps now (v_blocks req)" and "load_ok ps" and "nodes \<noteq> []"
    and "\<forall>n \<in> set nodes. calm now n" and "classify req = ''oneshot''"
  shows "\<exists>p n w. class_aware req nodes now ps = Inr p \<and> n \<in> set nodes \<and> p_node_id p = node_id n \<and>
    \<not> p_transfer p \<and> quantized_wait n now ps = Inr w \<and>
    (\<forall>m \<in> set nodes. \<exists>v. quantized_wait m now ps = Inr v \<and> w \<le> v \<and>
       (v = w \<longrightarrow> node_id n \<le> node_id m))"
  using assms by (rule oneshot_spec)

section \<open>Class-aware never raises on bounded queues\<close>

lemma depth_limit_returns: "\<exists>l. int_times DEFAULT_SATURATION_DEPTH x = Inr l"
  using rnd_of_int [of 8] by (simp add: int_times_def float_of_int_def DEFAULT_SATURATION_DEPTH_def)

lemma class_aware_returns:
  assumes "query_ok ps now (v_blocks req)" "load_ok ps" "nodes \<noteq> []" "\<forall>n \<in> set nodes. calm now n"
  shows "\<exists>p. class_aware req nodes now ps = Inr p"
proof -
  obtain t where t: "transfer_aware req nodes now ps = Inr t"
    using transfer_aware_spec [OF assms] by blast
  consider "classify req = ''oneshot''" | "classify req = ''rag''" | "classify req = ''tool''"
    by (metis classify_def)
  then show ?thesis
  proof cases
    case 1
    then show ?thesis using oneshot_spec [OF assms] by blast
  next
    case 2
    obtain hot where hot: "hot_node (v_blocks req) nodes = Inr hot" using hot_node_Inr_iff assms(3) by blast
    then have "hot \<in> set nodes" by (rule hot_node_mem)
    then obtain w where w: "quantized_wait hot now ps = Inr w"
      using quantized_wait_spec [OF assms(2)] assms(4) by metis
    obtain p where "predict (v_blocks req) hot now ps hot False = Inr p"
      using predict_returns [OF assms(1)] by blast
    moreover obtain l where "int_times DEFAULT_SATURATION_DEPTH (nominal_service ps) = Inr l"
      using depth_limit_returns by blast
    ultimately show ?thesis using hot w t 2
      by (cases "0 < matched hot (v_blocks req)"; cases "w \<le> l") (simp_all add: class_aware_def)
  next
    case 3
    then show ?thesis using t by (simp add: class_aware_def)
  qed
qed

end
