(* ===== verification/Policies.thy ===== *)
theory Policies
  imports Weighted PyNum
begin

text \<open>
  \<open>ClassAwareReliability\<close>, \<open>oracle\<close>, \<open>build_policy\<close> and the policy names of
  \<open>src/bench/sim/policies.py\<close>.

  \<open>policy_obj\<close> is what \<open>build_policy\<close> returns (a function or an object with its
  attributes) and \<open>policy_call\<close> is the call of it. \<open>var**0.5\<close> is the correctly rounded
  square root of a nonnegative float; of a negative one Python makes a complex number, which
  the following \<open>max\<close> refuses with a \<open>TypeError\<close>.
\<close>

section \<open>Square root\<close>

text \<open>\<open>x**0.5\<close> used in a comparison of floats\<close>

fun pow_half :: "pyfloat \<Rightarrow> pyfloat res" where
  "pow_half (Fin q) = (if q < 0 then Inl TypeError else Inr (fsqrt_rat q))"
| "pow_half PosInf = Inr PosInf"
| "pow_half NegInf = Inr PosInf"
| "pow_half NaN = Inr NaN"

lemma pow_half_nonneg: "nonneg_or_nan x \<Longrightarrow> \<exists>y. pow_half x = Inr y \<and> nonneg_or_nan y"
  by (erule nonneg_or_nanE) (auto simp: fsqrt_rat_def Let_def intro!: nonneg_or_nan_rnd)

section \<open>The reliability-aware policy\<close>

record Reliability =
  rel_index :: ToolGapIndex
  rel_short_gap :: pyfloat
  rel_conf_threshold :: pyfloat
  rel_retain_margin :: pyfloat
  rel_last_seen :: "(int, pyfloat) pydict"

definition DEFAULT_SHORT_GAP :: pyfloat where "DEFAULT_SHORT_GAP = Fin 3"
definition DEFAULT_CONF_THRESHOLD :: pyfloat where "DEFAULT_CONF_THRESHOLD = Fin (1 / 2)"
definition DEFAULT_RETAIN_MARGIN :: pyfloat where "DEFAULT_RETAIN_MARGIN = Fin (3 / 2)"

definition new_reliability ::
    "ToolGapIndex option \<Rightarrow> pyfloat \<Rightarrow> pyfloat \<Rightarrow> pyfloat \<Rightarrow> Reliability" where
  "new_reliability index short_gap conf_threshold retain_margin =
     \<lparr>rel_index = (case index of None \<Rightarrow> default_tool_gap_index | Some i \<Rightarrow> i),
      rel_short_gap = short_gap, rel_conf_threshold = conf_threshold,
      rel_retain_margin = retain_margin, rel_last_seen = []\<rparr>"

definition rel_learn :: "RequestView \<Rightarrow> pyfloat \<Rightarrow> Reliability \<Rightarrow> Reliability res" where
  "rel_learn req now rel =
     rbind (observe_gap (rel_last_seen rel) (v_conversation_id req) (v_last_tool_name req) now
              GAP_TRACKER_CAPACITY)
       (\<lambda>(gap, seen).
          let rel' = rel\<lparr>rel_last_seen := seen\<rparr> in
          case gap of
            None \<Rightarrow> Inr rel'
          | Some g \<Rightarrow> (case v_last_tool_name req of
                None \<Rightarrow> Inl AssertionError
              | Some tool \<Rightarrow> rbind (tg_record tool g (rel_index rel')) (\<lambda>index.
                  Inr (rel'\<lparr>rel_index := index\<rparr>))))"

text \<open>The directive of a tool-session turn\<close>

definition tool_directive :: "Reliability \<Rightarrow> string option \<Rightarrow> pyfloat \<Rightarrow> Placement \<Rightarrow> Placement res" where
  "tool_directive rel tool now place =
     (case tg_predict (rel_index rel) tool of (mean, var) \<Rightarrow>
        rbind (gap_confidence mean var) (\<lambda>conf.
          if rel_conf_threshold rel \<le> conf \<and> mean \<le> rel_short_gap rel
          then rbind (pow_half var) (\<lambda>sd.
                 let window = py_max2 (mean * rel_retain_margin rel) (mean + sd)
                 in Inr (place\<lparr>p_retain_until := now + window, p_priority := Some HIGH\<rparr>))
          else Inr place))"

definition class_aware_reliability :: "Reliability policy" where
  "class_aware_reliability req nodes now ps rel0 =
     rbind (rel_learn req now rel0) (\<lambda>rel.
     rbind (class_aware req nodes now ps) (\<lambda>place.
       let kind = classify req in
       if kind = ''oneshot'' then Inr (place\<lparr>p_priority := Some EVICT_FIRST\<rparr>, rel)
       else if kind \<noteq> ''tool'' then Inr (place, rel)
       else rbind (tool_directive rel (v_last_tool_name req) now place) (\<lambda>p. Inr (p, rel))))"

section \<open>The oracle and the registry\<close>

definition oracle_policy :: "RequestView \<Rightarrow> node list \<Rightarrow> pyfloat \<Rightarrow> CostParams \<Rightarrow> Placement res" where
  "oracle_policy req nodes now ps = best_placement (v_blocks req) nodes now ps True"

datatype policy_obj =
    Round_Robin int
  | Cache_Local
  | Transfer_Aware
  | Weighted_Scorers WeightedScorers
  | Class_Aware
  | Class_Aware_Reliability Reliability
  | Oracle

definition BELADY_POLICIES :: "string list" where
  "BELADY_POLICIES = [''oracle-belady'']"

definition ORACLE_BASELINES :: "string list" where
  "ORACLE_BASELINES = [''oracle-belady'', ''oracle'']"

definition uses_belady :: "string \<Rightarrow> bool" where
  "uses_belady name \<longleftrightarrow> name \<in> set BELADY_POLICIES"

definition POLICY_NAMES :: "string list" where
  "POLICY_NAMES =
     [''round-robin'', ''cache-local'', ''transfer-aware'', ''weighted-precise'', ''weighted-approx'',
      ''class-aware'', ''class-aware-reliability'', ''oracle'', ''oracle-belady'']"

definition build_policy :: "string \<Rightarrow> pyfloat \<Rightarrow> policy_obj res" where
  "build_policy name retain_margin =
     (if name = ''round-robin'' then Inr (Round_Robin 0)
      else if name = ''cache-local'' then Inr Cache_Local
      else if name = ''transfer-aware'' then Inr Transfer_Aware
      else if name = ''weighted-precise'' then Inr (Weighted_Scorers (new_weighted_scorers True))
      else if name = ''weighted-approx'' then Inr (Weighted_Scorers (new_weighted_scorers False))
      else if name = ''class-aware'' then Inr Class_Aware
      else if name = ''class-aware-reliability''
        then Inr (Class_Aware_Reliability
               (new_reliability None DEFAULT_SHORT_GAP DEFAULT_CONF_THRESHOLD retain_margin))
      else if name = ''oracle'' \<or> name \<in> set BELADY_POLICIES then Inr Oracle
      else Inl ValueError)"

definition wrap :: "('s \<Rightarrow> policy_obj) \<Rightarrow> (Placement \<times> 's) res \<Rightarrow> (Placement \<times> policy_obj) res" where
  "wrap c r = rbind r (\<lambda>(p, s). Inr (p, c s))"

definition policy_call :: "policy_obj policy" where
  "policy_call req nodes now ps pol =
     (case pol of
        Round_Robin nxt \<Rightarrow> wrap Round_Robin (round_robin req nodes now ps nxt)
      | Cache_Local \<Rightarrow> stateless cache_local req nodes now ps pol
      | Transfer_Aware \<Rightarrow> stateless transfer_aware req nodes now ps pol
      | Weighted_Scorers ws \<Rightarrow> wrap Weighted_Scorers (weighted_scorers req nodes now ps ws)
      | Class_Aware \<Rightarrow> stateless class_aware req nodes now ps pol
      | Class_Aware_Reliability rel \<Rightarrow>
          wrap Class_Aware_Reliability (class_aware_reliability req nodes now ps rel)
      | Oracle \<Rightarrow> stateless oracle_policy req nodes now ps pol)"

section \<open>Learning\<close>

definition rel_ok :: "Reliability \<Rightarrow> bool" where
  "rel_ok rel \<longleftrightarrow> gap_index_ok (rel_index rel) \<and> d_ok (rel_last_seen rel)"

lemma default_gap_index_ok: "gap_index_ok default_tool_gap_index"
proof -
  have "fin_nonneg (rnd (3 / 10))" by (rule fin_nonneg_rnd_small) simp_all
  moreover have "rnd (3 / 10) \<le> Fin 1" by (rule rnd_le_Fin) simp_all
  ultimately show ?thesis
    by (simp add: gap_index_ok_def default_tool_gap_index_def new_tool_gap_index_def alpha_ok_def
        one_pyfloat_def)
qed

lemma new_reliability_ok: "rel_ok (new_reliability None sg ct rm)"
  by (simp add: rel_ok_def new_reliability_def default_gap_index_ok)

lemma observe_gap_ok:
  assumes "0 \<le> cap" "d_ok seen"
  obtains g s where "observe_gap seen c tool now cap = Inr (g, s)" "d_ok s" "g = None \<or> tool \<noteq> None"
proof (cases c)
  case None
  then show ?thesis using that [of None seen] assms(2) by (simp add: observe_gap_def)
next
  case (Some i)
  have "d_ok (drop (length (d_touch i now seen) - nat cap) (d_touch i now seen))"
    using assms(2) by simp
  then show ?thesis
    using that observe_gap_Some [OF assms(1), of seen i tool now] Some
    by (cases "d_get seen i"; cases tool) auto
qed

lemma rel_learn_spec:
  assumes "rel_ok rel"
  shows "\<exists>rel'. rel_learn req now rel = Inr rel' \<and> rel_ok rel' \<and>
    rel_short_gap rel' = rel_short_gap rel \<and> rel_conf_threshold rel' = rel_conf_threshold rel \<and>
    rel_retain_margin rel' = rel_retain_margin rel"
proof -
  have "d_ok (rel_last_seen rel)" "gap_index_ok (rel_index rel)" using assms by (simp_all add: rel_ok_def)
  moreover have "0 \<le> GAP_TRACKER_CAPACITY" by (simp add: GAP_TRACKER_CAPACITY_def)
  ultimately obtain g s where g: "observe_gap (rel_last_seen rel) (v_conversation_id req)
      (v_last_tool_name req) now GAP_TRACKER_CAPACITY = Inr (g, s)" "d_ok s"
      "g = None \<or> v_last_tool_name req \<noteq> None"
    using observe_gap_ok by blast
  show ?thesis
  proof (cases g)
    case None
    then show ?thesis using g assms by (simp add: rel_learn_def rel_ok_def Let_def)
  next
    case (Some gap)
    then obtain tool where "v_last_tool_name req = Some tool" using g(3) by auto
    moreover obtain ti where "tg_record tool gap (rel_index rel) = Inr ti" "gap_index_ok ti"
      using tg_record_spec [OF \<open>gap_index_ok (rel_index rel)\<close>] by blast
    ultimately show ?thesis using g Some by (simp add: rel_learn_def rel_ok_def Let_def)
  qed
qed

text \<open>With a variance that is not negative, no division by zero and no complex root.\<close>

lemma gap_confidence_returns:
  assumes "nonneg_or_nan var"
  shows "\<exists>c. gap_confidence mean var = Inr c"
proof -
  let ?s = "py_max2 (mean * mean) tiny"
  have s: "?s = NaN \<or> 0 < ?s"
  proof (cases "mean * mean = NaN")
    case True
    then show ?thesis by (simp add: py_max2_def)
  next
    case False
    then have "tiny \<le> ?s" using tiny_bounds(2) by (intro max2_ge2) auto
    then show ?thesis using fless_le_trans [OF tiny_bounds(1)] by blast
  qed
  then have d: "fdiv var ?s = Inr (fquot var ?s)" by (auto simp: fdiv_def zero_pyfloat_def)
  have "nonneg_or_nan (fquot var ?s)"
    using assms s by (elim nonneg_or_nanE; cases ?s)
      (auto simp: zero_pyfloat_def signed_inf_def nonneg_or_nan_rnd)
  then have "1 + fquot var ?s \<noteq> Fin 0"
    using one_plus_ge [of "fquot var ?s"]
    by (auto simp: nonneg_or_nan_iff one_pyfloat_def)
  then show ?thesis using d by (simp add: gap_confidence_def tiny_def [symmetric] Let_def fdiv_def)
qed

lemma tool_directive_spec:
  assumes "rel_ok rel"
  shows "\<exists>p. tool_directive rel tool now place = Inr p \<and>
    (p = place \<or> (\<exists>mean sd. mean = fst (tg_predict (rel_index rel) tool) \<and> mean \<le> rel_short_gap rel \<and>
       pow_half (snd (tg_predict (rel_index rel) tool)) = Inr sd \<and>
       p = place\<lparr>p_retain_until := now + py_max2 (mean * rel_retain_margin rel) (mean + sd),
                 p_priority := Some HIGH\<rparr>))"
proof -
  obtain mean var where mv: "tg_predict (rel_index rel) tool = (mean, var)" by (cases "tg_predict (rel_index rel) tool")
  then have v: "nonneg_or_nan var"
    using tg_predict_nonneg [of "rel_index rel" tool] assms by (simp add: rel_ok_def)
  obtain c where "gap_confidence mean var = Inr c" using gap_confidence_returns [OF v] by blast
  moreover obtain sd where "pow_half var = Inr sd" using pow_half_nonneg [OF v] by blast
  ultimately show ?thesis by (simp add: tool_directive_def mv Let_def)
qed

lemma class_aware_plain:
  assumes "class_aware req nodes now ps = Inr p"
  shows "p_retain_until p = 0" "p_priority p = None"
proof -
  have "p_retain_until p = 0 \<and> p_priority p = None" if t: "transfer_aware req nodes now ps = Inr p"
  proof (rule transfer_aware_select [OF t])
    fix hot ss
    assume ss: "rmap (scored (v_blocks req) now ps hot) (choices True hot nodes) = Inr ss"
      and p: "select_by placement_less ss = Inr p"
    from select_by_mem [OF p] obtain n tr where "scored (v_blocks req) now ps hot (n, tr) = Inr p"
      unfolding scored_choices [OF ss] by blast
    then show ?thesis by (simp add: scored_fields)
  qed
  then have "p_retain_until p = 0 \<and> p_priority p = None"
    using assms by (auto simp: class_aware_def Let_def split: if_splits dest: predict_fields)
  then show "p_retain_until p = 0" "p_priority p = None" by simp_all
qed

section \<open>Every policy meets the contract\<close>

lemma targets_directive:
  "targets bs nodes p \<Longrightarrow> p_node_id q = p_node_id p \<Longrightarrow> p_transfer q = p_transfer p \<Longrightarrow> targets bs nodes q"
  by (simp add: targets_def)

lemma reliability_targets:
  assumes "class_aware_reliability req nodes now ps rel = Inr (p, rel')"
  shows "targets (v_blocks req) nodes p"
proof -
  from assms obtain q where q: "class_aware req nodes now ps = Inr q"
      and "p_node_id p = p_node_id q \<and> p_transfer p = p_transfer q"
    by (auto simp: class_aware_reliability_def tool_directive_def Let_def split: if_splits prod.splits)
  then show ?thesis using targets_directive [OF class_aware_targets [OF q]] by blast
qed

lemma oracle_targets:
  "oracle_policy req nodes now ps = Inr p \<Longrightarrow> targets (v_blocks req) nodes p"
  by (simp add: oracle_policy_def best_placement_targets)

interpretation reliability: routing_policy class_aware_reliability
  by unfold_locales (rule reliability_targets)

interpretation oracles: routing_policy "stateless oracle_policy"
  by (rule routing_policy_stateless) (rule oracle_targets)

interpretation registry: routing_policy policy_call
proof unfold_locales
  fix req nodes now ps pol p pol'
  assume "policy_call req nodes now ps pol = Inr (p, pol')"
  then show "targets (v_blocks req) nodes p"
    by (cases pol)
      (auto simp: policy_call_def wrap_def stateless_def
        dest: round_robin_targets cache_local_targets transfer_aware_targets weighted_scorers_targets
          class_aware_targets reliability_targets oracle_targets)
qed

section \<open>Properties\<close>

lemma classify_cases: "classify req = ''tool'' \<or> classify req = ''oneshot'' \<or> classify req = ''rag''"
  by (simp add: classify_def)

lemma demo_least_loaded: "\<exists>n. least_loaded demo_cluster (Fin 1) default_params = Inr n"
proof -
  have q: "\<exists>w. quantized_wait n (Fin 1) default_params = Inr w" if "n \<in> set demo_cluster" for n
    using quantized_wait_spec [OF default_load_ok demo_cluster_calm [OF that]] by metis
  let ?key = "\<lambda>n. rbind (quantized_wait n (Fin 1) default_params) (\<lambda>w. Inr (w, n))"
  have "returns (rmap ?key demo_cluster)"
    using q by (intro rmap_returns) (auto simp: returns_rbind)
  then obtain ks where ks: "rmap ?key demo_cluster = Inr ks" by (auto simp: returns_iff)
  then have "ks \<noteq> []" using rmap_Inr_length [OF ks] demo_cluster_ids(2) by auto
  then show ?thesis using ks by (cases ks) (auto simp: least_loaded_def)
qed

text \<open>C13: every policy \<open>build_policy\<close> can return, in any state, places a request on a node of the
  cluster, and asks for a transfer only to a node other than the hot one.\<close>

theorem policies_place_in_cluster:
  assumes "policy_call req nodes now ps pol = Inr (p, pol')"
  shows "\<exists>hot. hot_node (v_blocks req) nodes = Inr hot \<and>
    (\<exists>n \<in> set nodes. p_node_id p = node_id n \<and> (p_transfer p \<longrightarrow> node_id n \<noteq> node_id hot))"
  using registry.call_targets [OF assms] by (simp add: targets_def)

theorem policies_place_in_cluster_witness:
  "\<exists>p. policy_call (demo_view 2) demo_cluster (Fin 1) default_params Oracle = Inr (p, Oracle) \<and>
    p_node_id p \<in> {0, 1}"
proof -
  obtain p where "best_placement [7, 8] demo_cluster (Fin 1) default_params True = Inr p"
    using best_placement_returns [OF default_query_ok(1) demo_cluster_ids(3)] by fastforce
  then have call: "policy_call (demo_view 2) demo_cluster (Fin 1) default_params Oracle = Inr (p, Oracle)"
    by (simp add: policy_call_def stateless_def oracle_policy_def)
  from policies_place_in_cluster [OF call] have "p_node_id p \<in> {0, 1}"
    by (auto simp: demo_cluster_def new_node_def)
  with call show ?thesis by blast
qed

text \<open>C20: \<open>ClassAwareReliability\<close> routes exactly as \<open>class_aware\<close> and raises exactly when that
  does; it only adds a directive, EVICT_FIRST without a lease on one-shots, none on RAG queries,
  and on a tool turn either none or HIGH with a lease derived from a short predicted gap. Its
  learned statistics stay well formed.\<close>

theorem reliability_routes_like_class_aware:
  assumes "rel_ok rel"
  shows "case class_aware req nodes now ps of
      Inl e \<Rightarrow> class_aware_reliability req nodes now ps rel = Inl e
    | Inr q \<Rightarrow> \<exists>p rel'. class_aware_reliability req nodes now ps rel = Inr (p, rel') \<and> rel_ok rel' \<and>
        p_node_id p = p_node_id q \<and> p_transfer p = p_transfer q \<and> p_regime p = p_regime q \<and>
        p_ttft p = p_ttft q \<and>
        (if classify req = ''oneshot'' then p_priority p = Some EVICT_FIRST \<and> p_retain_until p = 0
         else p_priority p = None \<and> p_retain_until p = 0 \<or>
           classify req = ''tool'' \<and> p_priority p = Some HIGH \<and>
           (\<exists>mean var sd. tg_predict (rel_index rel') (v_last_tool_name req) = (mean, var) \<and>
              mean \<le> rel_short_gap rel \<and> pow_half var = Inr sd \<and>
              p_retain_until p = now + py_max2 (mean * rel_retain_margin rel) (mean + sd)))"
proof -
  obtain rel' where l: "rel_learn req now rel = Inr rel'" "rel_ok rel'"
      "rel_short_gap rel' = rel_short_gap rel" "rel_retain_margin rel' = rel_retain_margin rel"
    using rel_learn_spec [OF assms] by blast
  show ?thesis
  proof (cases "class_aware req nodes now ps")
    case (Inl e)
    then show ?thesis by (simp add: class_aware_reliability_def l)
  next
    case (Inr q)
    note plain = class_aware_plain [OF Inr]
    obtain p where p: "tool_directive rel' (v_last_tool_name req) now q = Inr p"
        "p = q \<or> (\<exists>mean sd. mean = fst (tg_predict (rel_index rel') (v_last_tool_name req)) \<and>
           mean \<le> rel_short_gap rel' \<and>
           pow_half (snd (tg_predict (rel_index rel') (v_last_tool_name req))) = Inr sd \<and>
           p = q\<lparr>p_retain_until := now + py_max2 (mean * rel_retain_margin rel') (mean + sd),
                 p_priority := Some HIGH\<rparr>)"
      using tool_directive_spec [OF l(2)] by blast
    consider "classify req = ''oneshot''" | "classify req = ''rag''" | "classify req = ''tool''"
      using classify_cases by blast
    then show ?thesis
    proof cases
      case 3
      then have run: "class_aware_reliability req nodes now ps rel = Inr (p, rel')"
        using Inr p(1) by (simp add: class_aware_reliability_def l(1))
      show ?thesis using p(2) plain l(2-4) 3 by (auto simp: run Inr prod_eq_iff)
    qed (use Inr plain l in \<open>auto simp: class_aware_reliability_def\<close>)
  qed
qed

theorem reliability_routes_like_class_aware_witness:
  "\<exists>p rel'. class_aware_reliability (demo_view 1) demo_cluster (Fin 1) default_params
     (new_reliability None DEFAULT_SHORT_GAP DEFAULT_CONF_THRESHOLD DEFAULT_RETAIN_MARGIN) = Inr (p, rel') \<and>
   p_priority p = Some (- 1) \<and> p_retain_until p = 0"
proof -
  have q: "query_ok default_params (Fin 1) (v_blocks (demo_view 1))"
    using default_query_ok(1) [of "[7, 8]"] by simp
  obtain n where n: "least_loaded demo_cluster (Fin 1) default_params = Inr n"
    using demo_least_loaded by blast
  obtain p where p: "predict [7, 8] n (Fin 1) default_params ((new_node 0 4)\<lparr>cache := [(7, ()), (8, ())]\<rparr>) False = Inr p"
    using predict_returns [OF q] by auto blast
  have k: "classify (demo_view 1) = ''oneshot''" by (simp add: classify_def demo_view_def)
  have "class_aware (demo_view 1) demo_cluster (Fin 1) default_params = Inr p"
    using n p demo_cluster_hot by (simp add: class_aware_def k)
  with reliability_routes_like_class_aware [OF new_reliability_ok, of "demo_view 1" demo_cluster "Fin 1"
      default_params DEFAULT_SHORT_GAP DEFAULT_CONF_THRESHOLD DEFAULT_RETAIN_MARGIN]
  show ?thesis by (simp add: k EVICT_FIRST_def) blast
qed

text \<open>\<open>build_policy\<close> knows exactly the names of \<open>POLICY_NAMES\<close> and raises \<open>ValueError\<close> on
  every other one.\<close>

lemma build_policy_names:
  "if name \<in> set POLICY_NAMES then \<exists>pol. build_policy name margin = Inr pol
   else build_policy name margin = Inl ValueError"
  by (auto simp: build_policy_def POLICY_NAMES_def BELADY_POLICIES_def)

section \<open>Round robin over a run\<close>

text \<open>A run of calls of one policy object\<close>

fun policy_run ::
    "'s policy \<Rightarrow> CostParams \<Rightarrow> (RequestView \<times> node list \<times> pyfloat) list \<Rightarrow> 's \<Rightarrow> (Placement list \<times> 's) res" where
  "policy_run call ps [] s = Inr ([], s)"
| "policy_run call ps ((req, nodes, now) # cs) s =
     rbind (call req nodes now ps s) (\<lambda>(p, s').
     rbind (policy_run call ps cs s') (\<lambda>(pl, s''). Inr (p # pl, s'')))"

lemma round_robin_step:
  assumes "query_ok ps now (v_blocks req)" "ids_ok nodes" "nodes \<noteq> []"
  shows "\<exists>p. round_robin req nodes now ps s = Inr (p, s + 1) \<and>
    p_node_id p = s mod int (length nodes) \<and> \<not> p_transfer p"
proof -
  let ?i = "s mod int (length nodes)"
  have i: "0 \<le> ?i" "?i < int (length nodes)" using assms(3) by simp_all
  have "node_id (nodes ! nat ?i) = ?i" using ids_ok_nth [OF assms(2), of "nat ?i"] i by simp
  moreover obtain hot where "hot_node (v_blocks req) nodes = Inr hot" using hot_node_Inr_iff assms(3) by blast
  moreover from this obtain p where "predict (v_blocks req) (nodes ! nat ?i) now ps hot False = Inr p"
      "p_node_id p = node_id (nodes ! nat ?i)" "\<not> p_transfer p"
    using predict_returns [OF assms(1), of "nodes ! nat ?i" hot False] by auto
  ultimately show ?thesis using i assms(3) by (simp add: round_robin_def py_index_nat)
qed

lemma round_robin_run:
  assumes "\<forall>(req, nodes, now) \<in> set calls.
      query_ok ps now (v_blocks req) \<and> ids_ok nodes \<and> length nodes = len" "0 < len"
  shows "\<exists>pl. policy_run round_robin ps calls s = Inr (pl, s + int (length calls)) \<and>
    map p_node_id pl = map (\<lambda>i. (s + int i) mod int len) [0..<length calls]"
  using assms(1)
proof (induction calls arbitrary: s)
  case (Cons c calls)
  obtain req nodes now where c: "c = (req, nodes, now)" by (cases c)
  with Cons.prems assms(2) have ok: "query_ok ps now (v_blocks req)" "ids_ok nodes" "nodes \<noteq> []"
      "length nodes = len" by auto
  obtain p where p: "round_robin req nodes now ps s = Inr (p, s + 1)" "p_node_id p = s mod int len"
    using round_robin_step [OF ok(1-3), of s] ok(4) by auto
  have rest: "\<forall>(req, nodes, now) \<in> set calls.
      query_ok ps now (v_blocks req) \<and> ids_ok nodes \<and> length nodes = len"
    using Cons.prems by simp
  from Cons.IH [OF rest, of "s + 1"]
  obtain pl where pl: "policy_run round_robin ps calls (s + 1) = Inr (pl, s + 1 + int (length calls))"
      "map p_node_id pl = map (\<lambda>i. (s + 1 + int i) mod int len) [0..<length calls]"
    by blast
  have "map (\<lambda>i. (s + int i) mod int len) [0..<Suc (length calls)] =
      s mod int len # map (\<lambda>i. (s + 1 + int i) mod int len) [0..<length calls]"
    by (simp add: upt_conv_Cons map_Suc_upt [symmetric] add.assoc del: upt_Suc)
  then show ?case using c p pl by (simp add: algebra_simps)
qed simp

lemma mod_shift_distinct: "0 < len \<Longrightarrow> distinct (map (\<lambda>i. (s + int i) mod int len) [0..<len])"
proof -
  assume len: "0 < len"
  have "inj_on (\<lambda>i. (s + int i) mod int len) {0..<len}"
  proof (rule inj_onI)
    fix i j assume ij: "i \<in> {0..<len}" "j \<in> {0..<len}" "(s + int i) mod int len = (s + int j) mod int len"
    then have "int len dvd (s + int i) - (s + int j)" by (simp add: mod_eq_dvd_iff)
    then have "int len dvd int i - int j" by simp
    moreover have "\<bar>int i - int j\<bar> < int len" using ij(1,2) by auto
    ultimately have "int i - int j = 0" using dvd_imp_le_int [of "int i - int j" "int len"] by linarith
    then show "i = j" by simp
  qed
  then show ?thesis by (simp add: distinct_map)
qed

text \<open>C14: round robin is fair: in any run of as many consecutive calls as there are nodes, whatever
  the requests, the queues and the counter it starts from, every node is chosen exactly once.\<close>

theorem round_robin_fair:
  assumes "\<forall>(req, nodes, now) \<in> set calls.
      query_ok ps now (v_blocks req) \<and> ids_ok nodes \<and> length nodes = len"
    and "0 < len" and "length calls = len"
  shows "\<exists>pl. policy_run round_robin ps calls s = Inr (pl, s + int len) \<and>
    distinct (map p_node_id pl) \<and> set (map p_node_id pl) = {0..<int len}"
proof -
  obtain pl where pl: "policy_run round_robin ps calls s = Inr (pl, s + int len)"
      "map p_node_id pl = map (\<lambda>i. (s + int i) mod int len) [0..<len]"
    using round_robin_run [OF assms(1,2), of s] assms(3) by auto
  have d: "distinct (map p_node_id pl)" unfolding pl(2) by (rule mod_shift_distinct [OF assms(2)])
  have "set (map p_node_id pl) \<subseteq> {0..<int len}" unfolding pl(2) using assms(2) by auto
  moreover have "card (set (map p_node_id pl)) = card {0..<int len}"
    using distinct_card [OF d] arg_cong [OF pl(2), of length] by simp
  ultimately have "set (map p_node_id pl) = {0..<int len}" by (intro card_subset_eq) simp_all
  with pl(1) d show ?thesis by blast
qed

theorem round_robin_fair_witness:
  "\<exists>pl. policy_run round_robin default_params
      [(demo_view 1, demo_cluster, Fin 1), (demo_view 2, demo_cluster, Fin 1)] 1 = Inr (pl, 3) \<and>
    set (map p_node_id pl) = {0..<2}"
proof -
  let ?calls = "[(demo_view 1, demo_cluster, Fin 1), (demo_view 2, demo_cluster, Fin 1)]"
  have "\<forall>(req, nodes, now) \<in> set ?calls.
      query_ok default_params now (v_blocks req) \<and> ids_ok nodes \<and> length nodes = 2"
    using default_query_ok(1) [of "[7, 8]"] demo_cluster_ids by simp
  from round_robin_fair [OF this, of 1] show ?thesis by auto
qed

end
