(* ===== verification/Engine.thy ===== *)
theory Engine
  imports Policies Requests
begin

text \<open>
  \<open>src/bench/sim/engine.py\<close>: replay an arrival stream under a policy.

  The engine takes any policy as a parameter (a function with its threaded state). One
  iteration of the loop is \<open>decide\<close> (everything up to the admission: gap observation,
  oracle placement, coupling test, the policy's choice and its true cost) followed by
  \<open>Node.admit\<close>, which may not return; a run is therefore an optional result, \<open>None\<close> for a
  loop that never ends and \<open>Some (Inl e)\<close> for an exception. \<open>_is_coupled\<close> overwrites and
  restores \<open>busy_until\<close>; here the idle copy of the nodes is a value.
\<close>

section \<open>The router's view\<close>

definition request_view :: "TurnRequest \<Rightarrow> RequestView" where
  "request_view req =
     (let last_content = (if r_messages req = [] then [] else m_content (last (r_messages req)))
      in \<lparr>v_blocks = r_block_hashes req, v_prompt_tokens = int (length (r_tokens req)),
          v_num_messages = int (length (r_messages req)),
          v_has_tool_messages = list_ex (\<lambda>m. m_role m = ''tool'') (r_messages req),
          v_last_message_tokens = int (length (py_split last_content)),
          v_label = ''unknown'', v_conversation_id = r_conversation_id req,
          v_last_tool_name = r_tool_name req\<rparr>)"

section \<open>Results\<close>

record KindStats =
  k_count :: int
  k_ttfts :: "pyfloat list"
  k_regrets :: "pyfloat list"
  k_reused_blocks :: int
  k_total_blocks :: int

definition new_kind_stats :: KindStats where
  "new_kind_stats =
     \<lparr>k_count = 0, k_ttfts = [], k_regrets = [], k_reused_blocks = 0, k_total_blocks = 0\<rparr>"

record SimResult =
  ttfts :: "pyfloat list"
  e2e_latencies :: "pyfloat list"
  successes :: int
  errors :: int
  regimes :: "(Regime, int) pydict"
  regrets :: "pyfloat list"
  coupled :: int
  reused_blocks :: int
  total_blocks :: int
  pinned_evictions_total :: int
  by_kind :: "(string, KindStats) pydict"
  gap_by_tool :: "(string, pyfloat list) pydict"

definition new_result :: SimResult where
  "new_result =
     \<lparr>ttfts = [], e2e_latencies = [], successes = 0, errors = 0, regimes = [], regrets = [],
      coupled = 0, reused_blocks = 0, total_blocks = 0, pinned_evictions_total = 0, by_kind = [],
      gap_by_tool = []\<rparr>"

text \<open>\<open>a / b\<close> of two integers\<close>

definition int_div :: "int \<Rightarrow> int \<Rightarrow> pyfloat res" where
  "int_div a b =
     (if b = 0 then Inl ZeroDivisionError
      else case rnd (of_int a / of_int b) of Fin q \<Rightarrow> Inr (Fin q) | _ \<Rightarrow> Inl OverflowError)"

definition ratio_or_zero :: "int \<Rightarrow> int \<Rightarrow> pyfloat res" where
  "ratio_or_zero a b = (if b \<noteq> 0 then int_div a b else Inr 0)"

definition kind_hit_rate :: "KindStats \<Rightarrow> pyfloat res" where
  "kind_hit_rate k = ratio_or_zero (k_reused_blocks k) (k_total_blocks k)"

text \<open>\<open>sum(xs) / len(xs) if xs else 0.0\<close>\<close>

definition mean_or_zero :: "pyfloat list \<Rightarrow> pyfloat res" where
  "mean_or_zero xs =
     (if xs \<noteq> [] then rbind (float_of_int (int (length xs))) (fdiv (py_fsum xs)) else Inr 0)"

definition mean_regret :: "KindStats \<Rightarrow> pyfloat res" where
  "mean_regret k = mean_or_zero (k_regrets k)"

definition hit_rate :: "SimResult \<Rightarrow> pyfloat res" where
  "hit_rate r = ratio_or_zero (reused_blocks r) (total_blocks r)"

definition coupled_fraction :: "SimResult \<Rightarrow> pyfloat res" where
  "coupled_fraction r = ratio_or_zero (coupled r) (successes r)"

definition regime_count :: "SimResult \<Rightarrow> Regime \<Rightarrow> int" where
  "regime_count r g = (case d_get (regimes r) g of None \<Rightarrow> 0 | Some c \<Rightarrow> c)"

definition all_regimes :: "Regime list" where
  "all_regimes = [WAIT, TRANSFER, RECOMPUTE]"

definition regime_mix :: "SimResult \<Rightarrow> (Regime, pyfloat) pydict res" where
  "regime_mix r =
     (let count = sum_list (map snd (regimes r)) in
      if count = 0 then Inr (map (\<lambda>g. (g, 0)) all_regimes)
      else rmap (\<lambda>g. rbind (int_div (regime_count r g) count) (\<lambda>x. Inr (g, x))) all_regimes)"

section \<open>Coupling and future uses\<close>

definition make_idle :: "pyfloat \<Rightarrow> node list \<Rightarrow> node list" where
  "make_idle now nodes = map (\<lambda>n. n\<lparr>busy_until := now\<rparr>) nodes"

definition is_coupled ::
    "int list \<Rightarrow> node list \<Rightarrow> pyfloat \<Rightarrow> CostParams \<Rightarrow> Placement \<Rightarrow> bool res" where
  "is_coupled req_blocks nodes now ps loaded =
     rbind (best_placement req_blocks (make_idle now nodes) now ps True) (\<lambda>idle.
       Inr (p_node_id loaded \<noteq> p_node_id idle \<or> p_transfer loaded \<noteq> p_transfer idle))"

text \<open>\<open>uses.setdefault(bh, []).append(idx)\<close>\<close>

definition add_use :: "int \<Rightarrow> int \<Rightarrow> (int, int list) pydict \<Rightarrow> (int, int list) pydict" where
  "add_use idx bh uses =
     (case d_get uses bh of None \<Rightarrow> d_set bh [idx] uses | Some us \<Rightarrow> d_set bh (us @ [idx]) uses)"

fun future_uses_from :: "int \<Rightarrow> TurnRequest list \<Rightarrow> (int, int list) pydict \<Rightarrow> (int, int list) pydict" where
  "future_uses_from idx [] uses = uses"
| "future_uses_from idx (req # reqs) uses =
     future_uses_from (idx + 1) reqs (fold (add_use idx) (r_block_hashes req) uses)"

definition build_future_uses :: "TurnRequest list \<Rightarrow> (int, int list) pydict" where
  "build_future_uses requests = future_uses_from 0 requests []"

section \<open>One request\<close>

record 's sim =
  sim_nodes :: "node list"
  sim_result :: SimResult
  sim_last_seen :: "(int, pyfloat) pydict"
  sim_policy :: 's

text \<open>What the loop body has computed when it reaches \<open>node.admit\<close>\<close>

record 's decision =
  d_pos :: nat
  d_service :: pyfloat
  d_chosen :: Placement
  d_oracle :: Placement
  d_realized :: Placement
  d_result :: SimResult
  d_last_seen :: "(int, pyfloat) pydict"
  d_policy :: 's

definition note_gap :: "string option \<Rightarrow> pyfloat option \<Rightarrow> SimResult \<Rightarrow> SimResult" where
  "note_gap tool gap r =
     (case (gap, tool) of
        (Some g, Some t) \<Rightarrow>
          r\<lparr>gap_by_tool :=
              (case d_get (gap_by_tool r) t of
                 None \<Rightarrow> d_set t [g] (gap_by_tool r)
               | Some gs \<Rightarrow> d_set t (gs @ [g]) (gap_by_tool r))\<rparr>
      | _ \<Rightarrow> r)"

definition kind_update :: "pyfloat \<Rightarrow> pyfloat \<Rightarrow> int \<Rightarrow> int \<Rightarrow> KindStats \<Rightarrow> KindStats" where
  "kind_update ttft regret resident nblocks k =
     \<lparr>k_count = k_count k + 1, k_ttfts = k_ttfts k @ [ttft], k_regrets = k_regrets k @ [regret],
      k_reused_blocks = k_reused_blocks k + resident, k_total_blocks = k_total_blocks k + nblocks\<rparr>"

definition record_turn ::
    "string \<Rightarrow> Placement \<Rightarrow> pyfloat \<Rightarrow> pyfloat \<Rightarrow> int \<Rightarrow> int \<Rightarrow> SimResult \<Rightarrow> SimResult" where
  "record_turn kind realized e2e regret resident nblocks r =
     r\<lparr>ttfts := ttfts r @ [p_ttft realized], e2e_latencies := e2e_latencies r @ [e2e],
       regimes := d_set (p_regime realized) (regime_count r (p_regime realized) + 1) (regimes r),
       regrets := regrets r @ [regret], successes := successes r + 1,
       reused_blocks := reused_blocks r + resident, total_blocks := total_blocks r + nblocks,
       by_kind :=
         d_set kind
           (kind_update (p_ttft realized) regret resident nblocks
              (case d_get (by_kind r) kind of None \<Rightarrow> new_kind_stats | Some k \<Rightarrow> k))
           (by_kind r)\<rparr>"

definition resident_blocks :: "int list \<Rightarrow> node \<Rightarrow> bool \<Rightarrow> node \<Rightarrow> int" where
  "resident_blocks req_blocks n transfer hot =
     int (matched n req_blocks) + seeded_blocks req_blocks n hot transfer"

definition decide :: "'s policy \<Rightarrow> CostParams \<Rightarrow> TurnRequest \<Rightarrow> 's sim \<Rightarrow> 's decision res" where
  "decide call ps req st =
     (let blocks = r_block_hashes req; now = r_arrival req; nodes = sim_nodes st in
      rbind (observe_gap (sim_last_seen st) (r_conversation_id req) (r_tool_name req) now
               GAP_TRACKER_CAPACITY) (\<lambda>(gap, seen).
      let r1 = note_gap (r_tool_name req) gap (sim_result st) in
      rbind (best_placement blocks nodes now ps True) (\<lambda>oracle_p.
      rbind (is_coupled blocks nodes now ps oracle_p) (\<lambda>is_c.
      let r2 = (if is_c then r1\<lparr>coupled := coupled r1 + 1\<rparr> else r1) in
      rbind (call (request_view req) nodes now ps (sim_policy st)) (\<lambda>(chosen, pol).
      rbind (hot_node blocks nodes) (\<lambda>hot.
      rbind (py_pos (length nodes) (p_node_id chosen)) (\<lambda>j.
      rbind (predict blocks (nodes ! j) now ps hot (p_transfer chosen)) (\<lambda>realized.
      let regret = py_max2 0 (p_ttft realized - p_ttft oracle_p);
          resident = resident_blocks blocks (nodes ! j) (p_transfer chosen) hot;
          nblocks = int (length blocks) in
      rbind (int_times (r_gen_tokens req) (inter_token ps)) (\<lambda>decode.
      let r3 = record_turn (r_kind req) realized (p_ttft realized + decode) regret resident nblocks r2 in
      rbind (prefill_time ps (nblocks - resident)) (\<lambda>prefill.
        Inr \<lparr>d_pos = j, d_service = prefill + decode, d_chosen = chosen, d_oracle = oracle_p,
             d_realized = realized, d_result = r3, d_last_seen = seen, d_policy = pol\<rparr>))))))))))"

definition sim_step :: "'s policy \<Rightarrow> CostParams \<Rightarrow> int \<Rightarrow> TurnRequest \<Rightarrow> 's sim \<Rightarrow> 's sim res option" where
  "sim_step call ps idx req st =
     (case decide call ps req st of
        Inl e \<Rightarrow> Some (Inl e)
      | Inr d \<Rightarrow>
          (case admit (r_arrival req) (d_service d) (r_block_hashes req)
                  (p_retain_until (d_chosen d)) idx (p_priority (d_chosen d)) (sim_nodes st ! d_pos d) of
             None \<Rightarrow> None
           | Some n \<Rightarrow> Some (Inr
               \<lparr>sim_nodes = (sim_nodes st)[d_pos d := n], sim_result = d_result d,
                sim_last_seen = d_last_seen d, sim_policy = d_policy d\<rparr>)))"

fun sim_run :: "'s policy \<Rightarrow> CostParams \<Rightarrow> int \<Rightarrow> TurnRequest list \<Rightarrow> 's sim \<Rightarrow> 's sim res option" where
  "sim_run call ps idx [] st = Some (Inr st)"
| "sim_run call ps idx (req # reqs) st =
     (case sim_step call ps idx req st of
        None \<Rightarrow> None
      | Some (Inl e) \<Rightarrow> Some (Inl e)
      | Some (Inr st') \<Rightarrow> sim_run call ps (idx + 1) reqs st')"

definition make_nodes :: "int \<Rightarrow> int \<Rightarrow> (int, int list) pydict option \<Rightarrow> node list" where
  "make_nodes num_nodes cache_blocks future_uses =
     map (\<lambda>i. case future_uses of
                None \<Rightarrow> new_node (int i) cache_blocks
              | Some uses \<Rightarrow> new_belady_node (int i) cache_blocks uses) [0..<nat num_nodes]"

definition run_simulation ::
    "TurnRequest list \<Rightarrow> 's policy \<Rightarrow> 's \<Rightarrow> int \<Rightarrow> int \<Rightarrow> CostParams \<Rightarrow> bool \<Rightarrow> SimResult res option" where
  "run_simulation requests call s0 num_nodes cache_blocks ps belady =
     (let nodes = make_nodes num_nodes cache_blocks
                    (if belady then Some (build_future_uses requests) else None) in
      case sim_run call ps 0 requests
             \<lparr>sim_nodes = nodes, sim_result = new_result, sim_last_seen = [], sim_policy = s0\<rparr> of
        None \<Rightarrow> None
      | Some (Inl e) \<Rightarrow> Some (Inl e)
      | Some (Inr st) \<Rightarrow>
          Some (Inr ((sim_result st)\<lparr>pinned_evictions_total :=
                       sum_list (map pinned_evictions (sim_nodes st))\<rparr>)))"

end
