(* ===== verification/Generated.thy ===== *)
theory Generated
  imports Arrivals Engine
begin

text \<open>
  Properties of the generated streams (\<open>src/bench/sim/workload.py\<close>), and of how the router's
  classifier (\<open>src/bench/sim/policies.py\<close>) sees them through \<open>request_view\<close>
  (\<open>src/bench/sim/engine.py\<close>). \<open>demo_random\<close> is a concrete distribution library on which the
  hypotheses hold.
\<close>

section \<open>A library that always draws the same\<close>

definition demo_random :: "unit random_lib" where
  "demo_random =
     \<lparr>seed_int = (\<lambda>s. ()), seed_str = (\<lambda>s. ()), uniform = (\<lambda>r. (Fin (1 / 2), r)),
      randbelow = (\<lambda>n r. (0, r)), expovariate = (\<lambda>rate r. Inr (Fin 1, r)),
      gammavariate = (\<lambda>a b r. Inr (Fin 1, r)), gauss = (\<lambda>mu sigma r. (mu, r)),
      int_pow = (\<lambda>n x. Inr (Fin 1))\<rparr>"

lemma demo_random_ok: "random_ok demo_random"
  using rnd_of_int [of 1]
  by (auto simp: random_ok_def demo_random_def gap_drawn_def zero_pyfloat_def moderate_def elim: less_eq_pyfloat.elims)

lemma demo_gen_ok: "gen_ok default_gen_params"
  by (simp add: gen_ok_def default_gen_params_def DEFAULT_BLOCK_SIZE_def zero_pyfloat_def)

lemma demo_rate: "fdiv (Fin 4) (Fin (of_int (max 2 1))) = Inr (Fin 2)"
  using rnd_of_int [of 2] by (simp add: fdiv_def)

lemma demo_bursts: "bursts_ok (gp_burst_cv default_gen_params) rate"
  by (simp add: bursts_ok_def default_gen_params_def feq_def one_pyfloat_def)

lemma demo_sessions:
  obtains ss v' where
    "generate_sessions demo_random 2 2 (Fin 4) default_gen_params initial_vocab =
       Inr (py_sort request_less (concat ss), v')"
    "length ss = 2" "sessions_ok default_gen_params 2 ss" "ordered_sessions ss"
  using generate_sessions_returns [OF demo_random_ok demo_gen_ok demo_rate _ _ demo_bursts, of 2 initial_vocab]
  by auto

section \<open>The requests of a stream of sessions\<close>

definition request_key :: "TurnRequest \<Rightarrow> int \<times> int" where
  "request_key r = (r_session_id r, r_turn_idx r)"

lemma session_keys:
  assumes "sessions_ok gp n ss"
  shows "map request_key (concat ss) =
    map (\<lambda>(i, k). (int i, int k)) (List.product [0..<length ss] [0..<n])"
proof -
  have "map (map request_key) ss = map (\<lambda>i. map (\<lambda>k. (int i, int k)) [0..<n]) [0..<length ss]"
  proof (rule nth_equalityI)
    fix i assume "i < length (map (map request_key) ss)"
    then have i: "i < length ss" by simp
    then have s: "length (ss ! i) = n" "session_ok gp (int i) (ss ! i)"
      using assms by (auto simp: sessions_ok_def)
    have "map request_key (ss ! i) = map (\<lambda>k. (int i, int k)) [0..<n]"
      using s by (intro nth_equalityI) (auto simp: session_ok_def turn_ok_def request_key_def)
    then show "map (map request_key) ss ! i = map (\<lambda>i. map (\<lambda>k. (int i, int k)) [0..<n]) [0..<length ss] ! i"
      using i by simp
  qed simp
  then show ?thesis by (simp add: map_concat product_concat_map comp_def)
qed

lemma session_keys_distinct:
  assumes "sessions_ok gp n ss"
  shows "distinct (map request_key (py_sort request_less (concat ss)))"
proof -
  have "distinct (map (\<lambda>(i, k). (int i, int k)) (List.product [0..<length ss] [0..<n]))"
    by (auto simp: distinct_map distinct_product inj_on_def)
  then have "distinct (map request_key (concat ss))" using session_keys [OF assms] by metis
  moreover have "mset (map request_key (py_sort request_less (concat ss))) = mset (map request_key (concat ss))"
    by (simp only: mset_map mset_py_sort)
  ultimately show ?thesis by (metis mset_eq_imp_distinct_iff)
qed

lemma sessions_member:
  assumes "sessions_ok gp n ss" "r \<in> set (concat ss)"
  obtains i k where "i < length ss" "k < n" "turn_ok gp (int i) k r" "r = ss ! i ! k"
proof -
  obtain i k where ik: "i < length ss" "k < length (ss ! i)" "r = ss ! i ! k"
    using assms(2) by (auto simp: in_set_conv_nth)
  then show thesis using that assms(1) by (auto simp: sessions_ok_def session_ok_def)
qed

lemma sessions_extend:
  assumes "sessions_ok gp n ss" "a \<in> set (concat ss)" "b \<in> set (concat ss)"
    and "r_session_id a = r_session_id b" "r_turn_idx a < r_turn_idx b"
  shows "extends a b"
proof -
  obtain i k where a: "i < length ss" "k < n" "turn_ok gp (int i) k a" "a = ss ! i ! k"
    using sessions_member [OF assms(1,2)] .
  obtain j l where b: "j < length ss" "l < n" "turn_ok gp (int j) l b" "b = ss ! j ! l"
    using sessions_member [OF assms(1,3)] .
  have "i = j" "k < l" using a(3) b(3) assms(4,5) by (auto simp: turn_ok_def)
  moreover have "sorted_wrt extends (ss ! i)" "length (ss ! i) = n"
    using assms(1) a(1) by (auto simp: sessions_ok_def session_ok_def)
  ultimately show ?thesis using a b by (auto simp: sorted_wrt_iff_nth_less)
qed

lemma session_stream_length:
  assumes "generate_sessions L num turns qps gp v = Inr (reqs, v')"
  shows "length reqs = nat num * nat turns"
proof -
  obtain ss where ss: "reqs = py_sort request_less (concat ss)" "length ss = nat num"
      "sessions_ok gp (nat turns) ss" "list_all (list_all (opened L)) ss"
    using generate_sessions_spec [OF assms] .
  have "length (map request_key (concat ss)) = nat num * nat turns"
    unfolding session_keys [OF ss(3)] by (simp add: ss(2))
  then show ?thesis by (simp add: ss(1))
qed

text \<open>C22: every request of a session stream is well formed: its block hashes are the hashes of its
  tokens, its prompt starts with the system prompt, it generates at least one token, its
  transcript is a legal chat (system prompt, user message, then rounds of assistant, tool and user
  messages in which each tool message answers the call before it), and a tool name shows exactly on
  later turns of a run that models tool reliability. There is one request per session and turn.\<close>

theorem session_requests_well_formed:
  assumes "generate_sessions L num turns qps gp v = Inr (reqs, v')"
  shows "length reqs = nat num * nat turns \<and> distinct (map request_key reqs) \<and>
    (\<forall>r \<in> set reqs. \<exists>i k. i < nat num \<and> k < nat turns \<and> turn_ok gp (int i) k r)"
proof -
  obtain ss where ss: "reqs = py_sort request_less (concat ss)" "length ss = nat num"
      "sessions_ok gp (nat turns) ss" "list_all (list_all (opened L)) ss"
    using generate_sessions_spec [OF assms] .
  have "length reqs = nat num * nat turns" by (rule session_stream_length [OF assms])
  moreover have "\<exists>i k. i < nat num \<and> k < nat turns \<and> turn_ok gp (int i) k r" if "r \<in> set reqs" for r
    using sessions_member [OF ss(3)] that ss(1,2) by (metis set_py_sort)
  ultimately show ?thesis using session_keys_distinct [OF ss(3)] by (simp add: ss(1))
qed

theorem session_requests_well_formed_witness:
  "\<exists>reqs v'. generate_sessions demo_random 2 2 (Fin 4) default_gen_params initial_vocab = Inr (reqs, v') \<and>
     length reqs = 4 \<and> distinct (map request_key reqs)"
proof -
  obtain ss v' where g: "generate_sessions demo_random 2 2 (Fin 4) default_gen_params initial_vocab =
       Inr (py_sort request_less (concat ss), v')"
    using demo_sessions by metis
  note w = session_requests_well_formed [OF g]
  show ?thesis by (intro exI conjI, rule g) (use w in \<open>simp_all del: length_py_sort\<close>)
qed

text \<open>C23: the prompt of a session grows turn by turn: a later turn's tokens strictly extend an earlier
  turn's, so do its messages, and so its block hashes; a node that has served one turn therefore
  holds a prefix of the next.\<close>

theorem sessions_grow:
  assumes "generate_sessions L num turns qps gp v = Inr (reqs, v')"
    and "a \<in> set reqs" "b \<in> set reqs" "r_session_id a = r_session_id b" "r_turn_idx a < r_turn_idx b"
  shows "strict_prefix (r_tokens a) (r_tokens b) \<and> prefix (r_messages a) (r_messages b) \<and>
    prefix (r_block_hashes a) (r_block_hashes b)"
proof -
  obtain ss where ss: "reqs = py_sort request_less (concat ss)" "length ss = nat num"
      "sessions_ok gp (nat turns) ss" "list_all (list_all (opened L)) ss"
    using generate_sessions_spec [OF assms(1)] .
  have mem: "a \<in> set (concat ss)" "b \<in> set (concat ss)" using assms(2,3) unfolding ss(1) set_py_sort .
  have e: "strict_prefix (r_tokens a) (r_tokens b)" "prefix (r_messages a) (r_messages b)"
    using sessions_extend [OF ss(3) mem assms(4,5)] by (simp_all add: extends_def)
  have h: "hash_blocks (r_tokens r) (gp_block_size gp) = Inr (r_block_hashes r)"
    if "r \<in> set (concat ss)" for r
    using sessions_member [OF ss(3) that] by (metis turn_ok_def)
  have "prefix (r_tokens a) (r_tokens b)" using e(1) by (simp add: strict_prefix_def)
  from hash_blocks_prefix [OF this h [OF mem(1)] h [OF mem(2)]] e show ?thesis by simp
qed

theorem sessions_grow_witness:
  "\<exists>reqs v' a b. generate_sessions demo_random 2 2 (Fin 4) default_gen_params initial_vocab = Inr (reqs, v') \<and>
     {a, b} \<subseteq> set reqs \<and> r_turn_idx b = 1 \<and> strict_prefix (r_tokens a) (r_tokens b)"
proof -
  obtain ss v' where g: "generate_sessions demo_random 2 2 (Fin 4) default_gen_params initial_vocab =
       Inr (py_sort request_less (concat ss), v')" "length ss = 2" "sessions_ok default_gen_params 2 ss"
    using demo_sessions by metis
  let ?a = "ss ! 0 ! 0" and ?b = "ss ! 0 ! 1"
  have l0: "length (ss ! 0) = 2 \<and> session_ok default_gen_params (int 0) (ss ! 0)"
    using g(2) g(3) [unfolded sessions_ok_def, rule_format, of 0] by simp
  then have l1: "\<forall>k<2. turn_ok default_gen_params (int 0) k (ss ! 0 ! k)" by (simp add: session_ok_def)
  have l: "length (ss ! 0) = 2" "turn_ok default_gen_params 0 0 ?a" "turn_ok default_gen_params 0 1 ?b"
    using l0 l1 [rule_format, of 0] l1 [rule_format, of 1] by simp_all
  have mem: "?a \<in> set (py_sort request_less (concat ss))" "?b \<in> set (py_sort request_less (concat ss))"
    using g(2) l(1) by (auto simp: set_concat intro!: bexI [of _ "ss ! 0"] nth_mem)
  have "r_session_id ?a = r_session_id ?b" "r_turn_idx ?a < r_turn_idx ?b" "r_turn_idx ?b = 1"
    using l(2,3) by (simp_all add: turn_ok_def)
  with sessions_grow [OF g(1) mem] g(1) mem show ?thesis by blast
qed

section \<open>Arrival order\<close>

lemma request_less_order: "weak_order_on {r. r_arrival r \<noteq> NaN} request_less"
proof (rule weak_order_onI)
  fix a b c :: TurnRequest
  assume n: "a \<in> {r. r_arrival r \<noteq> NaN}" "b \<in> {r. r_arrival r \<noteq> NaN}" "c \<in> {r. r_arrival r \<noteq> NaN}"
  show "request_less a b \<Longrightarrow> request_less b c \<Longrightarrow> request_less a c"
    using n flt_trans [of "r_arrival a" "r_arrival b" "r_arrival c"]
    by (auto simp: request_less_def feq_def split: if_splits)
  show "\<not> request_less a b \<Longrightarrow> \<not> request_less b c \<Longrightarrow> \<not> request_less a c"
    using n fnot_less [of "r_arrival a" "r_arrival b"] fnot_less [of "r_arrival b" "r_arrival c"]
      fnot_less [of "r_arrival a" "r_arrival c"] fle_trans [of "r_arrival c" "r_arrival b" "r_arrival a"]
      fle_antisym [of "r_arrival c" "r_arrival b"]
    by (auto simp: request_less_def feq_def split: if_splits)
qed (auto simp: request_less_def feq_def)

interpretation request_sorter: stable_sorter "{r. r_arrival r \<noteq> NaN}" request_less "py_sort request_less"
  by (rule stable_sorterI [OF request_less_order])

lemma ordered_arrivals: "ordered_sessions ss \<Longrightarrow> set (concat ss) \<subseteq> {r. r_arrival r \<noteq> NaN}"
  by (auto simp: ordered_sessions_def list_all_iff fnonneg_not_NaN)

lemma filter_session:
  assumes "sessions_ok gp n ss" "i < length ss"
  shows "filter (\<lambda>r. r_session_id r = int i) (concat ss) = ss ! i"
proof -
  let ?P = "\<lambda>r. r_session_id r = int i"
  have sid: "r_session_id r = int j" if "j < length ss" "r \<in> set (ss ! j)" for j r
    using that assms(1) by (auto simp: sessions_ok_def session_ok_def turn_ok_def in_set_conv_nth)
  have "\<not> ?P r" if "r \<in> set (concat (take i ss)) \<or> r \<in> set (concat (drop (Suc i) ss))" for r
  proof -
    from that consider j where "j < i" "r \<in> set (ss ! j)"
      | j where "j < length ss - Suc i" "r \<in> set (ss ! Suc (i + j))"
      using assms(2) by (auto simp: in_set_conv_nth [of _ "take i ss"] in_set_conv_nth [of _ "drop (Suc i) ss"])
    then show ?thesis
    proof cases
      case (1 j)
      then show ?thesis using sid [of j r] assms(2) by simp
    next
      case (2 j)
      then show ?thesis using sid [of "Suc (i + j)" r] by simp
    qed
  qed
  then have "filter ?P (concat (take i ss)) = []" "filter ?P (concat (drop (Suc i) ss)) = []"
    unfolding filter_empty_conv by blast+
  moreover have "filter ?P (ss ! i) = ss ! i" using sid [OF assms(2)] by (simp add: filter_id_conv)
  moreover have "concat ss = concat (take i ss) @ ss ! i @ concat (drop (Suc i) ss)"
    by (subst id_take_nth_drop [OF assms(2)]) simp
  ultimately show ?thesis by simp
qed

lemma session_sorted:
  assumes "session_ok gp sid s" "sorted_wrt in_order s"
  shows "sorted_by request_less s"
proof -
  have "\<not> request_less (s ! k) (s ! j)" if "j < k" "k < length s" for j k
  proof -
    have "r_arrival (s ! j) \<le> r_arrival (s ! k)"
      using assms(2) that by (simp add: sorted_wrt_iff_nth_less in_order_def)
    moreover have "r_session_id (s ! j) = r_session_id (s ! k)" "r_turn_idx (s ! j) < r_turn_idx (s ! k)"
      using assms(1) that by (auto simp: session_ok_def turn_ok_def)
    moreover have "\<not> r_arrival (s ! k) < r_arrival (s ! j)"
      using \<open>r_arrival (s ! j) \<le> r_arrival (s ! k)\<close> fle_not_NaN [of "r_arrival (s ! j)" "r_arrival (s ! k)"]
        fnot_less [of "r_arrival (s ! k)" "r_arrival (s ! j)"] by simp
    ultimately show ?thesis by (simp add: request_less_def)
  qed
  then show ?thesis by (simp add: sorted_wrt_iff_nth_less)
qed

text \<open>C24: the generator returns, and its stream is in arrival order (with ties by session and turn);
  within it the turns of every session appear in their order, so that no turn is replayed before
  the one whose prompt it extends.\<close>

theorem sessions_replay_in_order:
  assumes "random_ok L" and "gen_ok gp" and "turns \<le> 2 ^ 53"
    and "fdiv qps (Fin (of_int (max turns 1))) = Inr rate" and "rate \<noteq> NaN"
    and "bursts_ok (gp_burst_cv gp) (py_max2 rate (rnd (1 / 10 ^ 9)))"
  shows "\<exists>reqs v'. generate_sessions L num turns qps gp v = Inr (reqs, v') \<and> sorted_by request_less reqs \<and>
    (\<forall>i < nat num. map r_turn_idx (filter (\<lambda>r. r_session_id r = int i) reqs) = map int [0..<nat turns])"
proof -
  obtain ss v' where ss: "generate_sessions L num turns qps gp v = Inr (py_sort request_less (concat ss), v')"
      "length ss = nat num" "sessions_ok gp (nat turns) ss" "ordered_sessions ss"
    using generate_sessions_returns [OF assms(1,2,4,5,3,6)] .
  note fin = ordered_arrivals [OF ss(4)]
  have "map r_turn_idx (filter (\<lambda>r. r_session_id r = int i) (py_sort request_less (concat ss))) =
      map int [0..<nat turns]" if i: "i < nat num" for i
  proof -
    have s: "length (ss ! i) = nat turns" "session_ok gp (int i) (ss ! i)" "sorted_wrt in_order (ss ! i)"
      using i ss(2,3,4) by (auto simp: sessions_ok_def ordered_sessions_def list_all_iff)
    have f: "filter (\<lambda>r. r_session_id r = int i) (concat ss) = ss ! i"
      using filter_session [OF ss(3)] i ss(2) by simp
    have "filter (\<lambda>r. r_session_id r = int i) (py_sort request_less (concat ss)) = ss ! i"
      using request_sorter.stable [OF fin, of "\<lambda>r. r_session_id r = int i"]
        session_sorted [OF s(2,3)] unfolding f by blast
    moreover have "map r_turn_idx (ss ! i) = map int [0..<nat turns]"
      using s by (intro nth_equalityI) (auto simp: session_ok_def turn_ok_def)
    ultimately show ?thesis by simp
  qed
  then show ?thesis using ss(1) request_sorter.sorts [OF fin] by blast
qed

theorem sessions_replay_in_order_witness:
  "\<exists>reqs v'. generate_sessions demo_random 2 2 (Fin 4) default_gen_params initial_vocab = Inr (reqs, v') \<and>
     map r_turn_idx (filter (\<lambda>r. r_session_id r = 1) reqs) = [0, 1]"
proof -
  obtain reqs v' where "generate_sessions demo_random 2 2 (Fin 4) default_gen_params initial_vocab = Inr (reqs, v')"
      "\<forall>i < nat 2. map r_turn_idx (filter (\<lambda>r. r_session_id r = int i) reqs) = map int [0..<nat 2]"
    using sessions_replay_in_order [OF demo_random_ok demo_gen_ok _ demo_rate _ demo_bursts, of 2 initial_vocab]
    by auto
  moreover from this(2) [rule_format, of 1] have "map r_turn_idx (filter (\<lambda>r. r_session_id r = 1) reqs) = [0, 1]"
    by (simp add: upt_rec)
  ultimately show ?thesis by (intro exI conjI)
qed

end
