(* ===== verification/Mixed.thy ===== *)
theory Mixed
  imports Generated
begin

text \<open>
  The mixed stream of \<open>generate_mixed\<close> (\<open>src/bench/sim/workload.py\<close>): its three class streams,
  their disjoint ids, its agreement with \<open>generate_sessions\<close> when the mix is all tool sessions,
  and the router's classification of what it generates.
\<close>

section \<open>Single-turn requests\<close>

definition single_ok :: "GenParams \<Rightarrow> int \<Rightarrow> string \<Rightarrow> TurnRequest \<Rightarrow> bool" where
  "single_ok gp sid kind r \<longleftrightarrow>
     r_session_id r = sid \<and> r_turn_idx r = 0 \<and> r_kind r = kind \<and> r_conversation_id r = Some sid \<and>
     r_tool_name r = None \<and> 1 \<le> r_gen_tokens r \<and>
     hash_blocks (r_tokens r) (gp_block_size gp) = Inr (r_block_hashes r)"

definition rag_ok :: "GenParams \<Rightarrow> MixParams \<Rightarrow> nat \<Rightarrow> TurnRequest \<Rightarrow> bool" where
  "rag_ok gp mp i r \<longleftrightarrow>
     single_ok gp (RAG_SID_BASE + int i) ''rag'' r \<and> prefix SYSTEM_TOKENS (r_tokens r) \<and>
     (\<exists>u. r_messages r = [plain_message ''system'' SYSTEM_PROMPT, plain_message ''user'' u] \<and>
        length (py_split u) = nat (rag_doc_tokens mp) + nat (rag_question_tokens mp))"

definition oneshot_ok :: "GenParams \<Rightarrow> MixParams \<Rightarrow> nat \<Rightarrow> TurnRequest \<Rightarrow> bool" where
  "oneshot_ok gp mp i r \<longleftrightarrow>
     single_ok gp (ONESHOT_SID_BASE + int i) ''oneshot'' r \<and>
     length (r_tokens r) = nat (oneshot_tokens mp) \<and> (\<exists>u. r_messages r = [plain_message ''user'' u])"

lemma single_turn_spec:
  assumes "single_turn L gp sid kind t tokens ms r = Inr (req, r')"
  shows "single_ok gp sid kind req \<and> r_tokens req = tokens \<and> r_messages req = ms"
proof -
  obtain hs k where "hash_blocks tokens (gp_block_size gp) = Inr hs"
      "draw_gen_tokens L (gen_tokens_mean gp) r = Inr (k, r')"
      "req = \<lparr>r_session_id = sid, r_turn_idx = 0, r_arrival = t, r_tokens = tokens,
        r_block_hashes = hs, r_gen_tokens = k, r_messages = ms, r_kind = kind,
        r_conversation_id = Some sid, r_tool_name = None\<rparr>"
    using assms by (auto simp: single_turn_def)
  then show ?thesis using draw_gen_tokens_pos [of L "gen_tokens_mean gp" r] by (auto simp: single_ok_def)
qed

lemma tag_nonspace:
  "list_all nonspace (''rag_d'' @ str_nat d)" "list_all nonspace (''rag_q'' @ str_nat d)"
  "list_all nonspace (''one_'' @ str_nat d)"
  using word_nonspace [OF str_nat_word] by (simp_all add: is_space_def)

lemma rag_request_spec:
  assumes "rag_request L gp mp rate ws i (t, g, reqs) = Inr (t', g', reqs')"
  shows "\<exists>req. reqs' = reqs @ [req] \<and> rag_ok gp mp i req"
proof -
  obtain gap r1 d r2 where "arrival_gap L rate (gp_burst_cv gp) (g_rng g) = Inr (gap, r1)"
      "rng_choices_index L ws r1 = Inr (d, r2)"
    using assms by (auto simp: rag_request_def Let_def)
  let ?u = "unique_words (''rag_d'' @ str_nat d) (rag_doc_tokens mp) @ '' '' @
      unique_words (''rag_q'' @ str_nat i) (rag_question_tokens mp)"
  obtain ids v where "tokenize ?u (g_vocab g) = (ids, v)" by (cases "tokenize ?u (g_vocab g)")
  then obtain req r3 where req: "reqs' = reqs @ [req]"
      "single_turn L gp (RAG_SID_BASE + int i) ''rag'' (t + gap) (SYSTEM_TOKENS @ ids)
         [plain_message ''system'' SYSTEM_PROMPT, plain_message ''user'' ?u] r2 = Inr (req, r3)"
    using assms \<open>arrival_gap L rate (gp_burst_cv gp) (g_rng g) = Inr (gap, r1)\<close>
      \<open>rng_choices_index L ws r1 = Inr (d, r2)\<close>
    by (auto simp: rag_request_def Let_def)
  have "length (py_split ?u) = nat (rag_doc_tokens mp) + nat (rag_question_tokens mp)"
    using py_split_append [of "CHR '' ''"] unique_words_split [OF tag_nonspace(1)]
      unique_words_split [OF tag_nonspace(2)] by simp
  then have "rag_ok gp mp i req" using single_turn_spec [OF req(2)] by (auto simp: rag_ok_def)
  with req(1) show ?thesis by blast
qed

lemma oneshot_request_spec:
  assumes "oneshot_request L gp mp rate i (t, g, reqs) = Inr (t', g', reqs')"
  shows "\<exists>req. reqs' = reqs @ [req] \<and> oneshot_ok gp mp i req"
proof -
  let ?u = "unique_words (''one_'' @ str_nat i) (oneshot_tokens mp)"
  obtain gap r1 where a: "arrival_gap L rate (gp_burst_cv gp) (g_rng g) = Inr (gap, r1)"
    using assms by (auto simp: oneshot_request_def Let_def)
  obtain ids v where t: "tokenize ?u (g_vocab g) = (ids, v)" by (cases "tokenize ?u (g_vocab g)")
  then obtain req r3 where req: "reqs' = reqs @ [req]"
      "single_turn L gp (ONESHOT_SID_BASE + int i) ''oneshot'' (t + gap) ids
         [plain_message ''user'' ?u] r1 = Inr (req, r3)"
    using assms a by (auto simp: oneshot_request_def Let_def)
  have "length ids = nat (oneshot_tokens mp)"
    using tokenize_count [OF t] unique_words_split [OF tag_nonspace(3)] by simp
  then have "oneshot_ok gp mp i req" using single_turn_spec [OF req(2)] by (auto simp: oneshot_ok_def)
  with req(1) show ?thesis by blast
qed

text \<open>A loop that appends one request per index\<close>

lemma appending_loop:
  assumes "rfold f [0..<n] (t0, g0, reqs0) = Inr (t, g, reqs)"
    and "\<And>i t g reqs t' g' reqs'. f i (t, g, reqs) = Inr (t', g', reqs') \<Longrightarrow> \<exists>req. reqs' = reqs @ [req] \<and> ok i req"
  obtains new where "reqs = reqs0 @ new" "length new = n" "\<forall>i < n. ok i (new ! i)"
proof -
  let ?P = "\<lambda>k (t, g, reqs). \<exists>new. reqs = reqs0 @ new \<and> length new = k \<and> (\<forall>i < k. ok i (new ! i))"
  have "?P n (t, g, reqs)"
  proof (rule rfold_upt_inv [of _ _ _ _ ?P, OF assms(1)])
    fix k s s' assume "?P k s" "f k s = Inr s'"
    then obtain t g reqs t' g' reqs' new where *: "s = (t, g, reqs)" "s' = (t', g', reqs')"
        "reqs = reqs0 @ new" "length new = k" "\<forall>i < k. ok i (new ! i)" "f k (t, g, reqs) = Inr (t', g', reqs')"
      by (cases s, cases s') auto
    from assms(2) [OF *(6)] obtain req where "reqs' = reqs @ [req]" "ok k req" by blast
    then show "?P (Suc k) s'"
      using * by (auto simp: nth_append less_Suc_eq intro!: exI [of _ "new @ [req]"])
  qed simp
  then show thesis using that by auto
qed

section \<open>The three streams\<close>

text \<open>How many sessions or requests a class contributes: its part of the budget, as Python multiplies
  the two, taken to the nearest whole number (the even one of two), and none for a class without a
  part\<close>

definition nearest_share :: "int \<Rightarrow> pyfloat \<Rightarrow> nat \<Rightarrow> bool" where
  "nearest_share budget fraction c \<longleftrightarrow>
     (if 0 < fraction then
        (case float_of_int budget of
           Inl e \<Rightarrow> False
         | Inr b \<Rightarrow>
             (case b * fraction of
                Fin x \<Rightarrow> let d = \<bar>of_nat c - max 0 x\<bar> in d \<le> 1 / 2 \<and> (d = 1 / 2 \<longrightarrow> even c)
              | _ \<Rightarrow> False))
      else c = 0)"

lemma round_even_nearest: "\<bar>of_int (round_even x) - x\<bar> \<le> 1 / 2 \<and> (\<bar>of_int (round_even x) - x\<bar> = 1 / 2 \<longrightarrow> even (round_even x))"
proof -
  define f where "f = \<lfloor>x\<rfloor>"
  have "of_int f \<le> x" "x < of_int f + 1" unfolding f_def by linarith+
  then show ?thesis by (auto simp: round_even_def Let_def abs_if simp flip: f_def)
qed

lemma share_nearest:
  assumes "0 < fraction" "share budget fraction = Inr n"
  shows "nearest_share budget fraction (nat n)"
proof -
  obtain b where b: "float_of_int budget = Inr b" "py_round (b * fraction) = Inr n"
    using assms(2) by (auto simp: share_def int_times_def)
  then obtain x where x: "b * fraction = Fin x" "n = round_even x" by (cases "b * fraction") auto
  have d: "\<bar>of_nat (nat n) - max 0 x\<bar> \<le> 1 / 2 \<and> (\<bar>of_nat (nat n) - max 0 x\<bar> = 1 / 2 \<longrightarrow> even (nat n))"
  proof (cases "0 \<le> x")
    case True
    then have "0 \<le> n" using round_even_ge_of_int [of 0 x] by (simp add: x(2))
    moreover have "(of_nat (nat n) :: rat) = of_int n" using calculation by simp
    ultimately show ?thesis using True round_even_nearest [of x] x(2) by (simp add: even_nat_iff)
  next
    case False
    then have "n \<le> 0" using round_even_le_of_int [of x 0] by (simp add: x(2))
    then show ?thesis using False by simp
  qed
  then show ?thesis by (simp add: nearest_share_def assms(1) b(1) x(1) Let_def)
qed

lemma rag_stream_spec:
  assumes "rag_stream L budget qps gp mp fraction (reqs, v) = Inr (reqs', v')"
  obtains new where "reqs' = reqs @ new" "nearest_share budget fraction (length new)"
    "\<forall>i < length new. rag_ok gp mp i (new ! i)"
proof (cases "0 < fraction")
  case True
  then obtain ws n t g where n: "share budget fraction = Inr n" and
    "rfold (rag_request L gp mp (py_max2 (qps * fraction) (rnd (1 / 10 ^ 9))) ws) [0..<nat n]
       (0, \<lparr>g_rng = seed_str L (str_int (gp_seed gp) @ '':rag''), g_vocab = v\<rparr>, reqs) = Inr (t, g, reqs')"
    using assms by (auto simp: rag_stream_def)
  from appending_loop [OF this(2), of "rag_ok gp mp"] rag_request_spec obtain new where
    "reqs' = reqs @ new" "length new = nat n" "\<forall>i < nat n. rag_ok gp mp i (new ! i)" by metis
  then show thesis using that share_nearest [OF True n] by simp
next
  case False
  then show thesis using that [of "[]"] assms by (simp add: rag_stream_def nearest_share_def)
qed

lemma oneshot_stream_spec:
  assumes "oneshot_stream L budget qps gp mp fraction (reqs, v) = Inr (reqs', v')"
  obtains new where "reqs' = reqs @ new" "nearest_share budget fraction (length new)"
    "\<forall>i < length new. oneshot_ok gp mp i (new ! i)"
proof (cases "0 < fraction")
  case True
  then obtain n t g where n: "share budget fraction = Inr n" and
    "rfold (oneshot_request L gp mp (py_max2 (qps * fraction) (rnd (1 / 10 ^ 9)))) [0..<nat n]
       (0, \<lparr>g_rng = seed_str L (str_int (gp_seed gp) @ '':oneshot''), g_vocab = v\<rparr>, reqs) = Inr (t, g, reqs')"
    using assms by (auto simp: oneshot_stream_def)
  from appending_loop [OF this(2), of "oneshot_ok gp mp"] oneshot_request_spec obtain new where
    "reqs' = reqs @ new" "length new = nat n" "\<forall>i < nat n. oneshot_ok gp mp i (new ! i)" by metis
  then show thesis using that share_nearest [OF True n] by simp
next
  case False
  then show thesis using that [of "[]"] assms by (simp add: oneshot_stream_def nearest_share_def)
qed

lemma tool_stream_spec:
  assumes "tool_stream L num turns qps gp fraction v = Inr (reqs, v')"
  obtains ss where "mset reqs = mset (concat ss)" "nearest_share num fraction (length ss)"
    "sessions_ok gp (nat turns) ss" "list_all (list_all (opened L)) ss"
proof (cases "0 < fraction")
  case True
  then obtain n where n: "share num fraction = Inr n"
      "generate_sessions L n turns (qps * fraction) gp v = Inr (reqs, v')"
    using assms by (auto simp: tool_stream_def)
  from generate_sessions_spec [OF n(2)] obtain ss where
    "reqs = py_sort request_less (concat ss)" "length ss = nat n"
    "sessions_ok gp (nat turns) ss" "list_all (list_all (opened L)) ss" .
  then show thesis using that share_nearest [OF True n(1)] by simp
next
  case False
  then show thesis using that [of "[]"] assms
    by (simp add: tool_stream_def nearest_share_def sessions_ok_def)
qed

lemma generate_mixed_spec:
  assumes "generate_mixed L num turns qps m gp mp v = Inr (reqs, v')"
  obtains ss rs os where "mset reqs = mset (concat ss @ rs @ os)" "unknown_classes (effective_mix m) = []"
    "nearest_share num (mix_get (effective_mix m) ''tool'') (length ss)" "sessions_ok gp (nat turns) ss"
    "list_all (list_all (opened L)) ss"
    "nearest_share (num * turns) (mix_get (effective_mix m) ''rag'') (length rs)" "\<forall>i < length rs. rag_ok gp mp i (rs ! i)"
    "nearest_share (num * turns) (mix_get (effective_mix m) ''oneshot'') (length os)" "\<forall>i < length os. oneshot_ok gp mp i (os ! i)"
proof -
  let ?d = "effective_mix m"
  obtain r1 v1 r2 v2 r3 where s: "unknown_classes ?d = []"
      "tool_stream L num turns qps gp (mix_get ?d ''tool'') v = Inr (r1, v1)"
      "rag_stream L (num * turns) qps gp mp (mix_get ?d ''rag'') (r1, v1) = Inr (r2, v2)"
      "oneshot_stream L (num * turns) qps gp mp (mix_get ?d ''oneshot'') (r2, v2) = Inr (r3, v')"
      "reqs = py_sort request_less r3"
    using assms by (auto simp: generate_mixed_def Let_def split: if_splits)
  obtain ss where ss: "mset r1 = mset (concat ss)" "nearest_share num (mix_get ?d ''tool'') (length ss)"
      "sessions_ok gp (nat turns) ss" "list_all (list_all (opened L)) ss"
    using tool_stream_spec [OF s(2)] .
  obtain rs where rs: "r2 = r1 @ rs" "nearest_share (num * turns) (mix_get ?d ''rag'') (length rs)"
      "\<forall>i < length rs. rag_ok gp mp i (rs ! i)"
    using rag_stream_spec [OF s(3)] .
  obtain os where os: "r3 = r2 @ os" "nearest_share (num * turns) (mix_get ?d ''oneshot'') (length os)"
      "\<forall>i < length os. oneshot_ok gp mp i (os ! i)"
    using oneshot_stream_spec [OF s(4)] .
  have "mset reqs = mset (concat ss @ rs @ os)" by (simp add: s(5) os(1) rs(1) ss(1))
  then show thesis using that s(1) ss(2-4) rs(2,3) os(2,3) by blast
qed

section \<open>Disjoint classes\<close>

lemma single_keys:
  assumes "\<forall>i < length rs. single_ok gp (base + int i) kind (rs ! i)"
  shows "map request_key rs = map (\<lambda>i. (base + int i, 0)) [0..<length rs]"
  using assms by (intro nth_equalityI) (auto simp: single_ok_def request_key_def)

lemma distinct_offset: "distinct (map (\<lambda>i. (base + int i, 0 :: int)) [0..<n])"
  by (simp add: distinct_map inj_on_def)

lemma tool_keys:
  assumes "sessions_ok gp n ss" "length ss \<le> 1000000" "x \<in> set (map request_key (concat ss))"
  shows "0 \<le> fst x \<and> fst x < RAG_SID_BASE"
  using assms(2,3) unfolding session_keys [OF assms(1)] by (auto simp: RAG_SID_BASE_def)

text \<open>The requests of a class\<close>

definition class_requests :: "string \<Rightarrow> TurnRequest list \<Rightarrow> TurnRequest list" where
  "class_requests k reqs = filter (\<lambda>r. r_kind r = k) reqs"

lemma class_requests_all: "(\<And>r. r \<in> set xs \<Longrightarrow> r_kind r = k') \<Longrightarrow> class_requests k xs = (if k = k' then xs else [])"
  by (auto simp: class_requests_def filter_empty_conv filter_id_conv)

lemma class_requests_append: "class_requests k (xs @ ys) = class_requests k xs @ class_requests k ys"
  by (simp add: class_requests_def)

lemma mixed_kinds:
  assumes "mset reqs = mset (concat ss @ rs @ os)" "sessions_ok gp n ss"
    and "\<forall>i < length rs. single_ok gp (RAG_SID_BASE + int i) ''rag'' (rs ! i)"
    and "\<forall>i < length os. single_ok gp (ONESHOT_SID_BASE + int i) ''oneshot'' (os ! i)"
  shows "mset (class_requests ''tool'' reqs) = mset (concat ss)" "mset (class_requests ''rag'' reqs) = mset rs"
    "mset (class_requests ''oneshot'' reqs) = mset os"
proof -
  have "r \<in> set (concat ss) \<Longrightarrow> r_kind r = ''tool''" for r
    using sessions_member [OF assms(2)] by (metis turn_ok_def)
  moreover have "r \<in> set rs \<Longrightarrow> r_kind r = ''rag''" "r \<in> set os \<Longrightarrow> r_kind r = ''oneshot''" for r
    using assms(3,4) by (auto simp: single_ok_def in_set_conv_nth)
  ultimately have kinds: "r \<in> set (concat ss) \<Longrightarrow> r_kind r = ''tool''" "r \<in> set rs \<Longrightarrow> r_kind r = ''rag''"
      "r \<in> set os \<Longrightarrow> r_kind r = ''oneshot''" for r by blast+
  have part: "class_requests k (concat ss) = (if k = ''tool'' then concat ss else [])"
      "class_requests k rs = (if k = ''rag'' then rs else [])" "class_requests k os = (if k = ''oneshot'' then os else [])" for k
    by (rule class_requests_all, erule kinds)+
  have "mset (class_requests k reqs) = mset (class_requests k (concat ss @ rs @ os))" for k
    using assms(1) by (simp only: class_requests_def mset_filter)
  then show "mset (class_requests ''tool'' reqs) = mset (concat ss)" "mset (class_requests ''rag'' reqs) = mset rs"
      "mset (class_requests ''oneshot'' reqs) = mset os"
    unfolding class_requests_append part by simp_all
qed

lemma mixed_distinct:
  assumes "mset reqs = mset (concat ss @ rs @ os)" "sessions_ok gp n ss"
    and "\<forall>i < length rs. single_ok gp (RAG_SID_BASE + int i) ''rag'' (rs ! i)"
    and "\<forall>i < length os. single_ok gp (ONESHOT_SID_BASE + int i) ''oneshot'' (os ! i)"
    and "length ss \<le> 1000000" "length rs \<le> 1000000"
  shows "distinct (map request_key reqs)"
proof -
  note keys = single_keys [OF assms(3)] single_keys [OF assms(4)]
  have "distinct (map request_key (concat ss))"
    using session_keys_distinct [OF assms(2)] by (metis mset_eq_imp_distinct_iff mset_map mset_py_sort)
  moreover have "set (map request_key (concat ss)) \<inter> set (map request_key (rs @ os)) = {}"
    using tool_keys [OF assms(2)] assms(5) keys by (fastforce simp: RAG_SID_BASE_def ONESHOT_SID_BASE_def)
  moreover have "distinct (map request_key (rs @ os))"
    unfolding map_append keys distinct_append
    using assms(6) by (auto simp: distinct_offset RAG_SID_BASE_def ONESHOT_SID_BASE_def)
  ultimately have "distinct (map request_key (concat ss @ rs @ os))" by (simp only: map_append distinct_append)
  then show ?thesis using assms(1) by (metis mset_eq_imp_distinct_iff mset_map)
qed

lemma keys_of_mset: "mset xs = mset ys \<Longrightarrow> request_key ` set xs = set (map request_key ys)"
  by (metis set_map set_mset_mset)

lemma fmul_1: "is_f64 x \<Longrightarrow> x * Fin 1 = x"
  by (cases x) (auto simp: signed_inf_def)

lemma share_all: "\<bar>n\<bar> \<le> 2 ^ 53 \<Longrightarrow> share n (Fin 1) = Inr n"
  using moderate_of_int [of n] rnd_of_int [of n] by (simp add: share_def int_times_def)

lemma mixed_all_tool:
  assumes "effective_mix m = [(''tool'', Fin 1)]" and "\<bar>num\<bar> \<le> 2 ^ 53" and "is_f64 qps"
  shows "generate_mixed L num turns qps m gp mp v =
    rbind (generate_sessions L num turns qps gp v) (\<lambda>(reqs, v'). Inr (py_sort request_less reqs, v'))"
  by (cases "generate_sessions L num turns qps gp v")
    (simp_all add: generate_mixed_def assms(1) unknown_classes_def WORKLOAD_CLASSES_def d_keys_def mix_get_def
      d_get_def tool_stream_def rag_stream_def oneshot_stream_def zero_pyfloat_def share_all [OF assms(2)]
      fmul_1 [OF assms(3)] split_beta)

text \<open>An all-tool mix (also the default, when no mix or an empty one is given) reproduces the stream
  of \<open>generate_sessions\<close> exactly.\<close>

lemma mixed_tool_only:
  assumes "effective_mix m = [(''tool'', Fin 1)]" and "\<bar>num\<bar> \<le> 2 ^ 53" and "is_f64 qps"
    and "random_ok L" and "gen_ok gp" and "turns \<le> 2 ^ 53"
    and "fdiv qps (Fin (of_int (max turns 1))) = Inr rate" and "rate \<noteq> NaN"
    and "bursts_ok (gp_burst_cv gp) (py_max2 rate (rnd (1 / 10 ^ 9)))"
  shows "generate_mixed L num turns qps m gp mp v = generate_sessions L num turns qps gp v"
proof -
  obtain ss v' where ss: "generate_sessions L num turns qps gp v = Inr (py_sort request_less (concat ss), v')"
      "ordered_sessions ss"
    using generate_sessions_returns [OF assms(4,5,7,8,6,9)] by metis
  have "py_sort request_less (py_sort request_less (concat ss)) = py_sort request_less (concat ss)"
    by (rule request_sorter.idem [OF ordered_arrivals [OF ss(2)]])
  then show ?thesis by (simp add: mixed_all_tool [OF assms(1-3)] ss(1))
qed

lemma demo_mixed:
  obtains ss v' where
    "generate_mixed demo_random 2 2 (Fin 4) None default_gen_params default_mix_params initial_vocab =
       Inr (py_sort request_less (py_sort request_less (concat ss)), v')"
    "length ss = 2" "sessions_ok default_gen_params 2 ss"
proof -
  obtain ss v' where ss: "generate_sessions demo_random 2 2 (Fin 4) default_gen_params initial_vocab =
       Inr (py_sort request_less (concat ss), v')" "length ss = 2" "sessions_ok default_gen_params 2 ss"
    using demo_sessions by metis
  have "is_f64 (Fin 4)" using rnd_of_int [of 4] by simp
  then show thesis using that [OF _ ss(2,3)] ss(1) mixed_all_tool [of None 2 "Fin 4" demo_random 2]
    by (simp add: effective_mix_def)
qed

section \<open>The router's classifier\<close>

lemma user_prompt_words: "u \<in> set USER_PROMPTS \<Longrightarrow> length (py_split u) < 128"
  by (auto simp: USER_PROMPTS_def py_split_def is_space_def)

lemma rng_choice_mem: "random_ok L \<Longrightarrow> xs \<noteq> [] \<Longrightarrow> rng_choice L xs r = Inr (x, r') \<Longrightarrow> x \<in> set xs"
  using rng_choice_returns [of L xs r] by (metis prod.inject sum.inject(2))

lemma classify_messages:
  "classify (request_view r) =
     (if list_ex (\<lambda>m. m_role m = ''tool'') (r_messages r) then ''tool''
      else if length (r_messages r) \<le> 1 then ''oneshot''
      else if 128 \<le> length (py_split (m_content (last (r_messages r)))) then ''rag'' else ''tool'')"
  by (auto simp: classify_def request_view_def Let_def RAG_USER_TOKENS_def)

lemma classify_tool_turn:
  assumes "random_ok L" "turn_ok gp sid k r" "opened L r"
  shows "classify (request_view r) = ''tool''"
proof (cases "k = 0")
  case True
  then have "r_turn_idx r = 0" using assms(2) by (simp add: turn_ok_def)
  then obtain u s s' where u: "rng_choice L USER_PROMPTS s = Inr (u, s')"
      "r_messages r = [plain_message ''system'' SYSTEM_PROMPT, plain_message ''user'' u]"
    using assms(3) by (auto simp: opened_def)
  have "u \<in> set USER_PROMPTS" using rng_choice_mem [OF assms(1) texts_nonempty(2) u(1)] .
  then show ?thesis using user_prompt_words [of u] by (simp add: classify_messages u(2) plain_message_def not_le)
next
  case False
  have c: "chat_ok (r_messages r)" "length (r_messages r) = 2 + 3 * k"
    using assms(2) by (simp_all add: turn_ok_def)
  then obtain s u ms where ms: "r_messages r = s # u # ms" "rounds_ok ms"
    by (cases "r_messages r" rule: chat_ok.cases) auto
  then have "ms \<noteq> []" using c(2) False by auto
  then have "list_ex (\<lambda>m. m_role m = ''tool'') ms" using ms(2) by (cases ms rule: rounds_ok.cases) auto
  then show ?thesis by (simp add: classify_messages ms(1))
qed

text \<open>C26: from the shape of a generated request alone the router recovers its workload class: on every
  request of a mixed stream whose RAG documents and questions have at least 128 words together,
  \<open>classify\<close> on the router's view is the ground-truth kind the view hides.\<close>

theorem classifier_recovers_kind:
  assumes "generate_mixed L num turns qps m gp mp v = Inr (reqs, v')" and "random_ok L"
    and "128 \<le> nat (rag_doc_tokens mp) + nat (rag_question_tokens mp)" and "r \<in> set reqs"
  shows "classify (request_view r) = r_kind r"
proof -
  obtain ss rs os where g: "mset reqs = mset (concat ss @ rs @ os)" "unknown_classes (effective_mix m) = []"
    "nearest_share num (mix_get (effective_mix m) ''tool'') (length ss)" "sessions_ok gp (nat turns) ss"
    "list_all (list_all (opened L)) ss"
    "nearest_share (num * turns) (mix_get (effective_mix m) ''rag'') (length rs)" "\<forall>i < length rs. rag_ok gp mp i (rs ! i)"
    "nearest_share (num * turns) (mix_get (effective_mix m) ''oneshot'') (length os)" "\<forall>i < length os. oneshot_ok gp mp i (os ! i)"
    using generate_mixed_spec [OF assms(1)] .
  have "r \<in> set (concat ss @ rs @ os)" using assms(4) g(1) by (metis set_mset_mset)
  then consider "r \<in> set (concat ss)" | i where "rag_ok gp mp i r" | i where "oneshot_ok gp mp i r"
    using g(7,9) by (auto simp: in_set_conv_nth)
  then show ?thesis
  proof cases
    case 1
    then obtain i k where t: "turn_ok gp (int i) k r" using sessions_member [OF g(4)] by blast
    have "opened L r" using 1 g(5) by (auto simp: list_all_iff)
    with classify_tool_turn [OF assms(2) t] t show ?thesis by (simp add: turn_ok_def)
  next
    case 2
    then show ?thesis using assms(3) by (auto simp: rag_ok_def single_ok_def classify_messages plain_message_def)
  next
    case 3
    then show ?thesis by (auto simp: oneshot_ok_def single_ok_def classify_messages plain_message_def)
  qed
qed

theorem classifier_recovers_kind_witness:
  "\<exists>reqs v' r. generate_mixed demo_random 2 2 (Fin 4) None default_gen_params default_mix_params initial_vocab =
     Inr (reqs, v') \<and> r \<in> set reqs \<and> classify (request_view r) = r_kind r"
proof -
  obtain ss v' where g: "generate_mixed demo_random 2 2 (Fin 4) None default_gen_params default_mix_params initial_vocab =
     Inr (py_sort request_less (py_sort request_less (concat ss)), v')" "length ss = 2" "sessions_ok default_gen_params 2 ss"
    using demo_mixed by metis
  have "length (ss ! 0) = 2" using g(2) g(3) [unfolded sessions_ok_def, rule_format, of 0] by simp
  then have "ss ! 0 ! 0 \<in> set (ss ! 0)" "ss ! 0 \<in> set ss" using g(2) by (auto intro: nth_mem)
  then have "ss ! 0 ! 0 \<in> set (concat ss)" unfolding set_concat by blast
  then have r: "ss ! 0 ! 0 \<in> set (py_sort request_less (py_sort request_less (concat ss)))"
    by (simp only: set_py_sort)
  have "128 \<le> nat (rag_doc_tokens default_mix_params) + nat (rag_question_tokens default_mix_params)"
    by (simp add: default_mix_params_def)
  from classifier_recovers_kind [OF g(1) demo_random_ok this r] g(1) r show ?thesis by blast
qed

end
