(* ===== verification/Accounting.thy ===== *)
theory Accounting
  imports Engine
begin

text \<open>
  The bookkeeping of \<open>src/bench/sim/engine.py\<close>: what one recorded turn and the coupling
  test do, the aggregate counters against the per-class slices, the derived metrics, and
  the future-use index of Belady's policy.
\<close>

section \<open>Sums over a dictionary\<close>

definition d_sum :: "('v \<Rightarrow> int) \<Rightarrow> ('k, 'v) pydict \<Rightarrow> int" where
  "d_sum f d = sum_list (map (\<lambda>x. f (snd x)) d)"

lemma d_sum_simps [simp]: "d_sum f [] = 0" "d_sum f (x # d) = f (snd x) + d_sum f d"
  by (simp_all add: d_sum_def)

lemma d_sum_set:
  "d_sum f (d_set k v d) = d_sum f d + f v - (case d_get d k of None \<Rightarrow> 0 | Some u \<Rightarrow> f u)"
  by (induction d) (auto simp: d_set_def d_get_def)

lemma d_sum_nonneg: "list_all (\<lambda>x. 0 \<le> f (snd x)) d \<Longrightarrow> 0 \<le> d_sum f d"
  by (induction d) auto

lemma d_get_le_sum:
  "list_all (\<lambda>x. 0 \<le> f (snd x)) d \<Longrightarrow> d_get d k = Some v \<Longrightarrow> 0 \<le> f v \<and> f v \<le> d_sum f d"
proof (induction d)
  case (Cons x d)
  then show ?case using d_sum_nonneg [of f d] by (cases x) (auto simp: d_get_def split: if_splits)
qed simp

section \<open>The accounts of a run\<close>

text \<open>The part of a per-request list that belongs to one workload class\<close>

definition slice :: "string \<Rightarrow> TurnRequest list \<Rightarrow> 'a list \<Rightarrow> 'a list" where
  "slice k reqs xs = map snd (filter (\<lambda>(q, x). r_kind q = k) (zip reqs xs))"

lemma slice_snoc:
  "length reqs = length xs \<Longrightarrow>
   slice k (reqs @ [q]) (xs @ [x]) = slice k reqs xs @ (if r_kind q = k then [x] else [])"
  by (simp add: slice_def)

lemma slice_Nil [simp]: "slice k [] [] = []"
  by (simp add: slice_def)

definition block_count :: "TurnRequest list \<Rightarrow> int" where
  "block_count reqs = sum_list (map (\<lambda>q. int (length (r_block_hashes q))) reqs)"

definition of_kind :: "string \<Rightarrow> TurnRequest list \<Rightarrow> TurnRequest list" where
  "of_kind k reqs = filter (\<lambda>q. r_kind q = k) reqs"

text \<open>Lengths, counters and class slices after the requests \<open>reqs\<close>\<close>

definition counted :: "TurnRequest list \<Rightarrow> SimResult \<Rightarrow> bool" where
  "counted reqs r \<longleftrightarrow>
     length (ttfts r) = length reqs \<and> length (e2e_latencies r) = length reqs \<and>
     length (regrets r) = length reqs \<and> successes r = int (length reqs) \<and> errors r = 0 \<and>
     0 \<le> coupled r \<and> coupled r \<le> successes r \<and>
     d_sum id (regimes r) = successes r \<and> list_all (\<lambda>x. 0 \<le> snd x) (regimes r) \<and>
     0 \<le> reused_blocks r \<and> reused_blocks r \<le> total_blocks r \<and> total_blocks r = block_count reqs"

definition sliced :: "TurnRequest list \<Rightarrow> SimResult \<Rightarrow> bool" where
  "sliced reqs r \<longleftrightarrow>
     d_sum k_count (by_kind r) = successes r \<and>
     d_sum k_reused_blocks (by_kind r) = reused_blocks r \<and>
     d_sum k_total_blocks (by_kind r) = total_blocks r \<and>
     (\<forall>k. case d_get (by_kind r) k of
            None \<Rightarrow> of_kind k reqs = []
          | Some ks \<Rightarrow>
              k_count ks = int (length (of_kind k reqs)) \<and> of_kind k reqs \<noteq> [] \<and>
              k_ttfts ks = slice k reqs (ttfts r) \<and> k_regrets ks = slice k reqs (regrets r) \<and>
              0 \<le> k_reused_blocks ks \<and> k_reused_blocks ks \<le> k_total_blocks ks \<and>
              k_total_blocks ks = block_count (of_kind k reqs))"

definition regrets_ok :: "SimResult \<Rightarrow> bool" where
  "regrets_ok r \<longleftrightarrow> list_all (\<lambda>x. 0 \<le> x) (regrets r)"

definition accounts :: "TurnRequest list \<Rightarrow> SimResult \<Rightarrow> bool" where
  "accounts reqs r \<longleftrightarrow> counted reqs r \<and> sliced reqs r \<and> regrets_ok r"

lemma accounts_new: "accounts [] new_result"
  by (simp add: accounts_def counted_def sliced_def regrets_ok_def new_result_def block_count_def
      of_kind_def)

lemma note_gap_frame [simp]:
  "ttfts (note_gap t g r) = ttfts r" "e2e_latencies (note_gap t g r) = e2e_latencies r"
  "successes (note_gap t g r) = successes r" "errors (note_gap t g r) = errors r"
  "regimes (note_gap t g r) = regimes r" "regrets (note_gap t g r) = regrets r"
  "coupled (note_gap t g r) = coupled r" "reused_blocks (note_gap t g r) = reused_blocks r"
  "total_blocks (note_gap t g r) = total_blocks r" "by_kind (note_gap t g r) = by_kind r"
  by (simp_all add: note_gap_def split: option.split)

definition turn_result ::
    "TurnRequest \<Rightarrow> pyfloat option \<Rightarrow> bool \<Rightarrow> Placement \<Rightarrow> pyfloat \<Rightarrow> pyfloat \<Rightarrow> int \<Rightarrow> SimResult \<Rightarrow> SimResult" where
  "turn_result req gap is_c realized e2e regret resident r =
     (let r1 = note_gap (r_tool_name req) gap r;
          r2 = (if is_c then r1\<lparr>coupled := coupled r1 + 1\<rparr> else r1)
      in record_turn (r_kind req) realized e2e regret resident (int (length (r_block_hashes req))) r2)"

lemma list_all_regime_set:
  "list_all (\<lambda>x. 0 \<le> snd x) (d :: (Regime, int) pydict) \<Longrightarrow> 0 \<le> v \<Longrightarrow>
   list_all (\<lambda>x. 0 \<le> snd x) (d_set k v d)"
  using list_all_d_set [of "\<lambda>x. 0 \<le> snd x"] by simp

lemma regime_count_nonneg: "list_all (\<lambda>x. 0 \<le> snd x) (regimes r) \<Longrightarrow> 0 \<le> regime_count r g"
  using d_get_le_sum [of id "regimes r" g] by (auto simp: regime_count_def split: option.split)

lemma turn_counted:
  assumes "counted reqs r" "0 \<le> resident" "resident \<le> int (length (r_block_hashes req))"
  shows "counted (reqs @ [req]) (turn_result req gap is_c realized e2e regret resident r)"
proof -
  have "regimes (turn_result req gap is_c realized e2e regret resident r) =
      d_set (p_regime realized) (regime_count r (p_regime realized) + 1) (regimes r)"
    by (simp add: turn_result_def record_turn_def Let_def regime_count_def)
  moreover have "d_sum id (d_set (p_regime realized) (regime_count r (p_regime realized) + 1) (regimes r)) =
      d_sum id (regimes r) + 1"
    by (simp add: d_sum_set regime_count_def split: option.split)
  moreover have "list_all (\<lambda>x. 0 \<le> snd x)
      (d_set (p_regime realized) (regime_count r (p_regime realized) + 1) (regimes r))"
    using assms(1) regime_count_nonneg [of r "p_regime realized"]
    by (intro list_all_regime_set) (simp_all add: counted_def)
  ultimately show ?thesis
    using assms by (auto simp: counted_def block_count_def turn_result_def record_turn_def Let_def)
qed

lemma turn_by_kind:
  "by_kind (turn_result req gap is_c realized e2e regret resident r) =
     d_set (r_kind req)
       (kind_update (p_ttft realized) regret resident (int (length (r_block_hashes req)))
         (case d_get (by_kind r) (r_kind req) of None \<Rightarrow> new_kind_stats | Some k \<Rightarrow> k))
       (by_kind r)"
  by (simp add: turn_result_def record_turn_def Let_def)

lemma turn_lists:
  "ttfts (turn_result req gap is_c realized e2e regret resident r) = ttfts r @ [p_ttft realized]"
  "regrets (turn_result req gap is_c realized e2e regret resident r) = regrets r @ [regret]"
  "successes (turn_result req gap is_c realized e2e regret resident r) = successes r + 1"
  "reused_blocks (turn_result req gap is_c realized e2e regret resident r) = reused_blocks r + resident"
  "total_blocks (turn_result req gap is_c realized e2e regret resident r) =
     total_blocks r + int (length (r_block_hashes req))"
  by (simp_all add: turn_result_def record_turn_def Let_def)

lemma turn_sliced:
  assumes c: "counted reqs r" and s: "sliced reqs r"
    and res: "0 \<le> resident" "resident \<le> int (length (r_block_hashes req))"
  shows "sliced (reqs @ [req]) (turn_result req gap is_c realized e2e regret resident r)"
proof -
  let ?r = "turn_result req gap is_c realized e2e regret resident r"
  let ?k = "r_kind req" and ?n = "int (length (r_block_hashes req))"
  have len: "length reqs = length (ttfts r)" "length reqs = length (regrets r)"
    using c by (simp_all add: counted_def)
  note slices = slice_snoc [OF len(1)] slice_snoc [OF len(2)]
  have "case d_get (by_kind ?r) k of
        None \<Rightarrow> of_kind k (reqs @ [req]) = []
      | Some ks \<Rightarrow>
          k_count ks = int (length (of_kind k (reqs @ [req]))) \<and> of_kind k (reqs @ [req]) \<noteq> [] \<and>
          k_ttfts ks = slice k (reqs @ [req]) (ttfts ?r) \<and>
          k_regrets ks = slice k (reqs @ [req]) (regrets ?r) \<and>
          0 \<le> k_reused_blocks ks \<and> k_reused_blocks ks \<le> k_total_blocks ks \<and>
          k_total_blocks ks = block_count (of_kind k (reqs @ [req]))" for k
  proof (cases "k = ?k")
    case False
    then have "d_get (by_kind ?r) k = d_get (by_kind r) k" by (simp add: turn_by_kind d_get_set)
    with False s show ?thesis
      by (cases "d_get (by_kind r) k") (auto simp: sliced_def of_kind_def turn_lists slices dest!: spec [of _ k])
  next
    case True
    then have *: "d_get (by_kind ?r) k = Some (kind_update (p_ttft realized) regret resident ?n
        (case d_get (by_kind r) k of None \<Rightarrow> new_kind_stats | Some ks \<Rightarrow> ks))"
      by (simp add: turn_by_kind d_get_set)
    show ?thesis
    proof (cases "d_get (by_kind r) k")
      case None
      then have e: "of_kind k reqs = []" using s by (auto simp: sliced_def dest!: spec [of _ k])
      then have "slice k reqs xs = []" for xs :: "pyfloat list"
        by (auto simp: slice_def of_kind_def filter_empty_conv dest: set_zip_leftD)
      then show ?thesis using * None True e res
        by (simp add: kind_update_def new_kind_stats_def of_kind_def turn_lists slices block_count_def)
    next
      case (Some ks)
      then have "k_count ks = int (length (of_kind k reqs)) \<and>
          k_ttfts ks = slice k reqs (ttfts r) \<and> k_regrets ks = slice k reqs (regrets r) \<and>
          0 \<le> k_reused_blocks ks \<and> k_reused_blocks ks \<le> k_total_blocks ks \<and>
          k_total_blocks ks = block_count (of_kind k reqs)"
        using s by (auto simp: sliced_def dest!: spec [of _ k])
      then show ?thesis using * Some True res
        by (simp add: kind_update_def of_kind_def turn_lists slices block_count_def)
    qed
  qed
  moreover have "d_sum k_count (by_kind ?r) = successes ?r"
    "d_sum k_reused_blocks (by_kind ?r) = reused_blocks ?r"
    "d_sum k_total_blocks (by_kind ?r) = total_blocks ?r"
    using s by (simp_all add: sliced_def turn_by_kind turn_lists d_sum_set kind_update_def
        new_kind_stats_def split: option.split)
  ultimately show ?thesis unfolding sliced_def by blast
qed

lemma turn_accounts:
  assumes "accounts reqs r" "0 \<le> resident" "resident \<le> int (length (r_block_hashes req))" "0 \<le> regret"
  shows "accounts (reqs @ [req]) (turn_result req gap is_c realized e2e regret resident r)"
  using assms turn_counted turn_sliced by (simp add: accounts_def regrets_ok_def turn_lists)

section \<open>Derived metrics\<close>

lemma int_div_fraction:
  assumes "0 \<le> a" "a \<le> b" "b \<noteq> 0"
  shows "\<exists>x. int_div a b = Inr x \<and> 0 \<le> x \<and> x \<le> 1"
proof -
  have b: "0 < b" using assms by simp
  then have "0 \<le> rat_of_int a / of_int b" using assms(1) by simp
  then have nn: "Fin 0 \<le> rnd (of_int a / of_int b)" by (rule rnd_nonneg)
  have "rat_of_int a / of_int b \<le> 1" using assms(2) b by simp
  then have "rnd (of_int a / of_int b) \<le> Fin 1" by (rule rnd_le_Fin) simp
  with nn b show ?thesis
    by (cases "rnd (of_int a / of_int b)") (auto simp: int_div_def zero_pyfloat_def one_pyfloat_def)
qed

lemma ratio_fraction:
  "0 \<le> a \<Longrightarrow> a \<le> b \<Longrightarrow> \<exists>x. ratio_or_zero a b = Inr x \<and> 0 \<le> x \<and> x \<le> 1"
  using int_div_fraction [of a b]
  by (cases "b = 0") (auto simp: ratio_or_zero_def zero_pyfloat_def one_pyfloat_def)

lemma regime_mix_fractions:
  assumes "list_all (\<lambda>x. 0 \<le> snd x) (regimes r)"
  shows "\<exists>mix. regime_mix r = Inr mix \<and> map fst mix = all_regimes \<and>
    list_all (\<lambda>x. 0 \<le> snd x \<and> snd x \<le> 1) mix"
proof (cases "sum_list (map snd (regimes r)) = 0")
  case True
  then show ?thesis
    by (simp add: regime_mix_def all_regimes_def zero_pyfloat_def one_pyfloat_def)
next
  case False
  let ?c = "sum_list (map snd (regimes r))"
  have "?c = d_sum id (regimes r)" by (simp add: d_sum_def)
  then have le: "0 \<le> regime_count r g \<and> regime_count r g \<le> ?c" for g
    using d_get_le_sum [of id "regimes r" g] d_sum_nonneg [of id "regimes r"] assms
    by (auto simp: regime_count_def split: option.split)
  have "\<exists>x. int_div (regime_count r g) ?c = Inr x \<and> 0 \<le> x \<and> x \<le> 1" for g
    using int_div_fraction le False by blast
  then obtain x where x: "int_div (regime_count r g) ?c = Inr (x g) \<and> 0 \<le> x g \<and> x g \<le> 1" for g
    by metis
  then show ?thesis using False by (simp add: regime_mix_def all_regimes_def)
qed

section \<open>Future uses\<close>

definition uses_list :: "(int, int list) pydict \<Rightarrow> int \<Rightarrow> int list" where
  "uses_list d h = (case d_get d h of None \<Rightarrow> [] | Some us \<Rightarrow> us)"

lemma uses_list_add:
  "uses_list (add_use idx b d) h = uses_list d h @ (if h = b then [idx] else [])"
  by (auto simp: uses_list_def add_use_def d_get_set split: option.split)

lemma uses_list_adds:
  "uses_list (fold (add_use idx) bs d) h = uses_list d h @ replicate (count_list bs h) idx"
proof (induction bs arbitrary: d)
  case (Cons b bs)
  then show ?case by (auto simp: uses_list_add replicate_append_same [symmetric])
qed simp

lemma add_use_no_empty: "\<forall>h. d_get d h \<noteq> Some [] \<Longrightarrow> \<forall>h. d_get (add_use idx b d) h \<noteq> Some []"
  by (auto simp: add_use_def d_get_set split: option.split)

lemma adds_no_empty:
  "\<forall>h. d_get d h \<noteq> Some [] \<Longrightarrow> \<forall>h. d_get (fold (add_use idx) bs d) h \<noteq> Some []"
proof (induction bs arbitrary: d)
  case (Cons b bs)
  from Cons.IH [OF add_use_no_empty [OF Cons.prems]] show ?case by simp
qed simp

text \<open>The positions from \<open>idx\<close> on at which the block \<open>h\<close> is requested\<close>

fun occurrences :: "int \<Rightarrow> TurnRequest list \<Rightarrow> int \<Rightarrow> int list" where
  "occurrences idx [] h = []"
| "occurrences idx (req # reqs) h =
     replicate (count_list (r_block_hashes req) h) idx @ occurrences (idx + 1) reqs h"

lemma future_uses_from_spec:
  assumes "\<forall>h. d_get d h \<noteq> Some []"
  shows "uses_list (future_uses_from idx reqs d) h = uses_list d h @ occurrences idx reqs h \<and>
    (\<forall>h. d_get (future_uses_from idx reqs d) h \<noteq> Some [])"
  using assms
proof (induction reqs arbitrary: idx d)
  case (Cons req reqs)
  from Cons.IH [OF adds_no_empty [OF Cons.prems]] show ?case by (simp add: uses_list_adds)
qed simp

lemma occurrences_ge: "i \<in> set (occurrences idx reqs h) \<Longrightarrow> idx \<le> i"
  by (induction reqs arbitrary: idx) (force split: if_splits)+

lemma occurrences_sorted: "sorted (occurrences idx reqs h)"
proof (induction reqs arbitrary: idx)
  case (Cons req reqs)
  then show ?case using occurrences_ge [of _ "idx + 1" reqs h]
    by (fastforce simp: sorted_append sorted_replicate)
qed simp

lemma occurrences_nth:
  "idx + int i \<in> set (occurrences idx reqs h) \<longleftrightarrow>
   i < length reqs \<and> h \<in> set (r_block_hashes (reqs ! i))"
proof (induction reqs arbitrary: idx i)
  case (Cons req reqs)
  show ?case
  proof (cases i)
    case 0
    have "idx \<notin> set (occurrences (idx + 1) reqs h)" using occurrences_ge by fastforce
    then show ?thesis using 0 count_list_0_iff [of "r_block_hashes req" h] by auto
  next
    case (Suc j)
    have eq: "idx + int i = idx + 1 + int j" using Suc by simp
    show ?thesis unfolding eq using Cons.IH [of "idx + 1" j] Suc by (simp add: set_replicate_conv_if)
  qed
qed simp

lemma build_future_uses_get:
  "d_get (build_future_uses reqs) h =
     (if occurrences 0 reqs h = [] then None else Some (occurrences 0 reqs h))"
  using future_uses_from_spec [of "[]" 0 reqs h]
  by (auto simp: build_future_uses_def uses_list_def split: option.splits)

lemma d_ok_add_use: "d_ok d \<Longrightarrow> d_ok (add_use idx b d)"
  by (simp add: add_use_def split: option.split)

lemma d_ok_future_uses: "d_ok d \<Longrightarrow> d_ok (future_uses_from idx reqs d)"
proof (induction reqs arbitrary: idx d)
  case (Cons req reqs)
  have "d_ok (fold (add_use idx) bs d)" for bs
    using Cons.prems by (induction bs arbitrary: d) (simp_all add: d_ok_add_use)
  with Cons.IH show ?case by simp
qed simp

lemma build_future_uses_ok: "uses_ok (build_future_uses reqs)"
proof -
  have ok: "d_ok (build_future_uses reqs)" by (simp add: build_future_uses_def d_ok_future_uses)
  have "sorted us \<and> list_all (\<lambda>i. 0 \<le> i) us" if "(h, us) \<in> set (build_future_uses reqs)" for h us
  proof -
    have "d_get (build_future_uses reqs) h = Some us"
      using that ok by (simp add: d_get_def d_ok_def d_keys_def map_of_is_SomeI)
    then have "us = occurrences 0 reqs h" by (auto simp: build_future_uses_get split: if_splits)
    then show ?thesis using occurrences_sorted occurrences_ge by (auto simp: list_all_iff)
  qed
  then show ?thesis by (auto simp: uses_ok_def list_all_iff)
qed

section \<open>Coupling\<close>

lemma make_idle_ids: "map node_id (make_idle now nodes) = map node_id nodes"
  by (simp add: make_idle_def)

lemma predict_cong:
  "node_id n = node_id m \<Longrightarrow> cache n = cache m \<Longrightarrow> wait n now = wait m now \<Longrightarrow>
   node_id hot = node_id hot' \<Longrightarrow> cache hot = cache hot' \<Longrightarrow>
   predict bs n now ps hot tr = predict bs m now ps hot' tr"
  by (simp only: predict_def seeded_blocks_def matched_def Let_def)

lemma is_coupled_returns:
  "query_ok ps now bs \<Longrightarrow> nodes \<noteq> [] \<Longrightarrow> \<exists>c. is_coupled bs nodes now ps loaded = Inr c"
  using best_placement_returns [of ps now bs "make_idle now nodes" True]
  by (auto simp: is_coupled_def make_idle_def)

end
