(* ===== verification/Runs.thy ===== *)
theory Runs
  imports Simulation
begin

text \<open>
  Whole runs of the simulator under the policies of the registry: when they return, what
  their result satisfies, and what the engine's comparison with the oracle means.
\<close>

section \<open>Policies that never raise\<close>

lemma sim_run_head:
  "reqs = req # rest \<Longrightarrow> sim_step call ps idx req st = None \<Longrightarrow> sim_run call ps idx reqs st = None"
  by simp

locale total_policy = routing_policy call for call :: "'s policy" +
  fixes inv :: "nat \<Rightarrow> 's \<Rightarrow> bool" and ready :: "CostParams \<Rightarrow> pyfloat \<Rightarrow> node list \<Rightarrow> bool"
  assumes call_returns:
    "inv (length nodes) s \<Longrightarrow> query_ok ps now (v_blocks req) \<Longrightarrow> ids_ok nodes \<Longrightarrow> nodes \<noteq> [] \<Longrightarrow>
     ready ps now nodes \<Longrightarrow> \<exists>p s'. call req nodes now ps s = Inr (p, s') \<and> inv (length nodes) s'"
begin

lemma step_decides:
  assumes "request_ok ps req" "cluster_ok len cap ev (sim_nodes st)" "0 < len"
    "inv len (sim_policy st)" "ready ps (r_arrival req) (sim_nodes st)"
  obtains d hot where "decide call ps req st = Inr d" "decided call ps req st d hot" "inv len (d_policy d)"
proof -
  have c: "length (sim_nodes st) = len" "ids_ok (sim_nodes st)" "sim_nodes st \<noteq> []"
    using assms(2,3) by (auto simp: cluster_ok_def)
  have q: "query_ok ps (r_arrival req) (v_blocks (request_view req))"
    using assms(1) by (simp add: request_ok_def)
  obtain p s' where call: "call (request_view req) (sim_nodes st) (r_arrival req) ps (sim_policy st)
      = Inr (p, s')" "inv len s'"
    using call_returns [OF _ q c(2,3) assms(5)] assms(4) c(1) by blast
  from decide_ok [OF assms(1) c(2,3) call(1)] obtain d hot where
    "decide call ps req st = Inr d" "decided call ps req st d hot" by blast
  moreover from this(2) have "inv len (d_policy d)" using call by (simp add: decided_def)
  ultimately show thesis using that by blast
qed

lemma step_admits:
  assumes "request_ok ps req" "cluster_ok len cap ev (sim_nodes st)" "decided call ps req st d hot"
  shows "(\<exists>n. admit (r_arrival req) (d_service d) (r_block_hashes req) (p_retain_until (d_chosen d)) idx
      (p_priority (d_chosen d)) (sim_nodes st ! d_pos d) = Some n) \<longleftrightarrow> 0 \<le> cap"
proof -
  have "d_pos d < len" "0 \<le> d_service d" using assms(2,3) by (simp_all add: decided_def cluster_ok_def)
  with cluster_nth [OF assms(2)] request_timing [OF assms(1)]
  have "node_ok (sim_nodes st ! d_pos d)" "eviction_ok (eviction (sim_nodes st ! d_pos d))"
    "timing_ok (r_arrival req) (d_service d)" "cache_capacity (sim_nodes st ! d_pos d) = cap" by auto
  then show ?thesis using admit_Some_iff by metis
qed

lemma step_returns:
  assumes "request_ok ps req" "cluster_ok len cap ev (sim_nodes st)" "0 < len" "0 \<le> cap"
    "inv len (sim_policy st)" "ready ps (r_arrival req) (sim_nodes st)"
  shows "\<exists>st'. sim_step call ps idx req st = Some (Inr st') \<and> cluster_ok len cap ev (sim_nodes st') \<and>
    inv len (sim_policy st')"
proof -
  obtain d hot where d: "decide call ps req st = Inr d" "decided call ps req st d hot" "inv len (d_policy d)"
    by (rule step_decides [OF assms(1-3,5,6)])
  obtain n where "admit (r_arrival req) (d_service d) (r_block_hashes req) (p_retain_until (d_chosen d)) idx
      (p_priority (d_chosen d)) (sim_nodes st ! d_pos d) = Some n"
    using step_admits [OF assms(1,2) d(2)] assms(4) by blast
  then obtain st' where st': "sim_step call ps idx req st = Some (Inr st')"
      "sim_policy st' = d_policy d"
    using d(1) by (simp add: sim_step_def)
  have "cluster_ok len cap ev (sim_nodes st')"
    by (rule sim_step_InrD [OF assms(1,2) st'(1)])
  with st' d(3) show ?thesis by auto
qed

lemma step_hangs:
  assumes "request_ok ps req" "cluster_ok len cap ev (sim_nodes st)" "0 < len" "cap < 0"
    "inv len (sim_policy st)" "ready ps (r_arrival req) (sim_nodes st)"
  shows "sim_step call ps idx req st = None"
proof -
  obtain d hot where d: "decide call ps req st = Inr d" "decided call ps req st d hot"
    by (rule step_decides [OF assms(1-3,5,6)])
  have "admit (r_arrival req) (d_service d) (r_block_hashes req) (p_retain_until (d_chosen d)) idx
      (p_priority (d_chosen d)) (sim_nodes st ! d_pos d) = None"
    using step_admits [OF assms(1,2) d(2)] assms(4) by (metis not_None_eq not_less)
  then show ?thesis using d(1) by (simp add: sim_step_def)
qed

lemma run_returns:
  assumes "list_all (request_ok ps) reqs" "cluster_ok len cap ev (sim_nodes st)" "0 < len" "0 \<le> cap"
    "inv len (sim_policy st)" "\<And>now nodes. ready ps now nodes"
  shows "\<exists>st'. sim_run call ps idx reqs st = Some (Inr st')"
  using assms(1,2,5)
proof (induction reqs arbitrary: idx st)
  case (Cons req reqs)
  then obtain st1 where "sim_step call ps idx req st = Some (Inr st1)"
      "cluster_ok len cap ev (sim_nodes st1)" "inv len (sim_policy st1)"
    using step_returns [OF _ Cons.prems(2) assms(3,4) Cons.prems(3) assms(6)] by fastforce
  with Cons show ?case by simp
qed simp

lemma run_simulation_iff:
  assumes "list_all (request_ok ps) reqs" "reqs \<noteq> []" "0 < k" "inv (nat k) s0"
    "\<And>now nodes. ready ps now nodes"
  shows "if 0 \<le> cap then \<exists>r. run_simulation reqs call s0 k cap ps belady = Some (Inr r)
    else run_simulation reqs call s0 k cap ps belady = None"
proof -
  let ?nodes = "make_nodes k cap (if belady then Some (build_future_uses reqs) else None)"
  let ?st = "\<lparr>sim_nodes = ?nodes, sim_result = new_result, sim_last_seen = [], sim_policy = s0\<rparr>"
  obtain ev where ev: "cluster_ok (nat k) cap ev (sim_nodes ?st)" using make_nodes_run by fastforce
  have k: "0 < nat k" using assms(3) by simp
  show ?thesis
  proof (cases "0 \<le> cap")
    case True
    obtain st' where "sim_run call ps 0 reqs ?st = Some (Inr st')"
      using run_returns [OF assms(1) ev k True _ assms(5)] assms(4) by fastforce
    then show ?thesis using True by (simp add: run_simulation_def Let_def)
  next
    case False
    obtain req rest where reqs: "reqs = req # rest" using assms(2) by (cases reqs) auto
    then have "sim_step call ps 0 req ?st = None"
      using step_hangs [OF _ ev k _ _ assms(5)] assms(1,4) False by simp
    then have "sim_run call ps 0 reqs ?st = None" by (rule sim_run_head [OF reqs])
    then show ?thesis using False by (simp add: run_simulation_def Let_def)
  qed
qed

end

section \<open>The registry\<close>

definition pol_ok :: "nat \<Rightarrow> policy_obj \<Rightarrow> bool" where
  "pol_ok len pol \<longleftrightarrow>
     (case pol of
        Weighted_Scorers ws \<Rightarrow> weighted_ok len ws
      | Class_Aware_Reliability rel \<Rightarrow> rel_ok rel
      | _ \<Rightarrow> True)"

text \<open>The policies that never look at a load signal\<close>

definition load_free :: "policy_obj \<Rightarrow> bool" where
  "load_free pol \<longleftrightarrow> (case pol of Round_Robin i \<Rightarrow> True | Cache_Local \<Rightarrow> True | Oracle \<Rightarrow> True | _ \<Rightarrow> False)"

definition load_ready :: "CostParams \<Rightarrow> pyfloat \<Rightarrow> node list \<Rightarrow> bool" where
  "load_ready ps now nodes \<longleftrightarrow> load_ok ps \<and> (\<forall>n \<in> set nodes. calm now n)"

lemma build_policy_ok: "build_policy name margin = Inr pol \<Longrightarrow> pol_ok len pol"
  by (auto simp: build_policy_def pol_ok_def new_weighted_ok new_reliability_ok split: if_splits)

lemma cache_local_returns:
  "query_ok ps now (v_blocks req) \<Longrightarrow> nodes \<noteq> [] \<Longrightarrow> \<exists>p. cache_local req nodes now ps = Inr p"
  using hot_node_Inr_iff [of "v_blocks req" nodes] predict_returns [of ps now "v_blocks req"]
  unfolding cache_local_def by (metis rbind_simps(2))

lemma oracle_returns:
  "query_ok ps now (v_blocks req) \<Longrightarrow> nodes \<noteq> [] \<Longrightarrow> \<exists>p. oracle_policy req nodes now ps = Inr p"
  unfolding oracle_policy_def by (rule best_placement_returns)

lemma load_free_returns:
  assumes "load_free pol" "query_ok ps now (v_blocks req)" "ids_ok nodes" "nodes \<noteq> []"
  shows "\<exists>p pol'. policy_call req nodes now ps pol = Inr (p, pol') \<and> load_free pol'"
proof (cases pol)
  case (Round_Robin i)
  then show ?thesis using round_robin_step [OF assms(2-4), of i]
    by (auto simp: policy_call_def wrap_def load_free_def)
next
  case Cache_Local
  then show ?thesis using cache_local_returns [OF assms(2,4)]
    by (auto simp: policy_call_def stateless_def load_free_def)
next
  case Oracle
  then show ?thesis using oracle_returns [OF assms(2,4)]
    by (auto simp: policy_call_def stateless_def load_free_def)
qed (use assms(1) in \<open>auto simp: load_free_def\<close>)

lemma load_free_ok: "load_free pol \<Longrightarrow> pol_ok len pol"
  by (cases pol) (simp_all add: load_free_def pol_ok_def)

lemma reliability_returns:
  assumes "rel_ok rel" "class_aware req nodes now ps = Inr q"
  shows "\<exists>p rel'. class_aware_reliability req nodes now ps rel = Inr (p, rel') \<and> rel_ok rel'"
proof -
  obtain rel' where l: "rel_learn req now rel = Inr rel'" "rel_ok rel'"
    using rel_learn_spec [OF assms(1)] by blast
  obtain p where "tool_directive rel' (v_last_tool_name req) now q = Inr p"
    using tool_directive_spec [OF l(2)] by blast
  with l assms(2) show ?thesis by (simp add: class_aware_reliability_def Let_def)
qed

lemma registered_returns:
  assumes ok: "pol_ok (length nodes) pol" and q: "query_ok ps now (v_blocks req)" and ids: "ids_ok nodes"
    and ne: "nodes \<noteq> []" and ready: "load_ready ps now nodes"
  shows "\<exists>p pol'. policy_call req nodes now ps pol = Inr (p, pol') \<and> pol_ok (length nodes) pol'"
proof -
  have l: "load_ok ps" "\<forall>n \<in> set nodes. calm now n" using ready by (simp_all add: load_ready_def)
  have free: ?thesis if "load_free pol" using load_free_returns [OF that q ids ne] load_free_ok by blast
  show ?thesis
  proof (cases pol)
    case Transfer_Aware
    then show ?thesis using transfer_aware_spec [OF q l(1) ne l(2)]
      by (auto simp: policy_call_def stateless_def pol_ok_def)
  next
    case (Weighted_Scorers ws)
    then show ?thesis using weighted_scorers_returns [OF q l(1) ne ids l(2), of ws] ok
      by (auto simp: policy_call_def wrap_def pol_ok_def)
  next
    case Class_Aware
    then show ?thesis using class_aware_returns [OF q l(1) ne l(2)]
      by (auto simp: policy_call_def stateless_def pol_ok_def)
  next
    case (Class_Aware_Reliability rel)
    obtain c where "class_aware req nodes now ps = Inr c" using class_aware_returns [OF q l(1) ne l(2)] by blast
    from reliability_returns [OF _ this, of rel] Class_Aware_Reliability ok show ?thesis
      by (auto simp: policy_call_def wrap_def pol_ok_def)
  qed (use free in \<open>auto simp: load_free_def\<close>)
qed

interpretation total_rr: total_policy round_robin "\<lambda>_ _. True" "\<lambda>_ _ _. True"
  by unfold_locales (use round_robin_step in blast)

interpretation total_free: total_policy policy_call "\<lambda>_. load_free" "\<lambda>_ _ _. True"
  by unfold_locales (use load_free_returns in blast)

interpretation total_registry: total_policy policy_call pol_ok load_ready
  by unfold_locales (rule registered_returns)

section \<open>Idle clusters are not coupled\<close>

lemma wait_idle: "finite_f now \<Longrightarrow> wait (n\<lparr>busy_until := now\<rparr>) now = 0"
  by (simp add: wait_def fsub_self py_max2_def)

lemma choices_map:
  "(\<And>n. node_id (f n) = node_id n) \<Longrightarrow>
   choices atr hot (map f nodes) = map (\<lambda>(n, tr). (f n, tr)) (choices atr hot nodes)"
  by (induction nodes) (simp_all add: choices_def)

lemma rmap_map: "rmap f (map g xs) = rmap (\<lambda>x. f (g x)) xs"
  by (induction xs) simp_all

lemma choices_hot: "node_id h = node_id h' \<Longrightarrow> choices atr h nodes = choices atr h' nodes"
  by (simp add: choices_def)

lemma select_from_map:
  "(\<And>x y. lt (f x) (f y) = lt x y) \<Longrightarrow> select_from lt (f b) (map f xs) = f (select_from lt b xs)"
proof (induction xs arbitrary: b)
  case (Cons x xs)
  then show ?case using Cons.IH [of "if lt x b then x else b"] by (simp split: if_splits)
qed simp

lemma hot_node_map:
  assumes "\<And>n. node_id (f n) = node_id n" "\<And>n. cache (f n) = cache n"
  shows "hot_node bs (map f nodes) = rbind (hot_node bs nodes) (\<lambda>h. Inr (f h))"
proof -
  have "hotter bs (f x) (f y) = hotter bs x y" for x y
    by (simp add: hotter_def matched_def assms)
  then show ?thesis by (cases nodes) (simp_all add: hot_node_def select_from_map)
qed

lemma best_placement_idle:
  assumes "finite_f now" "\<forall>n \<in> set nodes. wait n now = 0"
  shows "best_placement bs (make_idle now nodes) now ps atr = best_placement bs nodes now ps atr"
proof (cases "hot_node bs nodes")
  case (Inl e)
  then show ?thesis by (simp add: best_placement_def make_idle_def hot_node_map)
next
  case (Inr hot)
  let ?f = "\<lambda>n. n\<lparr>busy_until := now\<rparr>"
  have "rmap (\<lambda>(n, tr). predict bs n now ps (?f hot) tr) (map (\<lambda>(n, tr). (?f n, tr)) (choices atr hot nodes)) =
      rmap (\<lambda>(n, tr). predict bs n now ps hot tr) (choices atr hot nodes)"
    unfolding rmap_map
  proof (rule rmap_cong)
    fix c assume "c \<in> set (choices atr hot nodes)"
    then have "fst c \<in> set nodes" using set_choices [of "fst c" "snd c"] by simp
    then have w: "wait (fst c) now = 0" using assms(2) by blast
    have "predict bs (?f (fst c)) now ps (?f hot) (snd c) = predict bs (fst c) now ps hot (snd c)"
      by (rule predict_cong) (simp_all add: wait_idle [OF assms(1)] w)
    then show "(case (case c of (n, tr) \<Rightarrow> (?f n, tr)) of (n, tr) \<Rightarrow> predict bs n now ps (?f hot) tr) =
        (case c of (n, tr) \<Rightarrow> predict bs n now ps hot tr)"
      by (simp add: split_beta)
  qed
  then show ?thesis
    using Inr choices_hot [of "?f hot" hot]
    by (simp add: best_placement_def make_idle_def hot_node_map choices_map)
qed

section \<open>The oracle under its own yardstick\<close>

lemma self_regret: "0 \<le> (t :: pyfloat) \<Longrightarrow> py_max2 0 (t - t) = 0"
  by (erule fnonneg_cases) (auto simp: minus_pyfloat_def py_max2_def zero_pyfloat_def)

lemma ids_ok_inj:
  assumes "ids_ok nodes" "j < length nodes" "n \<in> set nodes" "node_id (nodes ! j) = node_id n"
  shows "nodes ! j = n"
proof -
  obtain i where "i < length nodes" "nodes ! i = n" using assms(3) by (auto simp: in_set_conv_nth)
  then show ?thesis using ids_ok_nth [OF assms(1)] assms(2,4) by fastforce
qed

lemma oracle_step:
  assumes "request_ok ps req" "cluster_ok len cap ev (sim_nodes st)" "sim_policy st = Oracle"
    and "sim_step policy_call ps idx req st = Some (Inr st')"
  shows "sim_policy st' = Oracle \<and> regrets (sim_result st') = regrets (sim_result st) @ [0] \<and>
    cluster_ok len cap ev (sim_nodes st')"
proof -
  obtain d where d: "decide policy_call ps req st = Inr d" "sim_result st' = d_result d"
      "sim_policy st' = d_policy d" "cluster_ok len cap ev (sim_nodes st')"
    by (rule registry.sim_step_InrD [OF assms(1,2,4)])
  have ids: "ids_ok (sim_nodes st)" using assms(2) by (simp add: cluster_ok_def)
  have q: "query_ok ps (r_arrival req) (r_block_hashes req)" using assms(1) by (simp add: request_ok_def)
  obtain hot where dd: "decided policy_call ps req st d hot" by (rule registry.decide_InrD [OF assms(1) ids d(1)])
  then have o: "best_placement (r_block_hashes req) (sim_nodes st) (r_arrival req) ps True = Inr (d_oracle d)"
    and h: "hot_node (r_block_hashes req) (sim_nodes st) = Inr hot"
    and pos: "d_pos d < length (sim_nodes st)" "node_id (sim_nodes st ! d_pos d) = p_node_id (d_chosen d)"
    and rl: "predict (r_block_hashes req) (sim_nodes st ! d_pos d) (r_arrival req) ps hot
       (p_transfer (d_chosen d)) = Inr (d_realized d)"
    by (simp_all add: decided_def)
  have ch: "d_chosen d = d_oracle d" "d_policy d = Oracle"
    using dd assms(3) o by (auto simp: decided_def policy_call_def stateless_def oracle_policy_def)
  obtain n tr where n: "n \<in> set (sim_nodes st)"
      "predict (r_block_hashes req) n (r_arrival req) ps hot tr = Inr (d_oracle d)"
    using best_placement_source [OF q o h] by blast
  note f = predict_InrD [OF q n(2)]
  have "sim_nodes st ! d_pos d = n" using ids_ok_inj [OF ids pos(1) n(1)] pos(2) ch(1) f(3) by simp
  then have "d_realized d = d_oracle d" using rl n(2) ch(1) f(4) by simp
  then have "regrets (d_result d) = regrets (sim_result st) @ [0]"
    using dd self_regret [OF f(1)] by (auto simp: decided_def turn_lists)
  with d ch show ?thesis by simp
qed

lemma oracle_run:
  assumes "list_all (request_ok ps) reqs" "cluster_ok len cap ev (sim_nodes st)" "sim_policy st = Oracle"
    and "sim_run policy_call ps idx reqs st = Some (Inr st')"
  shows "regrets (sim_result st') = regrets (sim_result st) @ replicate (length reqs) 0"
  using assms
proof (induction reqs arbitrary: idx st)
  case (Cons req reqs)
  then obtain st1 where s: "sim_step policy_call ps idx req st = Some (Inr st1)"
      "sim_run policy_call ps (idx + 1) reqs st1 = Some (Inr st')"
    by (auto split: option.splits sum.splits)
  from oracle_step [OF _ Cons.prems(2,3) s(1)] Cons.prems(1)
  have "sim_policy st1 = Oracle \<and> regrets (sim_result st1) = regrets (sim_result st) @ [0] \<and>
      cluster_ok len cap ev (sim_nodes st1)" by simp
  with Cons.IH [OF _ _ _ s(2)] Cons.prems(1) show ?case by simp
qed simp

section \<open>Sample run\<close>

definition demo_request :: "pyfloat \<Rightarrow> int list \<Rightarrow> TurnRequest" where
  "demo_request t bs =
     \<lparr>r_session_id = 0, r_turn_idx = 0, r_arrival = t, r_tokens = [], r_block_hashes = bs,
      r_gen_tokens = 3, r_messages = [], r_kind = ''tool'', r_conversation_id = Some 0,
      r_tool_name = None\<rparr>"

definition demo_stream :: "TurnRequest list" where
  "demo_stream = [demo_request (Fin 0) [7, 8], demo_request (Fin 1) [7, 9]]"

lemma demo_stream_ok: "list_all (request_ok default_params) demo_stream" "demo_stream \<noteq> []"
  using default_query_ok by (simp_all add: demo_stream_def request_ok_def demo_request_def)

section \<open>Properties\<close>

text \<open>A run under a policy that reads no load signal (round robin, cache-local, either oracle)
  on at least one node returns a result when the cache capacity is not negative, whatever the
  eviction strategy; with a negative capacity it never returns.\<close>

lemma simulation_returns_iff:
  assumes "list_all (request_ok ps) reqs" and "reqs \<noteq> []" and "0 < k" and "load_free pol"
  shows "if 0 \<le> cap then \<exists>r. run_simulation reqs policy_call pol k cap ps belady = Some (Inr r)
    else run_simulation reqs policy_call pol k cap ps belady = None"
  using assms(4) by (intro total_free.run_simulation_iff assms(1-3)) simp_all

text \<open>C11: whatever registered policy drives it, a run's books balance: one TTFT, latency and regret
  per request and no errors; the regime counts add up to the successes; coupled decisions are at
  most the successes; reused blocks are at most the requested ones; and the per-class statistics
  are exactly the slices of the aggregate by workload class and sum up to it. No regret is
  negative or NaN.\<close>

theorem simulation_accounts:
  assumes "list_all (request_ok ps) reqs"
    and "run_simulation reqs policy_call pol k cap ps belady = Some (Inr r)"
  shows "counted reqs r \<and> sliced reqs r \<and> list_all (\<lambda>x. 0 \<le> x) (regrets r) \<and>
    0 \<le> pinned_evictions_total r"
  using registry.run_simulation_accounts [OF assms] by (simp add: accounts_def regrets_ok_def)

theorem simulation_accounts_witness:
  "\<exists>r. run_simulation demo_stream policy_call (Round_Robin 0) 2 4 default_params False = Some (Inr r) \<and>
    counted demo_stream r \<and> sliced demo_stream r"
proof -
  obtain r where r: "run_simulation demo_stream policy_call (Round_Robin 0) 2 4 default_params False
      = Some (Inr r)"
    using total_free.run_simulation_iff [OF demo_stream_ok, of 2 "Round_Robin 0" 4 False]
    by (auto simp: load_free_def)
  from simulation_accounts [OF demo_stream_ok(1) r] r show ?thesis by blast
qed

text \<open>C12: charging a policy its true cost never undercuts the oracle: in every iteration the realized
  TTFT of the chosen placement is at least the oracle's on the same state, so the clamp of the
  regret at zero never hides a negative difference.\<close>

theorem oracle_is_lower_bound:
  assumes "request_ok ps req" and "ids_ok (sim_nodes st)" and "decide policy_call ps req st = Inr d"
  shows "p_ttft (d_oracle d) \<le> p_ttft (d_realized d) \<and>
    best_placement (r_block_hashes req) (sim_nodes st) (r_arrival req) ps True = Inr (d_oracle d) \<and>
    (\<exists>hot. hot_node (r_block_hashes req) (sim_nodes st) = Inr hot \<and>
       predict (r_block_hashes req) (sim_nodes st ! d_pos d) (r_arrival req) ps hot
         (p_transfer (d_chosen d)) = Inr (d_realized d))"
proof -
  obtain hot where "decided policy_call ps req st d hot" by (rule registry.decide_InrD [OF assms])
  then show ?thesis by (auto simp: decided_def)
qed

definition demo_sim :: "policy_obj sim" where
  "demo_sim = \<lparr>sim_nodes = demo_cluster, sim_result = new_result, sim_last_seen = [], sim_policy = Cache_Local\<rparr>"

theorem oracle_is_lower_bound_witness:
  "\<exists>d. decide policy_call default_params (demo_request (Fin 1) [7, 8]) demo_sim = Inr d \<and>
    p_ttft (d_oracle d) \<le> p_ttft (d_realized d)"
proof -
  have req: "request_ok default_params (demo_request (Fin 1) [7, 8])"
    using default_query_ok by (simp add: request_ok_def demo_request_def)
  have st: "ids_ok (sim_nodes demo_sim)" "sim_nodes demo_sim \<noteq> []" "load_free (sim_policy demo_sim)"
    using demo_cluster_ids by (simp_all add: demo_sim_def load_free_def)
  have "query_ok default_params (r_arrival (demo_request (Fin 1) [7, 8]))
      (v_blocks (request_view (demo_request (Fin 1) [7, 8])))"
    using req by (simp add: request_ok_def)
  from load_free_returns [OF st(3) this st(1,2)] obtain p pol where
    "policy_call (request_view (demo_request (Fin 1) [7, 8])) (sim_nodes demo_sim)
       (r_arrival (demo_request (Fin 1) [7, 8])) default_params (sim_policy demo_sim) = Inr (p, pol)"
    by blast
  from registry.decide_ok [OF req st(1,2) this] obtain d where
    d: "decide policy_call default_params (demo_request (Fin 1) [7, 8]) demo_sim = Inr d" by blast
  from oracle_is_lower_bound [OF req st(1) d] d show ?thesis by blast
qed

text \<open>On a cluster with bounded queues no registered policy ever raises, and the object
  \<open>build_policy\<close> returned stays in a well-formed state from call to call.\<close>

lemma registered_policies_never_raise:
  assumes "pol_ok (length nodes) pol" and "query_ok ps now (v_blocks req)" and "ids_ok nodes"
    and "nodes \<noteq> []" and "load_ok ps" and "\<forall>n \<in> set nodes. calm now n"
  shows "\<exists>p pol'. policy_call req nodes now ps pol = Inr (p, pol') \<and> pol_ok (length nodes) pol'"
  using registered_returns [OF assms(1-4)] assms(5,6) by (simp add: load_ready_def)

text \<open>Queues are the only source of coupling: when every node is idle, the coupling test
  answers no for the oracle's placement.\<close>

lemma idle_cluster_is_uncoupled:
  assumes "query_ok ps now bs" and "\<forall>n \<in> set nodes. wait n now = 0"
    and "best_placement bs nodes now ps True = Inr loaded"
  shows "is_coupled bs nodes now ps loaded = Inr False"
  using best_placement_idle [OF query_okD(2) [OF assms(1)] assms(2)] assms(3)
  by (simp add: is_coupled_def)

text \<open>The derived metrics of a balanced result are defined and are fractions: the hit rate, the
  coupled fraction and every share of the regime mix lie in [0, 1].\<close>

lemma metrics_are_fractions:
  assumes "counted reqs r"
  shows "\<exists>h c mix. hit_rate r = Inr h \<and> 0 \<le> h \<and> h \<le> 1 \<and>
    coupled_fraction r = Inr c \<and> 0 \<le> c \<and> c \<le> 1 \<and>
    regime_mix r = Inr mix \<and> map fst mix = all_regimes \<and> list_all (\<lambda>x. 0 \<le> snd x \<and> snd x \<le> 1) mix"
proof -
  have c: "0 \<le> reused_blocks r" "reused_blocks r \<le> total_blocks r" "0 \<le> coupled r"
      "coupled r \<le> successes r" "list_all (\<lambda>x. 0 \<le> snd x) (regimes r)"
    using assms by (simp_all add: counted_def)
  obtain x where "hit_rate r = Inr x" "0 \<le> x" "x \<le> 1"
    using ratio_fraction [OF c(1,2)] by (auto simp: hit_rate_def)
  moreover obtain y where "coupled_fraction r = Inr y" "0 \<le> y" "y \<le> 1"
    using ratio_fraction [OF c(3,4)] by (auto simp: coupled_fraction_def)
  moreover obtain mix where "regime_mix r = Inr mix" "map fst mix = all_regimes"
      "list_all (\<lambda>x. 0 \<le> snd x \<and> snd x \<le> 1) mix"
    using regime_mix_fractions [OF c(5)] by blast
  ultimately show ?thesis by blast
qed

text \<open>C21: the future-use index maps a block to the sorted positions of exactly those requests that
  contain it, and blocks never requested are absent, which is the input Belady's policy needs.\<close>

theorem future_uses_are_exact:
  "uses_ok (build_future_uses reqs) \<and>
   (case d_get (build_future_uses reqs) h of
      None \<Rightarrow> list_all (\<lambda>q. h \<notin> set (r_block_hashes q)) reqs
    | Some us \<Rightarrow> us \<noteq> [] \<and> sorted us \<and>
        (\<forall>i. int i \<in> set us \<longleftrightarrow> i < length reqs \<and> h \<in> set (r_block_hashes (reqs ! i))))"
proof (cases "occurrences 0 reqs h = []")
  case True
  then have "d_get (build_future_uses reqs) h = None" by (simp add: build_future_uses_get)
  moreover have "list_all (\<lambda>q. h \<notin> set (r_block_hashes q)) reqs"
    using occurrences_nth [of 0 _ reqs h] True by (auto simp: list_all_length)
  ultimately show ?thesis using build_future_uses_ok by simp
next
  case False
  then have "d_get (build_future_uses reqs) h = Some (occurrences 0 reqs h)"
    by (simp add: build_future_uses_get)
  then show ?thesis
    using build_future_uses_ok occurrences_sorted occurrences_nth [of 0 _ reqs h] False by simp
qed

lemma oracle_regrets:
  assumes "list_all (request_ok ps) reqs"
    and "run_simulation reqs policy_call Oracle k cap ps belady = Some (Inr r)"
  shows "regrets r = replicate (length reqs) 0"
proof -
  let ?nodes = "make_nodes k cap (if belady then Some (build_future_uses reqs) else None)"
  let ?st = "\<lparr>sim_nodes = ?nodes, sim_result = new_result, sim_last_seen = [], sim_policy = Oracle\<rparr>"
  obtain ev where ev: "cluster_ok (nat k) cap ev (sim_nodes ?st)" using make_nodes_run by fastforce
  from assms(2) obtain st where "sim_run policy_call ps 0 reqs ?st = Some (Inr st)"
      "r = (sim_result st)\<lparr>pinned_evictions_total := sum_list (map pinned_evictions (sim_nodes st))\<rparr>"
    by (auto simp: run_simulation_def Let_def split: option.splits sum.splits)
  with oracle_run [OF assms(1) ev] show ?thesis by (simp add: new_result_def)
qed

text \<open>The oracle router has zero regret on every request, with LRU and with Belady eviction:
  its placement's true cost is the lower bound it is measured against.\<close>

lemma oracle_has_zero_regret:
  assumes "list_all (request_ok ps) reqs"
    and "run_simulation reqs policy_call Oracle k cap ps belady = Some (Inr r)"
  shows "regrets r = replicate (length reqs) 0"
  by (rule oracle_regrets [OF assms])

end
