(* ===== verification/Horizon.thy ===== *)
theory Horizon
  imports Runs
begin

text \<open>
  How long the queues of a run can become: a request's service time is bounded by prefilling
  all its blocks and decoding all its tokens, so after \<open>i\<close> requests no node is busy beyond the
  last arrival plus \<open>i\<close> service bounds. While this stays below \<open>2 ^ 32\<close> seconds the load signal
  every policy of the registry reads is defined, hence no run raises.
\<close>

section \<open>Service bounds\<close>

text \<open>A request arrives between \<open>0\<close> and \<open>T\<close> and takes at most \<open>S\<close> seconds on an empty cache.\<close>

definition cold_service :: "CostParams \<Rightarrow> TurnRequest \<Rightarrow> pyfloat res" where
  "cold_service ps req =
     rbind (prefill_time ps (int (length (r_block_hashes req)))) (\<lambda>prefill.
     rbind (int_times (r_gen_tokens req) (inter_token ps)) (\<lambda>decode. Inr (prefill + decode)))"

definition request_fits :: "CostParams \<Rightarrow> int \<Rightarrow> int \<Rightarrow> TurnRequest \<Rightarrow> bool" where
  "request_fits ps T S req \<longleftrightarrow>
     request_ok ps req \<and> 0 \<le> r_arrival req \<and> r_arrival req \<le> Fin (of_int T) \<and>
     (case cold_service ps req of Inl e \<Rightarrow> False | Inr s \<Rightarrow> s \<le> Fin (of_int S))"

lemma request_fitsD:
  assumes "request_fits ps T S req"
  shows "request_ok ps req" "0 \<le> r_arrival req" "r_arrival req \<le> Fin (of_int T)"
    "\<exists>s. cold_service ps req = Inr s \<and> s \<le> Fin (of_int S)"
  using assms by (auto simp: request_fits_def split: sum.splits)

lemma cold_service_nonneg:
  assumes "request_ok ps req" "cold_service ps req = Inr s"
  shows "0 \<le> s"
proof -
  have q: "query_ok ps (r_arrival req) (r_block_hashes req)" using assms(1) by (simp add: request_ok_def)
  have it: "fin_nonneg (inter_token ps)" using query_okD(1) [OF q] by (simp add: params_ok_def)
  from assms(2) show ?thesis
    using prefill_time_spec [OF query_okD(1) [OF q] _ query_okD(4) [OF q]]
      int_times_small [of "r_gen_tokens req" "inter_token ps"] it assms(1)
    by (auto simp: cold_service_def request_ok_def fadd_nonneg)
qed

lemma request_fits_bounds:
  assumes "request_fits ps T S req"
  shows "0 \<le> T" "0 \<le> S"
proof -
  note f = request_fitsD [OF assms]
  have "Fin 0 \<le> Fin (of_int T)" using fle_trans [OF f(2,3)] by (simp add: zero_pyfloat_def)
  then show "0 \<le> T" by simp
  obtain s where "0 \<le> s" "s \<le> Fin (of_int S)" using f(4) cold_service_nonneg [OF f(1)] by blast
  then have "Fin 0 \<le> Fin (of_int S)" unfolding zero_pyfloat_def by (rule fle_trans)
  then show "0 \<le> S" by simp
qed

lemma decide_service:
  assumes "request_ok ps req" "decide call ps req st = Inr d"
    and "cold_service ps req = Inr s"
  shows "d_service d \<le> s" "0 \<le> d_service d"
proof -
  let ?bs = "r_block_hashes req"
  have q: "query_ok ps (r_arrival req) ?bs" using assms(1) by (simp add: request_ok_def)
  from assms(2) obtain n hot tr pf dc where
    pf: "prefill_time ps (int (length ?bs) - resident_blocks ?bs n tr hot) = Inr pf" and
    dc: "int_times (r_gen_tokens req) (inter_token ps) = Inr dc" and d: "d_service d = pf + dc"
    by (auto simp: decide_def Let_def)
  from assms(3) dc obtain pf0 where pf0: "prefill_time ps (int (length ?bs)) = Inr pf0" "s = pf0 + dc"
    by (auto simp: cold_service_def)
  have it: "fin_nonneg (inter_token ps)" using query_okD(1) [OF q] by (simp add: params_ok_def)
  have dc0: "0 \<le> dc"
    using int_times_small [of "r_gen_tokens req" "inter_token ps"] it assms(1) dc by (auto simp: request_ok_def)
  note m = resident_bounds(1) [of ?bs n tr hot] missing_blocks_bounds(1) [of ?bs n hot tr]
  have le: "pf \<le> pf0"
    by (rule prefill_time_mono [OF query_okD(1) [OF q] _ _ query_okD(4) [OF q] pf pf0(1)])
      (use m in \<open>simp_all add: resident_bounds(3) [symmetric]\<close>)
  have pf1: "0 \<le> pf"
    using prefill_time_spec [OF query_okD(1) [OF q] m(2) missing_ok [OF q missing_blocks_bounds(2)]] pf
    by (simp add: resident_bounds(3))
  show "d_service d \<le> s" using fadd_mono_nonneg [OF pf1 dc0 le] dc0 by (simp add: d pf0(2) fnonneg_not_NaN)
  show "0 \<le> d_service d" using pf1 dc0 by (simp add: d fadd_nonneg)
qed

section \<open>Queues\<close>

definition busy_within :: "int \<Rightarrow> node list \<Rightarrow> bool" where
  "busy_within B nodes \<longleftrightarrow> list_all (\<lambda>n. busy_until n \<le> Fin (of_int B)) nodes"

lemma fadd_int_bound:
  assumes "a \<le> Fin (of_int A)" "b \<le> Fin (of_int B)" "\<bar>A + B\<bar> \<le> 2 ^ 53" "a + b \<noteq> NaN"
  shows "a + b \<le> Fin (of_int (A + B))"
proof -
  have "Fin (of_int A) + Fin (of_int B) = Fin (of_int (A + B))"
    using rnd_of_int [OF assms(3)] by simp
  then have "a + b \<le> Fin (of_int (A + B)) \<longleftrightarrow> a + b \<le> Fin (of_int A) + Fin (of_int B)"
    and "Fin (of_int A) + Fin (of_int B) \<noteq> NaN" by simp_all
  then show ?thesis using fadd_mono [OF assms(1,2)] assms(4) by blast
qed

lemma busy_calm:
  assumes "busy_until n \<le> Fin (of_int B)" "0 \<le> now" "finite_f now" "B \<le> 2 ^ 32" "0 \<le> B"
  shows "calm now n"
proof -
  from assms(2,3) obtain q where q: "now = Fin q" "0 \<le> q" by (cases now) (auto simp: zero_pyfloat_def)
  have "busy_until n + - now \<noteq> NaN" using assms(1) by (cases "busy_until n") (auto simp: q)
  moreover have "- now \<le> Fin (of_int 0)" using q by simp
  ultimately have "busy_until n + - now \<le> Fin (of_int (B + 0))"
    using assms(1,4,5) by (intro fadd_int_bound) simp_all
  moreover have "rat_of_int B \<le> rat_of_int (2 ^ 32)" using assms(4) by (simp only: of_int_le_iff)
  then have "Fin (of_int (B + 0)) \<le> Fin 4294967296" by simp
  ultimately have "busy_until n - now \<le> Fin 4294967296" unfolding minus_pyfloat_def by (rule fle_trans)
  then show ?thesis using max2_cases [of 0 "busy_until n - now"]
    by (auto simp: calm_def wait_def zero_pyfloat_def)
qed

lemma busy_enqueue:
  assumes "now \<le> Fin (of_int B)" "b \<le> Fin (of_int B)" "0 \<le> now" "0 \<le> s" "s \<le> Fin (of_int S)"
    and "\<bar>B + S\<bar> \<le> 2 ^ 53"
  shows "py_max2 now b + s \<le> Fin (of_int (B + S))"
proof (rule fadd_int_bound [OF _ assms(5,6)])
  show "py_max2 now b \<le> Fin (of_int B)" using max2_cases [of now b] assms(1,2) by auto
  have "0 \<le> py_max2 now b" using max2_ge1 [of now b] assms(3) fle_trans by (metis fnonneg_not_NaN)
  then show "py_max2 now b + s \<noteq> NaN" using assms(4) by (rule fnonneg_add_not_NaN)
qed
section \<open>Runs with bounded queues\<close>

lemma fit_step:
  assumes fit: "request_fits ps T S req" and cl: "cluster_ok len cap ev (sim_nodes st)" and len: "0 < len"
    and cap: "0 \<le> cap" and pol: "pol_ok len (sim_policy st)" and l: "load_ok ps"
    and B: "busy_within B (sim_nodes st)" "T \<le> B" "0 \<le> B" "B + S \<le> 2 ^ 32"
  shows "\<exists>st'. sim_step policy_call ps idx req st = Some (Inr st') \<and> cluster_ok len cap ev (sim_nodes st') \<and>
    pol_ok len (sim_policy st') \<and> busy_within (B + S) (sim_nodes st')"
proof -
  note f = request_fitsD [OF fit]
  have S: "0 \<le> S" by (rule request_fits_bounds(2) [OF fit])
  have now: "finite_f (r_arrival req)" using f(1) by (auto simp: request_ok_def dest: query_okD)
  obtain s where s: "cold_service ps req = Inr s" "s \<le> Fin (of_int S)" using f(4) by blast
  have ready: "load_ready ps (r_arrival req) (sim_nodes st)"
    using l busy_calm [OF _ f(2) now, of _ B] B S by (auto simp: load_ready_def busy_within_def list_all_iff)
  obtain d hot where d: "decide policy_call ps req st = Inr d" "decided policy_call ps req st d hot"
    by (rule total_registry.step_decides [OF f(1) cl len pol ready])
  note srv = decide_service [OF f(1) d(1) s(1)]
  obtain st' where st': "sim_step policy_call ps idx req st = Some (Inr st')"
      "cluster_ok len cap ev (sim_nodes st')" "pol_ok len (sim_policy st')"
    using total_registry.step_returns [OF f(1) cl len cap pol ready] by blast
  let ?n = "sim_nodes st ! d_pos d"
  obtain n where adm: "admit (r_arrival req) (d_service d) (r_block_hashes req)
      (p_retain_until (d_chosen d)) idx (p_priority (d_chosen d)) ?n = Some n"
    and upd: "sim_nodes st' = (sim_nodes st)[d_pos d := n]"
    using st'(1) d(1) by (auto simp: sim_step_def split: option.splits)
  have pos: "d_pos d < length (sim_nodes st)" using d(2) by (simp add: decided_def)
  then have nd: "node_ok ?n" "eviction_ok (eviction ?n)" using registry.cluster_nth [OF cl] cl by (auto simp: cluster_ok_def)
  have b: "busy_until n = py_max2 (r_arrival req) (busy_until ?n) + d_service d"
    using admit_queue [OF nd registry.request_timing [OF f(1) srv(2)] adm] by simp
  have B1: "busy_until m \<le> Fin (of_int (B + S))" if "m \<in> set (sim_nodes st)" for m
  proof (rule fle_trans)
    show "busy_until m \<le> Fin (of_int B)" using B(1) that by (simp add: busy_within_def list_all_iff)
    show "Fin (of_int B) \<le> Fin (of_int (B + S))" using S by simp
  qed
  have "rat_of_int T \<le> of_int B" using B(2) by simp
  then have "r_arrival req \<le> Fin (of_int B)" using f(3) fle_trans by fastforce
  moreover have "busy_until ?n \<le> Fin (of_int B)" using B(1) pos by (simp add: busy_within_def list_all_length)
  ultimately have "busy_until n \<le> Fin (of_int (B + S))"
    unfolding b using f(2) srv fle_trans [OF srv(1) s(2)] B(3,4) S by (intro busy_enqueue) simp_all
  then have "busy_within (B + S) (sim_nodes st')"
    unfolding busy_within_def upd using B1 set_update_subset_insert [of "sim_nodes st" "d_pos d" n] by (auto simp: list_all_iff)
  with st' show ?thesis by blast
qed

lemma fit_run:
  assumes "list_all (request_fits ps T S) reqs" "cluster_ok len cap ev (sim_nodes st)" "0 < len" "0 \<le> cap"
    "pol_ok len (sim_policy st)" "load_ok ps" "busy_within B (sim_nodes st)" "T \<le> B" "0 \<le> B" "0 \<le> S"
    "B + int (length reqs) * S \<le> 2 ^ 32"
  shows "\<exists>st'. sim_run policy_call ps idx reqs st = Some (Inr st')"
  using assms(1,2,5,7-9,11)
proof (induction reqs arbitrary: idx st B)
  case (Cons req reqs)
  have B: "B + S \<le> 2 ^ 32" "(B + S) + int (length reqs) * S \<le> 2 ^ 32"
    using Cons.prems(7) assms(10) by (auto simp: algebra_simps intro: order_trans [rotated])
  have "0 \<le> int (length reqs) * S" using assms(10) by simp
  then have B1: "B + S \<le> 2 ^ 32" using B(2) by linarith
  have fit: "request_fits ps T S req" "list_all (request_fits ps T S) reqs" using Cons.prems(1) by simp_all
  obtain st1 where s: "sim_step policy_call ps idx req st = Some (Inr st1)"
      "cluster_ok len cap ev (sim_nodes st1)" "pol_ok len (sim_policy st1)" "busy_within (B + S) (sim_nodes st1)"
    using fit_step [OF fit(1) Cons.prems(2) assms(3,4) Cons.prems(3) assms(6) Cons.prems(4-6) B1, of idx] by blast
  have "\<exists>st'. sim_run policy_call ps (idx + 1) reqs st1 = Some (Inr st')"
    using Cons.prems(5,6) assms(10) B(2) by (intro Cons.IH [OF fit(2) s(2,3,4)]) linarith+
  then show ?case using s(1) by simp
qed simp

lemma make_nodes_idle:
  "0 \<le> B \<Longrightarrow> busy_within B (make_nodes k cap uses)"
  by (cases uses) (auto simp: busy_within_def list_all_iff make_nodes_def new_node_def new_belady_node_def
      zero_pyfloat_def)

lemma fit_simulation_returns:
  assumes fit: "list_all (request_fits ps T S) reqs" "reqs \<noteq> []" "0 < k" "T + int (length reqs) * S \<le> 2 ^ 32"
    and pol: "pol_ok (nat k) pol" "load_ok ps" and cap: "0 \<le> cap"
  shows "\<exists>r. run_simulation reqs policy_call pol k cap ps belady = Some (Inr r)"
proof -
  let ?nodes = "make_nodes k cap (if belady then Some (build_future_uses reqs) else None)"
  let ?st = "\<lparr>sim_nodes = ?nodes, sim_result = new_result, sim_last_seen = [], sim_policy = pol\<rparr>"
  obtain ev where ev: "cluster_ok (nat k) cap ev (sim_nodes ?st)" using make_nodes_run by fastforce
  obtain req rest where "reqs = req # rest" using fit(2) by (cases reqs) auto
  then have "request_fits ps T S req" using fit(1) by simp
  note b = request_fits_bounds [OF this]
  have "\<exists>st'. sim_run policy_call ps 0 reqs ?st = Some (Inr st')"
    by (rule fit_run [OF fit(1) ev _ cap _ pol(2) _ order_refl b fit(4)])
      (use pol(1) fit(3) make_nodes_idle [OF b(1)] in simp_all)
  then show ?thesis by (auto simp: run_simulation_def Let_def)
qed

lemma fit_simulation_hangs:
  assumes fit: "list_all (request_fits ps T S) reqs" "reqs \<noteq> []" "0 < k" "T \<le> 2 ^ 32"
    and pol: "pol_ok (nat k) pol" "load_ok ps" and cap: "cap < 0"
  shows "run_simulation reqs policy_call pol k cap ps belady = None"
proof -
  let ?nodes = "make_nodes k cap (if belady then Some (build_future_uses reqs) else None)"
  let ?st = "\<lparr>sim_nodes = ?nodes, sim_result = new_result, sim_last_seen = [], sim_policy = pol\<rparr>"
  obtain ev where ev: "cluster_ok (nat k) cap ev (sim_nodes ?st)" using make_nodes_run by fastforce
  obtain req rest where reqs: "reqs = req # rest" using fit(2) by (cases reqs) auto
  then have r: "request_fits ps T S req" using fit(1) by simp
  note f = request_fitsD [OF r] and b = request_fits_bounds [OF r]
  have now: "finite_f (r_arrival req)" using f(1) by (auto simp: request_ok_def dest: query_okD)
  have "load_ready ps (r_arrival req) (sim_nodes ?st)"
    using pol(2) busy_calm [OF _ f(2) now, of _ T] make_nodes_idle [OF b(1), of k cap] fit(4) b(1)
    by (auto simp: load_ready_def busy_within_def list_all_iff)
  with total_registry.step_hangs [OF f(1) ev _ cap _ this, of 0] pol(1) fit(3)
  have "sim_step policy_call ps 0 req ?st = None" by simp
  then have "sim_run policy_call ps 0 reqs ?st = None" by (rule sim_run_head [OF reqs])
  then show ?thesis by (simp add: run_simulation_def Let_def)
qed

section \<open>Sample\<close>

lemma demo_stream_fits: "list_all (request_fits default_params 1 2) demo_stream"
  using demo_stream_ok
  by (auto simp: demo_stream_def request_fits_def demo_request_def cold_service_def default_params_def
      zero_pyfloat_def prefill_time_def int_times_def float_of_int_def DEFAULT_BLOCK_SIZE_def flt_eval)

section \<open>Property\<close>

text \<open>C9: a simulation of at least one request on at least one node under ANY policy of the registry
  returns a result exactly when the cache capacity is not negative, whatever the eviction
  strategy, as long as the total work cannot fill \<open>2 ^ 32\<close> seconds of queue: with arrivals in
  [0, T] and cold service times up to S, \<open>T + n * S \<le> 2 ^ 32\<close>. With a negative capacity the
  eviction loop of the first admission never ends.\<close>

theorem registered_simulation_returns_iff:
  assumes "list_all (request_fits ps T S) reqs" and "reqs \<noteq> []" and "0 < k"
    and "T + int (length reqs) * S \<le> 2 ^ 32" and "build_policy name margin = Inr pol"
    and "load_ok ps"
  shows "if 0 \<le> cap then \<exists>r. run_simulation reqs policy_call pol k cap ps belady = Some (Inr r)
    else run_simulation reqs policy_call pol k cap ps belady = None"
proof -
  have pol: "pol_ok (nat k) pol" using assms(5) by (rule build_policy_ok)
  obtain req rest where "reqs = req # rest" using assms(2) by (cases reqs) auto
  then have "0 \<le> S" using assms(1) by (auto dest: request_fits_bounds)
  then have "0 \<le> int (length reqs) * S" by simp
  then have T: "T \<le> 2 ^ 32" using assms(4) by linarith
  show ?thesis
    using fit_simulation_returns [OF assms(1-4) pol assms(6)]
      fit_simulation_hangs [OF assms(1-3) T pol assms(6)] by auto
qed

theorem registered_simulation_returns_iff_witness:
  "\<exists>pol. build_policy ''weighted-approx'' DEFAULT_RETAIN_MARGIN = Inr pol \<and>
    (\<exists>r. run_simulation demo_stream policy_call pol 2 4 default_params True = Some (Inr r)) \<and>
    run_simulation demo_stream policy_call pol 2 (- 1) default_params True = None"
proof -
  obtain pol where pol: "build_policy ''weighted-approx'' DEFAULT_RETAIN_MARGIN = Inr pol"
    by (simp add: build_policy_def)
  have h: "1 + int (length demo_stream) * 2 \<le> 2 ^ 32" by (simp add: demo_stream_def)
  note r = registered_simulation_returns_iff [OF demo_stream_fits demo_stream_ok(2) _ h pol default_load_ok, of 2]
  show ?thesis using pol r [of 4 True] r [of "- 1" True] by simp
qed

end
