(* ===== verification/Bounded.thy ===== *)
theory Bounded
  imports Mixed Horizon
begin

text \<open>
  How large the requests of a generated stream are: bounds on the arrival, the tokens of the
  prompt and the tokens to generate, from bounds on the draws. They make every generated request
  one that the simulator can serve in bounded time (\<open>request_fits\<close>).
\<close>

section \<open>Bounds on requests\<close>

text \<open>Arrival in [0, T], at most \<open>B\<close> prompt tokens and between 1 and \<open>K\<close> tokens to generate\<close>

definition modest :: "int \<Rightarrow> nat \<Rightarrow> int \<Rightarrow> TurnRequest \<Rightarrow> bool" where
  "modest T B K req \<longleftrightarrow>
     0 \<le> r_arrival req \<and> is_f64 (r_arrival req) \<and> r_arrival req \<le> Fin (of_int T) \<and>
     length (r_tokens req) \<le> B \<and> 1 \<le> r_gen_tokens req \<and> r_gen_tokens req \<le> K"

lemma modest_mono: "modest T B K req \<Longrightarrow> T \<le> T' \<Longrightarrow> B \<le> B' \<Longrightarrow> modest T' B' K req"
  by (auto simp: modest_def intro: fle_trans)

definition hashed :: "int \<Rightarrow> TurnRequest \<Rightarrow> bool" where
  "hashed bs req \<longleftrightarrow> hash_blocks (r_tokens req) bs = Inr (r_block_hashes req)"

lemma hashed_length:
  assumes "hashed bs req" "0 < bs"
  shows "int (length (r_block_hashes req)) * bs \<le> int (length (r_tokens req))"
proof -
  have "r_block_hashes req = chain (nat bs) (r_tokens req)"
    using hash_blocks_pos [of "nat bs" "r_tokens req"] assms by (simp add: hashed_def)
  then have "int (length (r_block_hashes req)) = int (length (r_tokens req)) div bs"
    using assms(2) by (simp add: zdiv_int)
  moreover have "n div bs * bs \<le> n" for n
    using pos_mod_sign [OF assms(2), of n] minus_mod_eq_div_mult [of n bs] by linarith
  ultimately show ?thesis by simp
qed

text \<open>Prices of at most one second\<close>

definition cheap :: "CostParams \<Rightarrow> bool" where
  "cheap ps \<longleftrightarrow> prefill_per_token ps \<le> Fin 1 \<and> prefill_fixed ps \<le> Fin 1 \<and> inter_token ps \<le> Fin 1"

lemma int_price:
  assumes "0 \<le> n" "n \<le> N" "N \<le> 2 ^ 53" "fin_nonneg x" "x \<le> Fin 1"
  shows "Fin (of_int n) * x \<le> Fin (of_int N)"
proof -
  from assms(4) obtain q where q: "x = Fin q" "0 \<le> q" by (rule fin_nonnegE)
  have "of_int n * q \<le> of_int N * 1" using assms(1,2,5) q by (intro mult_mono) simp_all
  then show ?thesis using q(1) rnd_le_Fin [OF _ rnd_of_int [of N]] assms(1-3) by simp
qed

lemma modest_fits:
  assumes "params_ok ps" "cheap ps" "modest T B K req" "hashed (block_size ps) req"
    and "int B + K + 1 \<le> 2 ^ 53"
  shows "request_fits ps T (int B + K + 1) req"
proof -
  note m = assms(3) [unfolded modest_def]
  have bs: "0 < block_size ps" using assms(1) by (simp add: params_ok_def)
  let ?m = "int (length (r_block_hashes req))"
  have len: "?m * block_size ps \<le> int B" using hashed_length [OF assms(4) bs] m by linarith
  have p: "fin_nonneg (prefill_per_token ps)" "fin_nonneg (prefill_fixed ps)" "fin_nonneg (inter_token ps)"
      "prefill_per_token ps \<le> Fin 1" "prefill_fixed ps \<le> Fin 1" "inter_token ps \<le> Fin 1"
    using assms(1,2) by (simp_all add: params_ok_def cheap_def)
  obtain a where a: "r_arrival req = Fin a" using m by (cases "r_arrival req") (auto simp: zero_pyfloat_def)
  have "?m * block_size ps \<le> 2 ^ 53" using len assms(5) m by linarith
  then have ok: "request_ok ps req"
    using m assms(1,5) a by (simp add: request_ok_def query_ok_def)
  have n: "0 \<le> ?m * block_size ps" "?m * block_size ps \<le> 2 ^ 53" "0 \<le> r_gen_tokens req" "r_gen_tokens req \<le> 2 ^ 53"
    using bs len m assms(5) by simp_all
  let ?x = "Fin (of_int (?m * block_size ps)) * prefill_per_token ps"
    and ?y = "Fin (of_int (r_gen_tokens req)) * inter_token ps"
  have c: "cold_service ps req = Inr (?x + prefill_fixed ps + ?y)"
    using prefill_time_spec(1) [OF assms(1) _ n(2)] int_times_small(1) [OF n(3,4) p(3)]
    by (simp add: cold_service_def)
  have f: "0 \<le> prefill_fixed ps" using p(2) by (rule fin_nonnegE)
  note nn = int_times_small(2) [OF n(1,2) p(1)] f int_times_small(2) [OF n(3,4) p(3)]
  have "?x \<le> Fin (of_int (int B))" by (rule int_price [OF n(1) len _ p(1,4)]) (use assms(5) m in linarith)
  moreover have "prefill_fixed ps \<le> Fin (of_int 1)" using p(5) by simp
  moreover have "\<bar>int B + 1\<bar> \<le> 2 ^ 53" using assms(5) m by linarith
  ultimately have xf: "?x + prefill_fixed ps \<le> Fin (of_int (int B + 1))"
    using fnonneg_add_not_NaN [OF nn(1,2)] by (rule fadd_int_bound)
  have y: "?y \<le> Fin (of_int K)" by (rule int_price [OF n(3) _ _ p(3,6)]) (use assms(5) m in linarith)+
  have "\<bar>int B + 1 + K\<bar> \<le> 2 ^ 53" using assms(5) m by linarith
  then have "?x + prefill_fixed ps + ?y \<le> Fin (of_int (int B + 1 + K))"
    using fnonneg_add_not_NaN [OF fadd_nonneg [OF nn(1,2)] nn(3)] by (rule fadd_int_bound [OF xf y])
  moreover have "int B + 1 + K = int B + K + 1" by simp
  ultimately show ?thesis using ok c m by (simp only: request_fits_def sum.case simp_thms)
qed

section \<open>Words\<close>

lemma unique_words_count: "list_all nonspace tag \<Longrightarrow> length (py_split (unique_words tag n)) = nat n"
  by (simp add: unique_words_split)

lemma split_three: "py_split (a @ '' '' @ b @ '' '' @ c) = py_split a @ py_split b @ py_split c"
  using py_split_append [of "CHR '' ''" a "b @ '' '' @ c"] py_split_append [of "CHR '' ''" b c] by simp

lemma canned_words: "s \<in> set CANNED_TOOL_RESULTS \<Longrightarrow> length (py_split s) \<le> 10"
  and prompt_words: "s \<in> set USER_PROMPTS \<Longrightarrow> length (py_split s) \<le> 7"
  by (auto simp: CANNED_TOOL_RESULTS_def USER_PROMPTS_def py_split_def is_space_def)

lemma rng_choice_member: "random_ok L \<Longrightarrow> rng_choice L xs r = Inr (x, r') \<Longrightarrow> x \<in> set xs"
  by (cases "xs = []") (auto simp: rng_choice_def intro: rng_choice_mem)

lemma success_words:
  assumes "success_result L p (turn_tag sid k ''_r'') n r = Inr (result, r')" "random_ok L"
  shows "length (py_split result) \<le> nat (max 10 n)"
proof -
  have "length (py_split (unique_words (turn_tag sid k ''_r'') n)) = nat n"
    by (rule unique_words_count [OF turn_tag_nonspace]) (simp add: is_space_def)
  then show ?thesis
    using assms(1) rng_choice_member [OF assms(2)] canned_words
    by (fastforce simp: success_result_def split: prod.splits if_splits)
qed

section \<open>Draws\<close>

text \<open>At this rate a gap is at most \<open>G\<close> seconds, and a request generates at most \<open>K\<close> tokens.\<close>

definition gaps_within :: "'r random_lib \<Rightarrow> GenParams \<Rightarrow> pyfloat \<Rightarrow> int \<Rightarrow> bool" where
  "gaps_within L gp rate G \<longleftrightarrow>
     (\<forall>r. case arrival_gap L rate (gp_burst_cv gp) r of
            Inl e \<Rightarrow> False | Inr (gap, r') \<Rightarrow> 0 \<le> gap \<and> is_f64 gap \<and> gap \<le> Fin (of_int G))"

definition tokens_within :: "'r random_lib \<Rightarrow> GenParams \<Rightarrow> int \<Rightarrow> bool" where
  "tokens_within L gp K \<longleftrightarrow>
     (\<forall>r. case draw_gen_tokens L (gen_tokens_mean gp) r of Inl e \<Rightarrow> False | Inr (k, r') \<Rightarrow> k \<le> K)"

text \<open>No turn moves a session's clock by more than \<open>D\<close> seconds.\<close>

definition delays_within :: "GenParams \<Rightarrow> int \<Rightarrow> bool" where
  "delays_within gp D \<longleftrightarrow>
     DEFAULT_RETRY_GAP \<le> Fin (of_int D) \<and> think_time gp + nominal_turn_seconds gp \<le> Fin (of_int D) \<and>
     (tool_reliability gp \<longrightarrow>
        list_all (\<lambda>t. think_time gp + success_latency t \<le> Fin (of_int D)) (catalog gp))"

lemma gaps_withinD:
  assumes "gaps_within L gp rate G" "arrival_gap L rate (gp_burst_cv gp) r = Inr (gap, r')"
  shows "0 \<le> gap" "is_f64 gap" "gap \<le> Fin (of_int G)"
  using assms unfolding gaps_within_def by (auto dest!: spec [of _ r])

lemma tokens_withinD:
  "tokens_within L gp K \<Longrightarrow> draw_gen_tokens L (gen_tokens_mean gp) r = Inr (k, r') \<Longrightarrow> 1 \<le> k \<and> k \<le> K"
  using draw_gen_tokens_pos unfolding tokens_within_def by (fastforce dest!: spec [of _ r])

lemma advance:
  assumes "0 \<le> t" "t \<le> Fin (of_int A)" "0 \<le> d" "d \<le> Fin (of_int D)" "\<bar>A + D\<bar> \<le> 2 ^ 53"
  shows "0 \<le> t + d" "t + d \<le> Fin (of_int (A + D))"
  using fadd_nonneg [OF assms(1,3)] fadd_int_bound [OF assms(2,4,5)] fnonneg_add_not_NaN [OF assms(1,3)] by simp_all

lemma tool_outcome_bound:
  assumes "tool_outcome L gp session_tool sid k t r = Inr (name, result, t', r')"
    and "random_ok L" "gen_ok gp" "delays_within gp D"
    and "case session_tool of None \<Rightarrow> True | Some tool \<Rightarrow> tool_reliability gp \<and> tool \<in> set (catalog gp)"
  shows "length (py_split result) \<le> nat (max 10 (tool_result_tokens gp))"
    "\<exists>d. t' = t + d \<and> 0 \<le> d \<and> d \<le> Fin (of_int D)"
proof -
  have err: "length (py_split (unique_words (turn_tag sid k ''_err'') 3)) = nat 3"
    by (rule unique_words_count [OF turn_tag_nonspace]) (simp add: is_space_def)
  show "length (py_split result) \<le> nat (max 10 (tool_result_tokens gp))"
    using assms(1) err success_words [OF _ assms(2)]
    by (auto simp: tool_outcome_def Let_def split: option.splits prod.splits if_splits)
  have d: "0 \<le> think_time gp + nominal_turn_seconds gp" "0 \<le> DEFAULT_RETRY_GAP"
    using assms(3) fadd_nonneg rnd_nonneg [of "1 / 5"]
    by (simp_all add: gen_ok_def DEFAULT_RETRY_GAP_def zero_pyfloat_def)
  have l: "0 \<le> think_time gp + success_latency tool" if "session_tool = Some tool" for tool
    using assms(3,5) that fadd_nonneg by (auto simp: gen_ok_def list_all_iff)
  note w = assms(4) [unfolded delays_within_def]
  show "\<exists>d. t' = t + d \<and> 0 \<le> d \<and> d \<le> Fin (of_int D)"
  proof (cases session_tool)
    case None
    then have "t' = t + (think_time gp + nominal_turn_seconds gp)"
      using assms(1) by (auto simp: tool_outcome_def Let_def)
    then show ?thesis using d(1) w by blast
  next
    case (Some tool)
    then have "t' = t + DEFAULT_RETRY_GAP \<or> t' = t + (think_time gp + success_latency tool)"
      using assms(1) by (auto simp: tool_outcome_def Let_def split: prod.splits if_splits)
    moreover have "think_time gp + success_latency tool \<le> Fin (of_int D)"
      using w assms(5) Some by (simp add: list_all_iff)
    ultimately show ?thesis using d(2) l [OF Some] w by blast
  qed
qed

section \<open>Sessions\<close>

definition turn_words :: "GenParams \<Rightarrow> nat" where
  "turn_words gp = nat (gen_tokens_mean gp) + nat (max 10 (tool_result_tokens gp)) + 6"

definition clock_within :: "int \<Rightarrow> nat \<Rightarrow> session \<Rightarrow> bool" where
  "clock_within A W s \<longleftrightarrow>
     0 \<le> s_arrival s \<and> is_f64 (s_arrival s) \<and> s_arrival s \<le> Fin (of_int A) \<and> length (s_tokens s) \<le> W"

definition tool_listed :: "GenParams \<Rightarrow> Tool option \<Rightarrow> bool" where
  "tool_listed gp session_tool \<longleftrightarrow>
     (case session_tool of None \<Rightarrow> True | Some tool \<Rightarrow> tool_reliability gp \<and> tool \<in> set (catalog gp))"

lemma delays_nonneg: "delays_within gp D \<Longrightarrow> 0 \<le> D"
proof -
  assume "delays_within gp D"
  then have "rnd (1 / 5) \<le> Fin (of_int D)" by (simp add: delays_within_def DEFAULT_RETRY_GAP_def)
  with rnd_nonneg [of "1 / 5"] have "Fin 0 \<le> Fin (of_int D)" by (rule fle_trans) simp
  then show "0 \<le> D" by simp
qed

lemma extend_turn_bound:
  assumes "extend_turn L gp session_tool sid k s g = Inr (s', name, g')"
    and "random_ok L" "gen_ok gp" "delays_within gp D" "tool_listed gp session_tool"
    and "clock_within A W s" "\<bar>A + D\<bar> \<le> 2 ^ 53"
  shows "clock_within (A + D) (W + turn_words gp) s'"
proof -
  let ?a = "unique_words (turn_tag sid k ''_a'') (gen_tokens_mean gp)"
    and ?u = "unique_words (turn_tag sid k ''_u'') 6"
  obtain nm result arrival r where
    o: "tool_outcome L gp session_tool sid k (s_arrival s) (g_rng g) = Inr (nm, result, arrival, r)"
    using assms(1) by (cases "tool_outcome L gp session_tool sid k (s_arrival s) (g_rng g)")
      (auto simp: extend_turn_def Let_def)
  obtain ids v where t: "tokenize (?a @ '' '' @ result @ '' '' @ ?u) (g_vocab g) = (ids, v)"
    by (cases "tokenize (?a @ '' '' @ result @ '' '' @ ?u) (g_vocab g)")
  have s': "s_tokens s' = s_tokens s @ ids" "s_arrival s' = arrival"
    using assms(1) o t by (auto simp: extend_turn_def Let_def)
  note b = tool_outcome_bound [OF o assms(2-4) assms(5) [unfolded tool_listed_def]]
  have "length (py_split ?a) = nat (gen_tokens_mean gp)" "length (py_split ?u) = nat 6"
    by (rule unique_words_count [OF turn_tag_nonspace], simp add: is_space_def)+
  then have "length ids \<le> turn_words gp"
    using tokenize_count [OF t, unfolded split_three] b(1) by (simp add: turn_words_def)
  moreover obtain d where "arrival = s_arrival s + d" "0 \<le> d" "d \<le> Fin (of_int D)" using b(2) by blast
  ultimately show ?thesis
    using assms(6) advance [of "s_arrival s" A d D] assms(7) by (simp add: clock_within_def s')
qed

lemma session_turn_bound:
  assumes "session_turn L gp session_tool sid k (s, g, reqs) = Inr (s', g', reqs')"
    and "random_ok L" "gen_ok gp" "delays_within gp D" "tool_listed gp session_tool" "tokens_within L gp K"
    and "clock_within A W s" "\<bar>A + D\<bar> \<le> 2 ^ 53"
  obtains req where "reqs' = reqs @ [req]" "clock_within (A + D) (W + turn_words gp) s'"
    "modest (A + D) (W + turn_words gp) K req" "hashed (gp_block_size gp) req"
proof -
  let ?step = "if 0 < k then extend_turn L gp session_tool sid k s g else Inr (s, None, g)"
  obtain s1 nm g1 where e: "?step = Inr (s1, nm, g1)"
    using assms(1) by (cases ?step) (auto simp: session_turn_def)
  obtain gen r where d: "draw_gen_tokens L (gen_tokens_mean gp) (g_rng g1) = Inr (gen, r)"
    using assms(1) e by (cases "draw_gen_tokens L (gen_tokens_mean gp) (g_rng g1)") (auto simp: session_turn_def)
  obtain hs where h: "hash_blocks (s_tokens s1) (gp_block_size gp) = Inr hs"
    using assms(1) e d by (cases "hash_blocks (s_tokens s1) (gp_block_size gp)") (auto simp: session_turn_def)
  have "Fin (of_int A) \<le> Fin (of_int (A + D))" using delays_nonneg [OF assms(4)] by simp
  then have "clock_within (A + D) (W + turn_words gp) s"
    using assms(7) fle_trans by (fastforce simp: clock_within_def)
  then have c: "clock_within (A + D) (W + turn_words gp) s1"
    using e extend_turn_bound [OF _ assms(2-5,7,8)] by (cases "k = 0") auto
  have out: "s' = s1" "reqs' = reqs @ [\<lparr>r_session_id = sid, r_turn_idx = int k, r_arrival = s_arrival s1,
      r_tokens = s_tokens s1, r_block_hashes = hs, r_gen_tokens = gen, r_messages = s_messages s1,
      r_kind = ''tool'', r_conversation_id = Some sid, r_tool_name = nm\<rparr>]"
    using assms(1) e d h by (auto simp: session_turn_def)
  show thesis
    by (rule that [OF out(2)])
      (use c out h tokens_withinD [OF assms(6) d] in \<open>auto simp: modest_def clock_within_def hashed_def\<close>)
qed

lemma session_turns_bound:
  assumes "rfold (session_turn L gp session_tool sid) [0..<n] (s0, g0, reqs0) = Inr (s, g, reqs)"
    and "random_ok L" "gen_ok gp" "delays_within gp D" "tool_listed gp session_tool" "tokens_within L gp K"
    and "clock_within A W s0" "0 \<le> A" "A + int n * D \<le> 2 ^ 53"
  obtains new where "reqs = reqs0 @ new"
    "list_all (modest (A + int n * D) (W + n * turn_words gp) K) new" "list_all (hashed (gp_block_size gp)) new"
proof -
  let ?U = "turn_words gp"
  have D: "0 \<le> D" by (rule delays_nonneg [OF assms(4)])
  let ?P = "\<lambda>k (s, g, reqs). \<exists>new. reqs = reqs0 @ new \<and> clock_within (A + int k * D) (W + k * ?U) s \<and>
      list_all (modest (A + int n * D) (W + n * ?U) K) new \<and> list_all (hashed (gp_block_size gp)) new"
  have "?P n (s, g, reqs)"
  proof (rule rfold_upt_inv [of _ _ _ _ ?P, OF assms(1)])
    show "?P 0 (s0, g0, reqs0)" using assms(7) by simp
    fix k st st'
    assume k: "k < n" and P: "?P k st" and f: "session_turn L gp session_tool sid k st = Inr st'"
    obtain s g reqs s' g' reqs' where st: "st = (s, g, reqs)" "st' = (s', g', reqs')" by (cases st, cases st')
    from P obtain new where new: "reqs = reqs0 @ new" "clock_within (A + int k * D) (W + k * ?U) s"
        "list_all (modest (A + int n * D) (W + n * ?U) K) new" "list_all (hashed (gp_block_size gp)) new"
      by (auto simp: st)
    have "int (Suc k) * D \<le> int n * D" using k D by (intro mult_right_mono) simp_all
    then have step: "A + int k * D + D \<le> A + int n * D" by (simp add: algebra_simps)
    have "0 \<le> int k * D" using D by simp
    then have small: "\<bar>A + int k * D + D\<bar> \<le> 2 ^ 53" using step assms(8,9) D by linarith
    have "Suc k * ?U \<le> n * ?U" using k by (intro mult_le_mono1) simp
    then have words: "W + k * ?U + ?U \<le> W + n * ?U" by simp
    obtain req where req: "reqs' = reqs @ [req]" "clock_within (A + int k * D + D) (W + k * ?U + ?U) s'"
        "modest (A + int k * D + D) (W + k * ?U + ?U) K req" "hashed (gp_block_size gp) req"
      by (rule session_turn_bound [OF f [unfolded st] assms(2-6) new(2) small])
    have "modest (A + int n * D) (W + n * ?U) K req" by (rule modest_mono [OF req(3) step words])
    moreover have e: "A + int k * D + D = A + int (Suc k) * D" "W + k * ?U + ?U = W + Suc k * ?U"
      by (simp_all add: algebra_simps)
    ultimately show "?P (Suc k) st'"
      using new(1,3,4) req(1,4) req(2) [unfolded e] by (auto simp: st intro!: exI [of _ "new @ [req]"])
  qed
  then show thesis using that by auto
qed

lemma tool_choice_listed:
  assumes "(if tool_reliability gp then rbind (rng_choice L (catalog gp) r) (\<lambda>(tool, r). Inr (Some tool, r))
      else Inr (None, r)) = Inr (session_tool, r')"
    and "random_ok L"
  shows "tool_listed gp session_tool"
proof (cases "tool_reliability gp")
  case True
  from True assms(1) obtain tool r1 where "rng_choice L (catalog gp) r = Inr (tool, r1)" "session_tool = Some tool"
    by (auto split: prod.splits)
  then show ?thesis using True rng_choice_member [OF assms(2)] by (simp add: tool_listed_def)
qed (use assms(1) in \<open>simp add: tool_listed_def\<close>)

definition opening_words :: nat where
  "opening_words = length SYSTEM_TOKENS + 7"

lemma one_session_bound:
  assumes "one_session L gp rate turns sid (start, g, reqs) = Inr (start', g', reqs')"
    and "random_ok L" "gen_ok gp" "delays_within gp D" "tokens_within L gp K" "gaps_within L gp rate G"
    and "0 \<le> start" "start \<le> Fin (of_int A)" "0 \<le> A" "0 \<le> G" "A + G + int (nat turns) * D \<le> 2 ^ 53"
  obtains new where "reqs' = reqs @ new" "0 \<le> start'" "start' \<le> Fin (of_int (A + G))"
    "list_all (modest (A + G + int (nat turns) * D) (opening_words + nat turns * turn_words gp) K) new"
    "list_all (hashed (gp_block_size gp)) new"
proof -
  obtain gap r1 user0 r2 where gap: "arrival_gap L rate (gp_burst_cv gp) (g_rng g) = Inr (gap, r1)"
      and u: "rng_choice L USER_PROMPTS r1 = Inr (user0, r2)"
    using assms(1) by (auto simp: one_session_def Let_def)
  obtain tool r3 where tool:
      "(if tool_reliability gp then rbind (rng_choice L (catalog gp) r2) (\<lambda>(tool, r). Inr (Some tool, r))
        else Inr (None, r2)) = Inr (tool, r3)"
    using assms(1) gap u by (auto simp: one_session_def Let_def split_beta split: if_splits)
  obtain ids v where t: "tokenize user0 (g_vocab g) = (ids, v)" by (cases "tokenize user0 (g_vocab g)")
  let ?s0 = "open_session (start + gap) user0 ids"
  have one: "one_session L gp rate turns sid (start, g, reqs) =
      rbind (rfold (session_turn L gp tool (int sid)) [0..<nat turns] (?s0, \<lparr>g_rng = r3, g_vocab = v\<rparr>, reqs))
        (\<lambda>(s, g', requests'). Inr (start + gap, g', requests'))"
    using gap u tool t by (simp add: one_session_def Let_def)
  obtain s where run:
      "rfold (session_turn L gp tool (int sid)) [0..<nat turns] (?s0, \<lparr>g_rng = r3, g_vocab = v\<rparr>, reqs) = Inr (s, g', reqs')"
      "start' = start + gap"
    using assms(1) unfolding one rbind_eq_Inr split_beta by (metis Inr_inject prod.collapse prod.inject)
  note b = gaps_withinD [OF assms(6) gap]
  have "0 \<le> int (nat turns) * D" using delays_nonneg [OF assms(4)] by simp
  then have "\<bar>A + G\<bar> \<le> 2 ^ 53" using assms(9-11) by linarith
  note a = advance [OF assms(7,8) b(1,3) this]
  have "length ids \<le> 7" using tokenize_count [OF t] prompt_words [OF rng_choice_member [OF assms(2) u]] by simp
  then have "clock_within (A + G) opening_words ?s0"
    using a by (simp add: clock_within_def open_session_def opening_words_def)
  from session_turns_bound [OF run(1) assms(2-4) tool_choice_listed [OF tool assms(2)] assms(5) this _ assms(11)]
  obtain new where "reqs' = reqs @ new"
      "list_all (modest (A + G + int (nat turns) * D) (opening_words + nat turns * turn_words gp) K) new"
      "list_all (hashed (gp_block_size gp)) new" using assms(9,10) by auto
  then show thesis using that a run(2) by blast
qed

lemma generate_sessions_bound:
  assumes "generate_sessions L num turns qps gp v = Inr (reqs, v')"
    and "random_ok L" "gen_ok gp" "delays_within gp D" "tokens_within L gp K"
    and "gaps_within L gp (session_rate qps turns) G" "0 \<le> G"
    and "int (nat num) * G + int (nat turns) * D \<le> 2 ^ 53" "turns \<le> 2 ^ 53"
  shows "list_all (modest (int (nat num) * G + int (nat turns) * D) (opening_words + nat turns * turn_words gp) K) reqs"
    "list_all (hashed (gp_block_size gp)) reqs"
proof -
  let ?T = "int (nat num) * G + int (nat turns) * D" and ?B = "opening_words + nat turns * turn_words gp"
  obtain start g rs where r: "rfold (one_session L gp (session_rate qps turns) turns) [0..<nat num]
        (0, \<lparr>g_rng = seed_int L (gp_seed gp), g_vocab = v\<rparr>, []) = Inr (start, g, rs)"
      "reqs = py_sort request_less rs"
    using assms(1) by (auto simp: generate_sessions_rate [OF assms(9)])
  have D: "0 \<le> int (nat turns) * D" using delays_nonneg [OF assms(4)] by simp
  let ?P = "\<lambda>k (start, g :: 'a gen, rs). 0 \<le> start \<and> start \<le> Fin (of_int (int k * G)) \<and>
      list_all (modest ?T ?B K) rs \<and> list_all (hashed (gp_block_size gp)) rs"
  have "?P (nat num) (start, g, rs)"
  proof (rule rfold_upt_inv [of _ _ _ _ ?P, OF r(1)])
    show "?P 0 (0, \<lparr>g_rng = seed_int L (gp_seed gp), g_vocab = v\<rparr>, [])" by (simp add: zero_pyfloat_def)
    fix k st st'
    assume k: "k < nat num" and P: "?P k st" and f: "one_session L gp (session_rate qps turns) turns k st = Inr st'"
    obtain s g rs s' g' rs' where st: "st = (s, g, rs)" "st' = (s', g', rs')" by (cases st, cases st')
    have "int (Suc k) * G \<le> int (nat num) * G" using k assms(7) by (intro mult_right_mono) linarith+
    then have step: "int k * G + G + int (nat turns) * D \<le> ?T" by (simp add: algebra_simps)
    have A: "0 \<le> int k * G" using assms(7) by simp
    have "0 \<le> s" "s \<le> Fin (of_int (int k * G))" using P by (simp_all add: st)
    from one_session_bound [OF f [unfolded st] assms(2-6) this A assms(7)] step assms(8)
    obtain new where new: "rs' = rs @ new" "0 \<le> s'" "s' \<le> Fin (of_int (int k * G + G))"
        "list_all (modest (int k * G + G + int (nat turns) * D) ?B K) new" "list_all (hashed (gp_block_size gp)) new"
      by (metis order_trans)
    have "list_all (modest ?T ?B K) new" using new(4) modest_mono [OF _ step] by (fastforce simp: list_all_iff)
    moreover have "int k * G + G = int (Suc k) * G" by (simp add: algebra_simps)
    ultimately show "?P (Suc k) st'" using new(1-3,5) P by (simp add: st)
  qed
  then show "list_all (modest ?T ?B K) reqs" "list_all (hashed (gp_block_size gp)) reqs"
    by (simp_all add: r(2) list_all_iff set_py_sort)
qed

section \<open>Single-turn requests\<close>

lemma single_turn_bound:
  assumes "single_turn L gp sid kind t tokens ms r = Inr (req, r')" "tokens_within L gp K"
    and "0 \<le> t" "is_f64 t" "t \<le> Fin (of_int A)" "length tokens \<le> B"
  shows "modest A B K req" "hashed (gp_block_size gp) req"
proof -
  obtain hs k where h: "hash_blocks tokens (gp_block_size gp) = Inr hs"
      and d: "draw_gen_tokens L (gen_tokens_mean gp) r = Inr (k, r')"
      and req: "req = \<lparr>r_session_id = sid, r_turn_idx = 0, r_arrival = t, r_tokens = tokens,
        r_block_hashes = hs, r_gen_tokens = k, r_messages = ms, r_kind = kind,
        r_conversation_id = Some sid, r_tool_name = None\<rparr>"
    using assms(1) by (auto simp: single_turn_def)
  show "modest A B K req" "hashed (gp_block_size gp) req"
    using assms(3-6) h tokens_withinD [OF assms(2) d] by (simp_all add: req modest_def hashed_def)
qed

text \<open>A loop that advances its clock by a gap and appends one request at it\<close>

lemma appending_bound:
  assumes "rfold f [0..<n] (0, g0, reqs0) = Inr (t, g, reqs)" "0 \<le> G" "int n * G \<le> 2 ^ 53"
    and step: "\<And>i A t g reqs t' g' reqs'. f i (t, g, reqs) = Inr (t', g', reqs') \<Longrightarrow>
      0 \<le> t \<Longrightarrow> t \<le> Fin (of_int A) \<Longrightarrow> \<bar>A + G\<bar> \<le> 2 ^ 53 \<Longrightarrow>
      0 \<le> t' \<and> t' \<le> Fin (of_int (A + G)) \<and>
      (\<exists>req. reqs' = reqs @ [req] \<and> modest (A + G) B K req \<and> hashed bs req)"
  obtains new where "reqs = reqs0 @ new" "length new = n" "list_all (modest (int n * G) B K) new"
    "list_all (hashed bs) new"
proof -
  let ?P = "\<lambda>k (t, g, reqs). 0 \<le> t \<and> t \<le> Fin (of_int (int k * G)) \<and>
      (\<exists>new. reqs = reqs0 @ new \<and> length new = k \<and> list_all (modest (int n * G) B K) new \<and> list_all (hashed bs) new)"
  have "?P n (t, g, reqs)"
  proof (rule rfold_upt_inv [of _ _ _ _ ?P, OF assms(1)])
    show "?P 0 (0, g0, reqs0)" by (simp add: zero_pyfloat_def)
    fix k st st' assume k: "k < n" and P: "?P k st" and f: "f k st = Inr st'"
    obtain t g reqs t' g' reqs' where st: "st = (t, g, reqs)" "st' = (t', g', reqs')" by (cases st, cases st')
    from P obtain new where new: "0 \<le> t" "t \<le> Fin (of_int (int k * G))" "reqs = reqs0 @ new" "length new = k"
        "list_all (modest (int n * G) B K) new" "list_all (hashed bs) new" by (auto simp: st)
    have e: "int k * G + G = int (Suc k) * G" by (simp add: algebra_simps)
    have le: "int (Suc k) * G \<le> int n * G" using k assms(2) by (intro mult_right_mono) simp_all
    moreover have "0 \<le> int (Suc k) * G" using assms(2) by simp
    ultimately have "\<bar>int k * G + G\<bar> \<le> 2 ^ 53" using assms(3) by (simp add: e)
    from step [OF f [unfolded st] new(1,2) this] obtain req where
      "0 \<le> t'" "t' \<le> Fin (of_int (int (Suc k) * G))" "reqs' = reqs @ [req]"
      "modest (int (Suc k) * G) B K req" "hashed bs req" unfolding e by blast
    then show "?P (Suc k) st'"
      using new modest_mono [OF _ le, of B K req B] by (auto simp: st intro!: exI [of _ "new @ [req]"])
  qed
  then show thesis using that by auto
qed

definition rag_words :: "MixParams \<Rightarrow> nat" where
  "rag_words mp = length SYSTEM_TOKENS + nat (rag_doc_tokens mp) + nat (rag_question_tokens mp)"

lemma rag_request_bound:
  assumes "rag_request L gp mp rate ws i (t, g, reqs) = Inr (t', g', reqs')"
    and "gaps_within L gp rate G" "tokens_within L gp K"
    and "0 \<le> t" "t \<le> Fin (of_int A)" "\<bar>A + G\<bar> \<le> 2 ^ 53"
  shows "0 \<le> t' \<and> t' \<le> Fin (of_int (A + G)) \<and>
    (\<exists>req. reqs' = reqs @ [req] \<and> modest (A + G) (rag_words mp) K req \<and> hashed (gp_block_size gp) req)"
proof -
  obtain gap r1 d r2 where gap: "arrival_gap L rate (gp_burst_cv gp) (g_rng g) = Inr (gap, r1)"
      and c: "rng_choices_index L ws r1 = Inr (d, r2)"
    using assms(1) by (auto simp: rag_request_def Let_def)
  let ?u = "unique_words (''rag_d'' @ str_nat d) (rag_doc_tokens mp) @ '' '' @
      unique_words (''rag_q'' @ str_nat i) (rag_question_tokens mp)"
  obtain ids v where t: "tokenize ?u (g_vocab g) = (ids, v)" by (cases "tokenize ?u (g_vocab g)")
  then obtain req r3 where req: "reqs' = reqs @ [req]" "t' = t + gap"
      "single_turn L gp (RAG_SID_BASE + int i) ''rag'' (t + gap) (SYSTEM_TOKENS @ ids)
         [plain_message ''system'' SYSTEM_PROMPT, plain_message ''user'' ?u] r2 = Inr (req, r3)"
    using assms(1) gap c by (auto simp: rag_request_def Let_def)
  have "length ids = nat (rag_doc_tokens mp) + nat (rag_question_tokens mp)"
    using tokenize_count [OF t] py_split_append [of "CHR '' ''"] unique_words_count [OF tag_nonspace(1)]
      unique_words_count [OF tag_nonspace(2)] by simp
  then have len: "length (SYSTEM_TOKENS @ ids) \<le> rag_words mp" by (simp add: rag_words_def)
  note a = advance [OF assms(4,5) gaps_withinD(1,3) [OF assms(2) gap] assms(6)]
  show ?thesis using single_turn_bound [OF req(3) assms(3) a(1) _ a(2) len] a req(1,2) by simp
qed

lemma oneshot_request_bound:
  assumes "oneshot_request L gp mp rate i (t, g, reqs) = Inr (t', g', reqs')"
    and "gaps_within L gp rate G" "tokens_within L gp K"
    and "0 \<le> t" "t \<le> Fin (of_int A)" "\<bar>A + G\<bar> \<le> 2 ^ 53"
  shows "0 \<le> t' \<and> t' \<le> Fin (of_int (A + G)) \<and>
    (\<exists>req. reqs' = reqs @ [req] \<and> modest (A + G) (nat (oneshot_tokens mp)) K req \<and> hashed (gp_block_size gp) req)"
proof -
  let ?u = "unique_words (''one_'' @ str_nat i) (oneshot_tokens mp)"
  obtain gap r1 where gap: "arrival_gap L rate (gp_burst_cv gp) (g_rng g) = Inr (gap, r1)"
    using assms(1) by (auto simp: oneshot_request_def Let_def)
  obtain ids v where t: "tokenize ?u (g_vocab g) = (ids, v)" by (cases "tokenize ?u (g_vocab g)")
  then obtain req r3 where req: "reqs' = reqs @ [req]" "t' = t + gap"
      "single_turn L gp (ONESHOT_SID_BASE + int i) ''oneshot'' (t + gap) ids
         [plain_message ''user'' ?u] r1 = Inr (req, r3)"
    using assms(1) gap by (auto simp: oneshot_request_def Let_def)
  have len: "length ids \<le> nat (oneshot_tokens mp)"
    using tokenize_count [OF t] unique_words_count [OF tag_nonspace(3)] by simp
  note a = advance [OF assms(4,5) gaps_withinD(1,3) [OF assms(2) gap] assms(6)]
  show ?thesis using single_turn_bound [OF req(3) assms(3) a(1) _ a(2) len] a req(1,2) by simp
qed

end
