(* ===== verification/Feasible.thy ===== *)
theory Feasible
  imports Bounded
begin

text \<open>
  When the mixed stream can be generated, and how large it is: conditions on the shares of the classes
  and on the draws. What the library functions contribute are their documented ranges: a gap between
  arrivals is bounded, so is a number of tokens, and a power with a nonnegative exponent is at least one.
\<close>

section \<open>The workload of a class\<close>

lemma gaps_within_drawn: "gaps_within L gp rate G \<Longrightarrow> gaps_drawn L (gp_burst_cv gp) rate"
  unfolding gaps_within_def gaps_drawn_def gap_drawn_def by (auto split: sum.splits dest: spec)

lemma share_returns:
  assumes "0 < f" "f \<le> Fin 1" "0 \<le> b" "b \<le> 2 ^ 53"
  obtains n where "share b f = Inr n" "0 \<le> n" "n \<le> b"
proof -
  obtain p where p: "f = Fin p" "0 < p" "p \<le> 1" using assms(1,2) by (cases f) (auto simp: zero_pyfloat_def)
  have "of_int b * p \<le> of_int b * 1" using p assms(3) by (intro mult_left_mono) simp_all
  then have "rnd (of_int b * p) \<le> Fin (of_int b)" using rnd_le_Fin [OF _ rnd_of_int [of b]] assms(3,4) by simp
  moreover have "Fin 0 \<le> rnd (of_int b * p)" using p assms(3) by (intro rnd_nonneg) simp
  ultimately obtain r where r: "rnd (of_int b * p) = Fin r" "0 \<le> r" "r \<le> of_int b"
    by (cases "rnd (of_int b * p)") auto
  have "share b f = Inr (round_even r)"
    using moderate_of_int [of b] assms(3,4) by (simp add: share_def int_times_def p(1) r(1))
  then show thesis using that round_even_le_of_int [OF r(3)] round_even_ge_of_int [of 0 r] r(2) by simp
qed

lemma single_turn_returns:
  assumes "random_ok L" "gen_ok gp"
  obtains req r' where "single_turn L gp sid kind t tokens ms r = Inr (req, r')"
proof -
  obtain k r' where "draw_gen_tokens L (gen_tokens_mean gp) r = Inr (k, r')"
    using draw_gen_tokens_returns assms by (metis gen_ok_def)
  moreover obtain hs where "hash_blocks tokens (gp_block_size gp) = Inr hs"
    using assms(2) by (simp add: hash_blocks_def gen_ok_def Let_def)
  ultimately show thesis using that by (simp add: single_turn_def)
qed

text \<open>The weights \<open>1 / (d + 1) ** rag_zipf\<close> of the documents\<close>

definition powers_ok :: "'r random_lib \<Rightarrow> MixParams \<Rightarrow> bool" where
  "powers_ok L mp \<longleftrightarrow>
     0 < rag_docs mp \<and> rag_docs mp \<le> 2 ^ 53 \<and> int_pow L 1 (rag_zipf mp) = Inr (Fin 1) \<and>
     list_all (\<lambda>d. case int_pow L (int d + 1) (rag_zipf mp) of Inl e \<Rightarrow> False | Inr x \<Rightarrow> Fin 1 \<le> x)
       [0..<nat (rag_docs mp)]"

definition weight_ok :: "pyfloat \<Rightarrow> bool" where
  "weight_ok w \<longleftrightarrow> 0 \<le> w \<and> w \<le> Fin 1"

lemma weight_of_power: "Fin 1 \<le> x \<Longrightarrow> fdiv 1 x = Inr (fquot 1 x) \<and> weight_ok (fquot 1 x)"
proof (cases x)
  case (Fin q)
  assume "Fin 1 \<le> x"
  then have q: "1 \<le> q" using Fin by simp
  have "rnd 1 = Fin 1" using rnd_of_int [of 1] by simp
  then have "rnd (1 / q) \<le> Fin 1" using q by (intro rnd_le_Fin) simp_all
  then show ?thesis using q Fin rnd_nonneg [of "1 / q"]
    by (simp add: fdiv_def weight_ok_def one_pyfloat_def zero_pyfloat_def)
qed (simp_all add: fdiv_def weight_ok_def one_pyfloat_def zero_pyfloat_def)

lemma rag_weights_return:
  assumes "powers_ok L mp"
  obtains ws where "rag_weights L mp = Inr (Fin 1 # ws)" "list_all weight_ok ws"
    "int (length ws) + 1 = rag_docs mp"
proof -
  let ?f = "\<lambda>d. rbind (int_pow L (int d + 1) (rag_zipf mp)) (fdiv 1)" and ?n = "nat (rag_docs mp)"
  have f: "\<exists>w. ?f d = Inr w \<and> weight_ok w" if "d < ?n" for d
    using assms that weight_of_power
    by (cases "int_pow L (int d + 1) (rag_zipf mp)") (auto simp: powers_ok_def list_all_iff dest!: bspec [of _ _ d])
  have "returns (?f d)" if "d < ?n" for d using f [OF that] by auto
  then have "returns (rmap ?f [0..<?n])" by (intro rmap_returns) simp
  then obtain ws where ws: "rmap ?f [0..<?n] = Inr ws" by (auto simp: returns_iff)
  have n: "[0..<?n] = 0 # [1..<?n]" using assms by (simp add: powers_ok_def upt_conv_Cons)
  have one: "fdiv 1 (Fin 1) = Inr (Fin 1)" using rnd_of_int [of 1] by (simp add: fdiv_def one_pyfloat_def)
  have "?f 0 = Inr (Fin 1)" using assms one by (simp add: powers_ok_def)
  then obtain vs where vs: "ws = Fin 1 # vs" using ws n by auto
  have "list_all weight_ok ws" unfolding list_all_iff using rmap_Inr_set [OF ws] f by fastforce
  moreover have "length ws = ?n" using rmap_Inr_length [OF ws] by simp
  ultimately show thesis using that ws assms by (simp add: rag_weights_def vs powers_ok_def)
qed

lemma accumulate_last:
  assumes "Fin 1 \<le> x" "x \<le> Fin (of_int A)" "list_all weight_ok ws" "A + int (length ws) \<le> 2 ^ 53" "0 \<le> A"
  shows "Fin 1 \<le> last (accumulate (x # ws)) \<and> last (accumulate (x # ws)) \<le> Fin (of_int (A + int (length ws)))"
  using assms
proof (induction ws arbitrary: x A)
  case (Cons w ws)
  have w: "0 \<le> w" "w \<le> Fin (of_int 1)" using Cons.prems(3) by (simp_all add: weight_ok_def)
  have "Fin 1 + 0 = Fin 1" using rnd_of_int [of 1] by (simp add: zero_pyfloat_def)
  moreover have nn: "x + w \<noteq> NaN"
    using Cons.prems(1) w fnonneg_add_not_NaN [of x w] fle_trans [of 0 "Fin 1" x] by (simp add: zero_pyfloat_def)
  ultimately have "Fin 1 \<le> x + w" using fadd_mono [OF Cons.prems(1) w(1)] by simp
  moreover have "x + w \<le> Fin (of_int (A + 1))"
    using Cons.prems(4,5) nn by (intro fadd_int_bound [OF Cons.prems(2) w(2)]) simp_all
  moreover have "A + 1 + int (length ws) = A + int (length (w # ws))" by simp
  moreover have "accumulate ((x + w) # ws) \<noteq> []" by (cases ws) simp_all
  ultimately show ?case using Cons.IH [of "x + w" "A + 1"] Cons.prems(3-5) by (simp add: add.assoc)
qed simp

lemma choices_return:
  assumes "list_all weight_ok ws" "int (length ws) + 1 \<le> 2 ^ 53"
  obtains d r' where "rng_choices_index L (Fin 1 # ws) r = Inr (d, r')"
proof -
  obtain q where q: "last (accumulate (Fin 1 # ws)) = Fin q" "1 \<le> q"
    using accumulate_last [of "Fin 1" 1 ws] assms by (cases "last (accumulate (Fin 1 # ws))") auto
  moreover have "accumulate (Fin 1 # ws) \<noteq> []" by (cases ws) simp_all
  ultimately show thesis using that
    by (cases "uniform L r") (simp add: rng_choices_index_def Let_def zero_pyfloat_def)
qed

lemma rag_request_returns:
  assumes "random_ok L" "gen_ok gp" "gaps_within L gp rate G"
    and "list_all weight_ok ws" "int (length ws) + 1 \<le> 2 ^ 53"
  shows "\<exists>st'. rag_request L gp mp rate (Fin 1 # ws) i st = Inr st'"
proof -
  obtain t g reqs where st: "st = (t, g, reqs)" by (cases st)
  obtain gap r1 where gap: "arrival_gap L rate (gp_burst_cv gp) (g_rng g) = Inr (gap, r1)"
    using gaps_drawnE [OF gaps_within_drawn [OF assms(3)]] .
  obtain d r2 where d: "rng_choices_index L (Fin 1 # ws) r1 = Inr (d, r2)"
    using choices_return [OF assms(4,5)] .
  let ?u = "unique_words (''rag_d'' @ str_nat d) (rag_doc_tokens mp) @ '' '' @
      unique_words (''rag_q'' @ str_nat i) (rag_question_tokens mp)"
  obtain ids v where t: "tokenize ?u (g_vocab g) = (ids, v)" by (cases "tokenize ?u (g_vocab g)")
  obtain req r3 where "single_turn L gp (RAG_SID_BASE + int i) ''rag'' (t + gap) (SYSTEM_TOKENS @ ids)
       [plain_message ''system'' SYSTEM_PROMPT, plain_message ''user'' ?u] r2 = Inr (req, r3)"
    using single_turn_returns [OF assms(1,2)] .
  then show ?thesis using gap d t by (simp add: st rag_request_def Let_def)
qed

lemma oneshot_request_returns:
  assumes "random_ok L" "gen_ok gp" "gaps_within L gp rate G"
  shows "\<exists>st'. oneshot_request L gp mp rate i st = Inr st'"
proof -
  obtain t g reqs where st: "st = (t, g, reqs)" by (cases st)
  obtain gap r1 where gap: "arrival_gap L rate (gp_burst_cv gp) (g_rng g) = Inr (gap, r1)"
    using gaps_drawnE [OF gaps_within_drawn [OF assms(3)]] .
  let ?u = "unique_words (''one_'' @ str_nat i) (oneshot_tokens mp)"
  obtain ids v where t: "tokenize ?u (g_vocab g) = (ids, v)" by (cases "tokenize ?u (g_vocab g)")
  obtain req r3 where "single_turn L gp (ONESHOT_SID_BASE + int i) ''oneshot'' (t + gap) ids
       [plain_message ''user'' ?u] r1 = Inr (req, r3)"
    using single_turn_returns [OF assms(1,2)] .
  then show ?thesis using gap t by (simp add: st oneshot_request_def Let_def)
qed

section \<open>The streams of the classes\<close>

lemma rfold_total: "(\<And>x st. \<exists>st'. f x st = Inr st') \<Longrightarrow> \<exists>st'. rfold f xs st = Inr st'"
proof (induction xs arbitrary: st)
  case (Cons x xs)
  obtain st1 where "f x st = Inr st1" using Cons.prems by blast
  moreover obtain st' where "rfold f xs st1 = Inr st'" using Cons.IH [OF Cons.prems] by blast
  ultimately show ?case by simp
qed simp

definition class_rate :: "pyfloat \<Rightarrow> pyfloat \<Rightarrow> pyfloat" where
  "class_rate qps f = py_max2 (qps * f) (rnd (1 / 10 ^ 9))"

text \<open>What the requests that a class adds to the stream look like\<close>

definition adds :: "TurnRequest list \<Rightarrow> int \<Rightarrow> int \<Rightarrow> int \<Rightarrow> nat \<Rightarrow> int \<Rightarrow> TurnRequest list \<Rightarrow> bool" where
  "adds reqs bs N T B K reqs' \<longleftrightarrow>
     (\<exists>new. mset reqs' = mset (reqs @ new) \<and> int (length new) \<le> N \<and> list_all (modest T B K) new \<and>
        list_all (hashed bs) new)"

lemma adds_loop:
  assumes "rfold f [0..<nat n] (0, g0, reqs0) = Inr (t, g, reqs)" "0 \<le> n" "n \<le> N" "0 \<le> G" "N * G \<le> T" "T \<le> 2 ^ 53"
    and step: "\<And>i A t g reqs t' g' reqs'. f i (t, g, reqs) = Inr (t', g', reqs') \<Longrightarrow>
      0 \<le> t \<Longrightarrow> t \<le> Fin (of_int A) \<Longrightarrow> \<bar>A + G\<bar> \<le> 2 ^ 53 \<Longrightarrow>
      0 \<le> t' \<and> t' \<le> Fin (of_int (A + G)) \<and>
      (\<exists>req. reqs' = reqs @ [req] \<and> modest (A + G) B K req \<and> hashed bs req)"
  shows "adds reqs0 bs N T B K reqs"
proof -
  have le: "int (nat n) * G \<le> T" using assms(2-5) mult_right_mono [of n N G] by simp
  then have "int (nat n) * G \<le> 2 ^ 53" using assms(6) by simp
  from appending_bound [OF assms(1,4) this, of B K bs] step obtain new where
    new: "reqs = reqs0 @ new" "length new = nat n" "list_all (modest (int (nat n) * G) B K) new" "list_all (hashed bs) new"
    by metis
  have "list_all (modest T B K) new" using new(3) modest_mono [OF _ le order_refl] by (auto simp: list_all_iff)
  then show ?thesis using new(1,2,4) assms(2,3) by (auto simp: adds_def)
qed

lemma rag_stream_returns:
  assumes "random_ok L" "gen_ok gp" "tokens_within L gp K" "0 \<le> G"
    and "0 < f \<Longrightarrow> powers_ok L mp \<and> f \<le> Fin 1 \<and> gaps_within L gp (class_rate qps f) G"
    and "0 \<le> N" "N \<le> 2 ^ 53" "N * G \<le> T" "T \<le> 2 ^ 53"
  shows "\<exists>reqs' v'. rag_stream L N qps gp mp f (reqs, v) = Inr (reqs', v') \<and>
    adds reqs (gp_block_size gp) N T (rag_words mp) K reqs'"
proof (cases "0 < f")
  case True
  note h = assms(5) [OF True]
  obtain ws where ws: "rag_weights L mp = Inr (Fin 1 # ws)" "list_all weight_ok ws" "int (length ws) + 1 = rag_docs mp"
    using rag_weights_return h by blast
  obtain n where n: "share N f = Inr n" "0 \<le> n" "n \<le> N" using share_returns [OF True] h assms(6,7) by blast
  have "int (length ws) + 1 \<le> 2 ^ 53" using ws(3) h by (simp add: powers_ok_def)
  then have "\<exists>st'. rag_request L gp mp (class_rate qps f) (Fin 1 # ws) i st = Inr st'" for i st
    using rag_request_returns [OF assms(1,2) _ ws(2)] h by blast
  then obtain t g reqs' where run: "rfold (rag_request L gp mp (class_rate qps f) (Fin 1 # ws)) [0..<nat n]
      (0, \<lparr>g_rng = seed_str L (str_int (gp_seed gp) @ '':rag''), g_vocab = v\<rparr>, reqs) = Inr (t, g, reqs')"
    using rfold_total by (metis prod_cases3)
  have "adds reqs (gp_block_size gp) N T (rag_words mp) K reqs'"
    using rag_request_bound [OF _ _ assms(3)] h by (intro adds_loop [OF run n(2,3) assms(4,8,9)]) blast
  then show ?thesis using True ws(1) n(1) run by (auto simp: rag_stream_def class_rate_def)
qed (use assms(6) in \<open>auto simp: rag_stream_def adds_def\<close>)

lemma oneshot_stream_returns:
  assumes "random_ok L" "gen_ok gp" "tokens_within L gp K" "0 \<le> G"
    and "0 < f \<Longrightarrow> f \<le> Fin 1 \<and> gaps_within L gp (class_rate qps f) G"
    and "0 \<le> N" "N \<le> 2 ^ 53" "N * G \<le> T" "T \<le> 2 ^ 53"
  shows "\<exists>reqs' v'. oneshot_stream L N qps gp mp f (reqs, v) = Inr (reqs', v') \<and>
    adds reqs (gp_block_size gp) N T (nat (oneshot_tokens mp)) K reqs'"
proof (cases "0 < f")
  case True
  note h = assms(5) [OF True]
  obtain n where n: "share N f = Inr n" "0 \<le> n" "n \<le> N" using share_returns [OF True] h assms(6,7) by blast
  have "\<exists>st'. oneshot_request L gp mp (class_rate qps f) i st = Inr st'" for i st
    using oneshot_request_returns [OF assms(1,2)] h by blast
  then obtain t g reqs' where run: "rfold (oneshot_request L gp mp (class_rate qps f)) [0..<nat n]
      (0, \<lparr>g_rng = seed_str L (str_int (gp_seed gp) @ '':oneshot''), g_vocab = v\<rparr>, reqs) = Inr (t, g, reqs')"
    using rfold_total by (metis prod_cases3)
  have "adds reqs (gp_block_size gp) N T (nat (oneshot_tokens mp)) K reqs'"
    using oneshot_request_bound [OF _ _ assms(3)] h by (intro adds_loop [OF run n(2,3) assms(4,8,9)]) blast
  then show ?thesis using True n(1) run by (auto simp: oneshot_stream_def class_rate_def)
qed (use assms(6) in \<open>auto simp: oneshot_stream_def adds_def\<close>)

lemma tool_stream_returns:
  assumes "random_ok L" "gen_ok gp" "tokens_within L gp K" "0 \<le> G" "delays_within gp D"
    and "0 < f \<Longrightarrow> f \<le> Fin 1 \<and> gaps_within L gp (session_rate (qps * f) turns) G"
    and "0 \<le> num" "num \<le> 2 ^ 53" "0 \<le> turns" "turns \<le> 2 ^ 53" "num * G + turns * D \<le> T" "T \<le> 2 ^ 53"
  shows "\<exists>reqs' v'. tool_stream L num turns qps gp f v = Inr (reqs', v') \<and>
    adds [] (gp_block_size gp) (num * turns) T (opening_words + nat turns * turn_words gp) K reqs'"
proof (cases "0 < f")
  case True
  note h = assms(6) [OF True]
  obtain n where n: "share num f = Inr n" "0 \<le> n" "n \<le> num" using share_returns [OF True] h assms(7,8) by blast
  have "gaps_drawn L (gp_burst_cv gp) (session_rate (qps * f) turns)" using h by (blast intro: gaps_within_drawn)
  from generate_sessions_drawn [OF assms(1,2,10) this]
  obtain reqs' v' where g: "generate_sessions L n turns (qps * f) gp v = Inr (reqs', v')" by metis
  have "int (nat n) * G \<le> num * G" using n(2,3) assms(4) by (simp add: mult_right_mono)
  then have T: "int (nat n) * G + int (nat turns) * D \<le> T" using assms(9,11) by simp
  then have "int (nat n) * G + int (nat turns) * D \<le> 2 ^ 53" using assms(12) by simp
  note b = generate_sessions_bound [OF g assms(1,2,5,3) h [THEN conjunct2] assms(4) this assms(10)]
  have "length reqs' = nat n * nat turns" by (rule session_stream_length [OF g])
  then have "int (length reqs') = n * turns" using n(2) assms(9) by simp
  also have "\<dots> \<le> num * turns" using n(3) assms(9) by (rule mult_right_mono)
  finally have "int (length reqs') \<le> num * turns" .
  moreover have "list_all (modest T (opening_words + nat turns * turn_words gp) K) reqs'"
    using b(1) modest_mono [OF _ T order_refl] by (auto simp: list_all_iff)
  ultimately show ?thesis using True n(1) g b(2) by (auto simp: tool_stream_def adds_def)
qed (use assms(7,9) in \<open>auto simp: tool_stream_def adds_def\<close>)

lemma adds_trans:
  assumes "adds reqs bs N T B K r1" "adds r1 bs N' T B' K r2" "B \<le> C" "B' \<le> C"
  shows "adds reqs bs (N + N') T C K r2"
proof -
  obtain new new' where n: "mset r1 = mset (reqs @ new)" "int (length new) \<le> N" "list_all (modest T B K) new"
      "list_all (hashed bs) new" "mset r2 = mset (r1 @ new')" "int (length new') \<le> N'"
      "list_all (modest T B' K) new'" "list_all (hashed bs) new'"
    using assms(1,2) unfolding adds_def by blast
  have "list_all (modest T C K) (new @ new')"
    using n(3,7) modest_mono [OF _ order_refl assms(3)] modest_mono [OF _ order_refl assms(4)]
    by (auto simp: list_all_iff)
  then show ?thesis unfolding adds_def using n by (intro exI [of _ "new @ new'"]) simp
qed

lemma mixed_returns:
  fixes L :: "'r random_lib" and mp :: MixParams
  defines "B gp turns \<equiv> opening_words + nat turns * turn_words gp + rag_words mp + nat (oneshot_tokens mp)"
  assumes "random_ok L" "gen_ok gp" "tokens_within L gp K" "0 \<le> G" "delays_within gp D"
    and d: "unknown_classes (effective_mix m) = []" "ft = mix_get (effective_mix m) ''tool''"
      "fr = mix_get (effective_mix m) ''rag''" "fo = mix_get (effective_mix m) ''oneshot''"
    and tool: "0 < ft \<Longrightarrow> ft \<le> Fin 1 \<and> gaps_within L gp (session_rate (qps * ft) turns) G"
    and rag: "0 < fr \<Longrightarrow> powers_ok L mp \<and> fr \<le> Fin 1 \<and> gaps_within L gp (class_rate qps fr) G"
    and oneshot: "0 < fo \<Longrightarrow> fo \<le> Fin 1 \<and> gaps_within L gp (class_rate qps fo) G"
    and "0 \<le> num" "num \<le> 2 ^ 53" "0 \<le> turns" "turns \<le> 2 ^ 53" "num * turns \<le> 2 ^ 53"
    and T: "num * G + turns * D \<le> T" "num * turns * G \<le> T" "T \<le> 2 ^ 53"
  shows "\<exists>reqs v'. generate_mixed L num turns qps m gp mp v = Inr (reqs, v') \<and>
    int (length reqs) \<le> 3 * (num * turns) \<and> list_all (modest T (B gp turns) K) reqs \<and>
    list_all (hashed (gp_block_size gp)) reqs"
proof -
  let ?N = "num * turns" and ?bs = "gp_block_size gp"
  have N: "0 \<le> ?N" using assms(14,16) by simp
  obtain r1 v1 where r1: "tool_stream L num turns qps gp ft v = Inr (r1, v1)"
      "adds [] ?bs ?N T (opening_words + nat turns * turn_words gp) K r1"
    using tool_stream_returns [OF assms(2-6) tool assms(14-17) T(1,3)] by blast
  obtain r2 v2 where r2: "rag_stream L ?N qps gp mp fr (r1, v1) = Inr (r2, v2)"
      "adds r1 ?bs ?N T (rag_words mp) K r2"
    using rag_stream_returns [OF assms(2-5) rag N assms(18) T(2,3)] by blast
  obtain r3 v3 where r3: "oneshot_stream L ?N qps gp mp fo (r2, v2) = Inr (r3, v3)"
      "adds r2 ?bs ?N T (nat (oneshot_tokens mp)) K r3"
    using oneshot_stream_returns [OF assms(2-5) oneshot N assms(18) T(2,3)] by blast
  have "adds [] ?bs (?N + ?N) T (B gp turns) K r2"
    by (rule adds_trans [OF r1(2) r2(2)]) (simp_all add: B_def)
  then have "adds [] ?bs (?N + ?N + ?N) T (B gp turns) K r3"
    by (rule adds_trans [OF _ r3(2)]) (simp_all add: B_def)
  then obtain new where new: "mset r3 = mset new" "int (length new) \<le> 3 * ?N" "list_all (modest T (B gp turns) K) new"
      "list_all (hashed ?bs) new" by (auto simp: adds_def)
  have "set r3 = set new" "length r3 = length new" using new(1) by (metis set_mset_mset, metis size_mset)
  moreover have "generate_mixed L num turns qps m gp mp v = Inr (py_sort request_less r3, v3)"
    using r1(1) r2(1) r3(1) by (simp add: generate_mixed_def Let_def d(1) flip: d(2-4))
  ultimately show ?thesis using new(2-4)
    by (auto simp: list_all_iff set_py_sort intro!: exI [of _ v3])
qed

section \<open>The composition of a mixed stream\<close>

text \<open>C25: the composition of a stream that \<open>generate_mixed\<close> returns. The classes of the mix are known.
  There are \<open>T\<close> tool sessions of \<open>turns\<close> turns each, \<open>R\<close> RAG queries and \<open>S\<close> one-shots and nothing else,
  where \<open>T\<close> is the part of the number of sessions, and \<open>R\<close> and \<open>S\<close> are the parts of the budget of
  \<open>num * turns\<close> requests, that the mix gives the class, to the nearest whole number; the requests of a
  class carry exactly the ids of its range and each is well formed for its class. As long as there are
  at most a million tool sessions and RAG queries, a session and a turn identify a request across the
  classes.\<close>

theorem mixed_stream_classes:
  assumes "generate_mixed L num turns qps m gp mp v = Inr (reqs, v')"
  shows "unknown_classes (effective_mix m) = [] \<and>
    (\<exists>T R S.
       nearest_share num (mix_get (effective_mix m) ''tool'') T \<and>
       nearest_share (num * turns) (mix_get (effective_mix m) ''rag'') R \<and>
       nearest_share (num * turns) (mix_get (effective_mix m) ''oneshot'') S \<and>
       length (class_requests ''tool'' reqs) = T * nat turns \<and> length (class_requests ''rag'' reqs) = R \<and>
       length (class_requests ''oneshot'' reqs) = S \<and> length reqs = T * nat turns + R + S \<and>
       request_key ` set (class_requests ''tool'' reqs) = (\<lambda>(i, k). (int i, int k)) ` ({..<T} \<times> {..<nat turns}) \<and>
       request_key ` set (class_requests ''rag'' reqs) = (\<lambda>i. (1000000 + int i, 0)) ` {..<R} \<and>
       request_key ` set (class_requests ''oneshot'' reqs) = (\<lambda>i. (2000000 + int i, 0)) ` {..<S} \<and>
       (\<forall>r \<in> set reqs.
          (\<exists>i < T. \<exists>k < nat turns. turn_ok gp (int i) k r) \<or> (\<exists>i < R. rag_ok gp mp i r) \<or>
          (\<exists>i < S. oneshot_ok gp mp i r)) \<and>
       (T \<le> 1000000 \<and> R \<le> 1000000 \<longrightarrow> distinct (map request_key reqs)))"
proof -
  obtain ss rs os where g: "mset reqs = mset (concat ss @ rs @ os)" "unknown_classes (effective_mix m) = []"
    "nearest_share num (mix_get (effective_mix m) ''tool'') (length ss)" "sessions_ok gp (nat turns) ss"
    "list_all (list_all (opened L)) ss"
    "nearest_share (num * turns) (mix_get (effective_mix m) ''rag'') (length rs)" "\<forall>i < length rs. rag_ok gp mp i (rs ! i)"
    "nearest_share (num * turns) (mix_get (effective_mix m) ''oneshot'') (length os)"
    "\<forall>i < length os. oneshot_ok gp mp i (os ! i)"
    using generate_mixed_spec [OF assms] .
  have rs: "\<forall>i < length rs. single_ok gp (RAG_SID_BASE + int i) ''rag'' (rs ! i)"
    and os: "\<forall>i < length os. single_ok gp (ONESHOT_SID_BASE + int i) ''oneshot'' (os ! i)"
    using g(7,9) by (simp_all add: rag_ok_def oneshot_ok_def)
  note kinds = mixed_kinds [OF g(1,4) rs os]
  have n: "length (concat ss) = length ss * nat turns"
    using arg_cong [OF session_keys [OF g(4)], of length] by simp
  have len: "length (class_requests ''tool'' reqs) = length ss * nat turns" "length (class_requests ''rag'' reqs) = length rs"
      "length (class_requests ''oneshot'' reqs) = length os" "length reqs = length ss * nat turns + length rs + length os"
    using arg_cong [OF kinds(1), of size] arg_cong [OF kinds(2), of size] arg_cong [OF kinds(3), of size]
      arg_cong [OF g(1), of size] n by simp_all
  have keys: "request_key ` set (class_requests ''tool'' reqs) = (\<lambda>(i, k). (int i, int k)) ` ({..<length ss} \<times> {..<nat turns})"
      "request_key ` set (class_requests ''rag'' reqs) = (\<lambda>i. (1000000 + int i, 0)) ` {..<length rs}"
      "request_key ` set (class_requests ''oneshot'' reqs) = (\<lambda>i. (2000000 + int i, 0)) ` {..<length os}"
    unfolding keys_of_mset [OF kinds(1)] keys_of_mset [OF kinds(2)] keys_of_mset [OF kinds(3)]
      session_keys [OF g(4)] single_keys [OF rs] single_keys [OF os]
    by (simp_all add: RAG_SID_BASE_def ONESHOT_SID_BASE_def lessThan_atLeast0)
  have each: "(\<exists>i < length ss. \<exists>k < nat turns. turn_ok gp (int i) k r) \<or> (\<exists>i < length rs. rag_ok gp mp i r) \<or>
      (\<exists>i < length os. oneshot_ok gp mp i r)" if "r \<in> set reqs" for r
  proof -
    have "r \<in> set (concat ss @ rs @ os)" using that g(1) by (metis set_mset_mset)
    then consider "r \<in> set (concat ss)" | "r \<in> set rs" | "r \<in> set os" by auto
    then show ?thesis
      by cases (metis sessions_member [OF g(4)], use g(7,9) in \<open>auto simp: in_set_conv_nth\<close>)
  qed
  have unique: "length ss \<le> 1000000 \<and> length rs \<le> 1000000 \<longrightarrow> distinct (map request_key reqs)"
    using mixed_distinct [OF g(1,4) rs os] by blast
  show ?thesis
    by (rule conjI, rule g(2), rule exI [of _ "length ss"], rule exI [of _ "length rs"], rule exI [of _ "length os"])
      (intro conjI g(3,6,8) len keys ballI each unique)
qed

definition demo_mix :: mix where
  "demo_mix = [(''tool'', Fin (1 / 2)), (''rag'', Fin (1 / 4)), (''oneshot'', Fin (1 / 4))]"

lemma demo_mix_parts:
  "unknown_classes (effective_mix (Some demo_mix)) = []"
  "mix_get (effective_mix (Some demo_mix)) ''tool'' = Fin (1 / 2)"
  "mix_get (effective_mix (Some demo_mix)) ''rag'' = Fin (1 / 4)"
  "mix_get (effective_mix (Some demo_mix)) ''oneshot'' = Fin (1 / 4)"
  by (simp_all add: demo_mix_def effective_mix_def unknown_classes_def WORKLOAD_CLASSES_def d_keys_def mix_get_def d_get_def)

lemma demo_gaps: "gp_burst_cv gp = Fin 1 \<Longrightarrow> gaps_within demo_random gp rate 1"
  using rnd_of_int [of 1]
  by (simp add: gaps_within_def arrival_gap_def demo_random_def feq_def one_pyfloat_def zero_pyfloat_def)

lemma demo_tokens: "gen_tokens_mean gp = 48 \<Longrightarrow> tokens_within demo_random gp 48"
proof -
  obtain sigma where "int_times 48 (rnd (1 / 5)) = Inr sigma" using int_times_fifth [of 48] by auto
  moreover have "float_of_int 48 = Inr (Fin 48)" using moderate_of_int [of 48] by simp
  ultimately have "draw_gen_tokens demo_random 48 r = Inr (48, r)" for r
    by (simp add: draw_gen_tokens_def demo_random_def)
  then show "gen_tokens_mean gp = 48 \<Longrightarrow> ?thesis" by (simp add: tokens_within_def)
qed

lemma demo_powers: "powers_ok demo_random default_mix_params"
  by (simp add: powers_ok_def demo_random_def default_mix_params_def list_all_iff)

lemma demo_delays: "delays_within default_gen_params 3"
  by (simp add: delays_within_def default_gen_params_def DEFAULT_RETRY_GAP_def flt_eval)

lemma demo_mixed_stream:
  obtains reqs v' where
    "generate_mixed demo_random 4 2 (Fin 4) (Some demo_mix) default_gen_params default_mix_params initial_vocab =
       Inr (reqs, v')"
proof -
  have "gp_burst_cv default_gen_params = Fin 1" "gen_tokens_mean default_gen_params = 48"
    by (simp_all add: default_gen_params_def one_pyfloat_def)
  note draws = demo_gaps [OF this(1)] demo_tokens [OF this(2)]
  have le: "Fin (1 / 2) \<le> Fin 1" "Fin (1 / 4) \<le> Fin 1" by simp_all
  have "\<exists>reqs v'. generate_mixed demo_random 4 2 (Fin 4) (Some demo_mix) default_gen_params default_mix_params
      initial_vocab = Inr (reqs, v')"
    using mixed_returns [OF demo_random_ok demo_gen_ok draws(2) _ demo_delays demo_mix_parts(1) refl refl refl,
        where mp = default_mix_params and G = 1 and num = 4 and turns = 2 and T = 10 and qps = "Fin 4" and v = initial_vocab]
    by (auto simp: demo_mix_parts draws(1) demo_powers)
  then show thesis using that by blast
qed

lemma nearest_nat: "\<bar>rat_of_nat n - rat_of_nat m\<bar> \<le> 1 / 2 \<Longrightarrow> n = m"
proof (rule ccontr)
  assume a: "\<bar>rat_of_nat n - rat_of_nat m\<bar> \<le> 1 / 2" and "n \<noteq> m"
  then have "Suc n \<le> m \<or> Suc m \<le> n" by linarith
  then have "rat_of_nat (Suc n) \<le> rat_of_nat m \<or> rat_of_nat (Suc m) \<le> rat_of_nat n" by (simp only: of_nat_le_iff)
  then show False using a by (auto simp: abs_le_iff)
qed

lemma nearest_share_exact:
  assumes "0 < fraction" "float_of_int budget = Inr b" "b * fraction = Fin (rat_of_nat m)"
    and "nearest_share budget fraction n"
  shows "n = m"
proof -
  have "max 0 (rat_of_nat m) = rat_of_nat m" by simp
  then have "\<bar>rat_of_nat n - rat_of_nat m\<bar> \<le> 1 / 2"
    using assms unfolding nearest_share_def Let_def by (simp only: if_True sum.case pyfloat.case)
  then show ?thesis by (rule nearest_nat)
qed

theorem mixed_stream_classes_witness:
  "\<exists>reqs v'. generate_mixed demo_random 4 2 (Fin 4) (Some demo_mix) default_gen_params default_mix_params
       initial_vocab = Inr (reqs, v') \<and>
     length (class_requests ''tool'' reqs) = 4 \<and> length (class_requests ''rag'' reqs) = 2 \<and> length (class_requests ''oneshot'' reqs) = 2 \<and>
     length reqs = 8 \<and> distinct (map request_key reqs)"
proof -
  obtain reqs v' where g: "generate_mixed demo_random 4 2 (Fin 4) (Some demo_mix) default_gen_params default_mix_params
       initial_vocab = Inr (reqs, v')" by (rule demo_mixed_stream)
  have "float_of_int 4 = Inr (Fin 4)" "float_of_int (4 * 2) = Inr (Fin 8)"
      "Fin 4 * Fin (1 / 2) = Fin (rat_of_nat 2)" "Fin 8 * Fin (1 / 4) = Fin (rat_of_nat 2)"
      "0 < Fin (1 / 2)" "0 < Fin (1 / 4)"
    using rnd_of_int [of 4] rnd_of_int [of 8] rnd_of_int [of 2] by (simp_all add: float_of_int_def zero_pyfloat_def)
  note near = nearest_share_exact [OF this(5,1,3)] nearest_share_exact [OF this(6,2,4)]
  note composition = mixed_stream_classes [OF g, unfolded demo_mix_parts, THEN conjunct2]
  then obtain T R S where n: "nearest_share 4 (Fin (1 / 2)) T" "nearest_share (4 * 2) (Fin (1 / 4)) R"
      "nearest_share (4 * 2) (Fin (1 / 4)) S"
    and c: "length (class_requests ''tool'' reqs) = T * nat 2" "length (class_requests ''rag'' reqs) = R"
      "length (class_requests ''oneshot'' reqs) = S" "length reqs = T * nat 2 + R + S"
      "T \<le> 1000000 \<and> R \<le> 1000000 \<longrightarrow> distinct (map request_key reqs)"
    by (elim exE conjE) (rule that)
  have "length (class_requests ''tool'' reqs) = 4" "length (class_requests ''rag'' reqs) = 2"
      "length (class_requests ''oneshot'' reqs) = 2" "length reqs = 8" "distinct (map request_key reqs)"
    using c unfolding near(1) [OF n(1)] near(2) [OF n(2)] near(2) [OF n(3)] by simp_all
  with g show ?thesis by blast
qed

end
