(* ===== verification/Metrics.thy ===== *)
theory Metrics
  imports PyText PyDict PyNum
begin

text \<open>
  \<open>src/bench/metrics.py\<close>. What Prometheus answers to a query is an \<open>answer\<close>: an exception of
  the HTTP client, or a status and the decoded body. The server is a parameter that takes a query
  and its own state, so that two queries may see different counters. The Python operations on a
  decoded value (\<open>.get\<close>, indexing, truth value, \<open>float\<close>) are written out for every shape
  of the JSON. \<open>numpy.percentile\<close> is a parameter.
\<close>

section \<open>Decoded JSON\<close>

datatype json =
    JNull
  | JBool bool
  | JInt int
  | JFloat pyfloat
  | JStr string
  | JList "json list"
  | JObj "(string, json) pydict"

definition json_truthy :: "json \<Rightarrow> bool" where
  "json_truthy j =
     (case j of
        JNull \<Rightarrow> False
      | JBool b \<Rightarrow> b
      | JInt i \<Rightarrow> i \<noteq> 0
      | JFloat x \<Rightarrow> \<not> feq x 0
      | JStr s \<Rightarrow> s \<noteq> []
      | JList xs \<Rightarrow> xs \<noteq> []
      | JObj d \<Rightarrow> d \<noteq> [])"

text \<open>\<open>j.get(key, otherwise)\<close>\<close>

definition json_get :: "string \<Rightarrow> json \<Rightarrow> json \<Rightarrow> json res" where
  "json_get key otherwise j =
     (case j of
        JObj d \<Rightarrow> Inr (case d_get d key of None \<Rightarrow> otherwise | Some v \<Rightarrow> v)
      | _ \<Rightarrow> Inl AttributeError)"

text \<open>\<open>j[n]\<close> for a nonnegative constant\<close>

definition json_item :: "nat \<Rightarrow> json \<Rightarrow> json res" where
  "json_item n j =
     (case j of
        JList xs \<Rightarrow> if n < length xs then Inr (xs ! n) else Inl IndexError
      | JStr s \<Rightarrow> if n < length s then Inr (JStr [s ! n]) else Inl IndexError
      | JObj d \<Rightarrow> Inl KeyError
      | _ \<Rightarrow> Inl TypeError)"

definition json_float :: "json \<Rightarrow> pyfloat res" where
  "json_float j =
     (case j of
        JStr s \<Rightarrow> float_of_str s
      | JInt i \<Rightarrow> float_of_int i
      | JFloat x \<Rightarrow> Inr x
      | JBool b \<Rightarrow> Inr (if b then 1 else 0)
      | _ \<Rightarrow> Inl TypeError)"

section \<open>Queries\<close>

type_synonym answer = "(int \<times> json res) res"
type_synonym 's prometheus = "string \<Rightarrow> 's \<Rightarrow> answer \<times> 's"

definition query_result :: "answer \<Rightarrow> json res" where
  "query_result a =
     rbind a (\<lambda>(status, body).
       if status = 200
       then rbind body (\<lambda>data. rbind (json_get ''data'' (JObj []) data) (json_get ''result'' (JList [])))
       else Inr (JList []))"

text \<open>The value of \<open>_scalar\<close> for a result: the index of the sample is taken outside the \<open>try\<close>.\<close>

definition result_scalar :: "json \<Rightarrow> pyfloat res" where
  "result_scalar results =
     (if json_truthy results then
        rbind (json_item 0 results) (\<lambda>first.
        rbind (json_get ''value'' (JList [JInt 0, JStr ''0'']) first) (\<lambda>sample.
        rbind (json_item 1 sample) (\<lambda>v.
          case json_float v of
            Inl e \<Rightarrow> if e = ValueError \<or> e = IndexError then Inr 0 else Inl e
          | Inr x \<Rightarrow> Inr x)))
      else Inr 0)"

definition scalar :: "'s prometheus \<Rightarrow> string \<Rightarrow> 's \<Rightarrow> (pyfloat \<times> 's) res" where
  "scalar server q s =
     (case server q s of (a, s') \<Rightarrow>
        rbind (query_result a) (\<lambda>results. rbind (result_scalar results) (\<lambda>x. Inr (x, s'))))"

definition quoted :: "string \<Rightarrow> string" where
  "quoted s = CHR 0x22 # s @ [CHR 0x22]"

definition get_prefix_cache_hit_rate :: "'s prometheus \<Rightarrow> 's \<Rightarrow> (pyfloat \<times> 's) res" where
  "get_prefix_cache_hit_rate server =
     scalar server (''sum(rate(vllm:prefix_cache_hits_total[5m])) / '' @
                    ''sum(rate(vllm:prefix_cache_queries_total[5m]))'')"

definition get_prefix_cache_counters :: "'s prometheus \<Rightarrow> 's \<Rightarrow> ((pyfloat \<times> pyfloat) \<times> 's) res" where
  "get_prefix_cache_counters server s =
     rbind (scalar server ''sum(vllm:prefix_cache_hits_total)'' s) (\<lambda>(hits, s1).
     rbind (scalar server ''sum(vllm:prefix_cache_queries_total)'' s1) (\<lambda>(queries, s2).
       Inr ((hits, queries), s2)))"

definition get_avg_prefill_time :: "'s prometheus \<Rightarrow> 's \<Rightarrow> (pyfloat option \<times> 's) res" where
  "get_avg_prefill_time server s =
     rbind (scalar server ''sum(vllm:request_prefill_time_seconds_sum)'' s) (\<lambda>(total, s1).
     rbind (scalar server ''sum(vllm:request_prefill_time_seconds_count)'' s1) (\<lambda>(count, s2).
       if 0 < count then rbind (fdiv total count) (\<lambda>avg. Inr (Some avg, s2)) else Inr (None, s2)))"

definition get_pinned_usage :: "'s prometheus \<Rightarrow> 's \<Rightarrow> (pyfloat \<times> 's) res" where
  "get_pinned_usage server = scalar server ''avg(vllm:kv_cache_pinned_usage_perc)''"

definition get_pinned_evictions :: "'s prometheus \<Rightarrow> 's \<Rightarrow> (pyfloat \<times> 's) res" where
  "get_pinned_evictions server = scalar server ''sum(vllm:kv_cache_pinned_evictions_total)''"

definition priority_query :: "string \<Rightarrow> string" where
  "priority_query name = ''sum(vllm:kv_cache_priority_blocks{priority='' @ quoted name @ ''})''"

definition get_priority_blocks :: "'s prometheus \<Rightarrow> 's \<Rightarrow> ((string, pyfloat) pydict \<times> 's) res" where
  "get_priority_blocks server s =
     rbind (scalar server (priority_query ''evict_first'') s) (\<lambda>(evict_first, s1).
     rbind (scalar server (priority_query ''high'') s1) (\<lambda>(high, s2).
     rbind (scalar server (priority_query ''pinned'') s2) (\<lambda>(pinned, s3).
       Inr ([(''evict_first'', evict_first), (''high'', high), (''pinned'', pinned)], s3))))"

section \<open>Percentiles\<close>

definition DEFAULT_PERCENTILES :: "int list" where
  "DEFAULT_PERCENTILES = [50, 90, 99]"

definition compute_percentiles ::
    "(pyfloat list \<Rightarrow> int \<Rightarrow> pyfloat) \<Rightarrow> pyfloat list \<Rightarrow> int list option \<Rightarrow> (int, pyfloat) pydict" where
  "compute_percentiles percentile data percentiles =
     (let ps = (case percentiles of None \<Rightarrow> DEFAULT_PERCENTILES | Some ps \<Rightarrow> ps) in
      if data = [] then fold (\<lambda>p. d_set p 0) ps []
      else fold (\<lambda>p. d_set p (percentile data p)) ps [])"

lemma fold_d_set_get:
  "d_get (fold (\<lambda>p. d_set p (f p)) ps d) k = (if k \<in> set ps then Some (f k) else d_get d k)"
  by (induction ps arbitrary: d) (auto simp: d_get_set)

lemma compute_percentiles_get:
  "d_get (compute_percentiles percentile data ps) k =
     (if k \<in> set (case ps of None \<Rightarrow> DEFAULT_PERCENTILES | Some ps \<Rightarrow> ps)
      then Some (if data = [] then 0 else percentile data k) else None)"
  by (simp add: compute_percentiles_def Let_def fold_d_set_get split: option.splits)

section \<open>Properties\<close>

text \<open>What each shape of a reply is worth, as a table: a number, or the exception that escapes\<close>

fun number_of :: "json \<Rightarrow> pyfloat res" where
  "number_of (JStr w) = Inr (case float_of_str w of Inl e \<Rightarrow> 0 | Inr x \<Rightarrow> x)"
| "number_of (JInt i) = (if \<bar>i\<bar> \<le> 2 ^ 53 then Inr (Fin (of_int i)) else float_of_int i)"
| "number_of (JFloat x) = Inr x"
| "number_of (JBool True) = Inr (Fin 1)"
| "number_of (JBool False) = Inr (Fin 0)"
| "number_of JNull = Inl TypeError"
| "number_of (JList xs) = Inl TypeError"
| "number_of (JObj d) = Inl TypeError"

fun sample_number :: "json \<Rightarrow> pyfloat res" where
  "sample_number (JList (stamp # v # more)) = number_of v"
| "sample_number (JList xs) = Inl IndexError"
| "sample_number (JStr (c # c' # cs)) = number_of (JStr [c'])"
| "sample_number (JStr cs) = Inl IndexError"
| "sample_number (JObj d) = Inl KeyError"
| "sample_number j = Inl TypeError"

fun result_number :: "json \<Rightarrow> pyfloat res" where
  "result_number (JList []) = Inr 0"
| "result_number (JList (JObj d # more)) = (case d_get d ''value'' of None \<Rightarrow> Inr 0 | Some j \<Rightarrow> sample_number j)"
| "result_number (JList (j # more)) = Inl AttributeError"
| "result_number JNull = Inr 0"
| "result_number (JBool b) = (if b then Inl TypeError else Inr 0)"
| "result_number (JInt i) = (if i = 0 then Inr 0 else Inl TypeError)"
| "result_number (JFloat x) = (if x = Fin 0 then Inr 0 else Inl TypeError)"
| "result_number (JStr []) = Inr 0"
| "result_number (JStr (c # cs)) = Inl AttributeError"
| "result_number (JObj []) = Inr 0"
| "result_number (JObj (x # d)) = Inl KeyError"

fun data_number :: "json \<Rightarrow> pyfloat res" where
  "data_number (JObj d) = (case d_get d ''result'' of None \<Rightarrow> Inr 0 | Some j \<Rightarrow> result_number j)"
| "data_number j = Inl AttributeError"

fun reply_number :: "json \<Rightarrow> pyfloat res" where
  "reply_number (JObj d) = (case d_get d ''data'' of None \<Rightarrow> Inr 0 | Some j \<Rightarrow> data_number j)"
| "reply_number j = Inl AttributeError"

lemma float_of_str_fails: "float_of_str w = Inl e \<Longrightarrow> e = ValueError"
  by (auto simp: float_of_str_def Let_def split: prod.splits if_splits option.splits)

lemma float_of_zero_text: "float_of_str ''0'' = Inr 0"
proof -
  have "scan_decimal ''0'' = Some 0" by code_simp
  then show ?thesis
    by (simp add: float_of_str_def strip_def is_space_def lower_char_def zero_pyfloat_def flt_eval)
qed

lemma conversion_number:
  "(case json_float v of
      Inl e \<Rightarrow> if e = ValueError \<or> e = IndexError then Inr 0 else Inl e
    | Inr x \<Rightarrow> Inr x) = number_of v"
proof (cases v)
  case (JStr w)
  then show ?thesis using float_of_str_fails [of w] by (auto simp: json_float_def split: sum.splits)
next
  case (JInt i)
  have "float_of_int i = Inr (Fin (of_int i))" if "\<bar>i\<bar> \<le> 2 ^ 53"
    using rnd_of_int [OF that] by (simp add: float_of_int_def)
  moreover have "float_of_int i \<noteq> Inl ValueError" "float_of_int i \<noteq> Inl IndexError"
    by (auto simp: float_of_int_def split: pyfloat.splits)
  ultimately show ?thesis using JInt by (auto simp: json_float_def split: sum.splits)
next
  case (JBool b)
  then show ?thesis by (cases b) (simp_all add: json_float_def one_pyfloat_def zero_pyfloat_def)
qed (simp_all add: json_float_def)

lemma item_number: "rbind (json_item 1 sample) number_of = sample_number sample"
  by (cases sample rule: sample_number.cases) (simp_all add: json_item_def)

lemma result_scalar_number: "result_scalar results = result_number results"
proof -
  have v: "result_scalar j = (if json_truthy j then rbind (json_item 0 j) (\<lambda>first.
      rbind (json_get ''value'' (JList [JInt 0, JStr ''0'']) first) sample_number) else Inr 0)" for j
    unfolding result_scalar_def conversion_number item_number by (rule refl)
  have zero: "number_of (JStr ''0'') = Inr 0" by (simp add: float_of_zero_text)
  have falsy: "feq x 0 \<longleftrightarrow> x = Fin 0" for x by (cases x) (auto simp: feq_def zero_pyfloat_def)
  show ?thesis unfolding v
    by (cases results rule: result_number.cases)
      (auto simp: json_truthy_def json_item_def json_get_def zero falsy simp del: number_of.simps split: option.splits)
qed

lemma reply_number_eq:
  "rbind (rbind (json_get ''data'' (JObj []) reply) (json_get ''result'' (JList []))) result_scalar = reply_number reply"
proof -
  have f: "result_scalar = result_number" by (rule ext) (rule result_scalar_number)
  have d: "rbind (json_get ''result'' (JList []) d) result_number = data_number d" for d
    by (cases d) (auto simp: json_get_def split: option.splits)
  have e: "data_number (JObj []) = Inr 0" by (simp add: d_get_def)
  have "rbind (rbind (json_get ''data'' (JObj []) reply) (json_get ''result'' (JList []))) result_number =
      rbind (json_get ''data'' (JObj []) reply) data_number"
    by (cases "json_get ''data'' (JObj []) reply") (simp_all add: d)
  also have "\<dots> = reply_number reply"
    using e by (cases reply) (auto simp: json_get_def split: option.splits)
  finally show ?thesis by (simp only: f)
qed

lemma query_number:
  "rbind (query_result a) result_scalar =
     rbind a (\<lambda>(status, body). if status = 200 then rbind body reply_number else Inr 0)"
proof (cases a)
  case (Inr x)
  obtain status body where x: "x = (status, body)" by (cases x)
  show ?thesis
    using reply_number_eq by (cases body) (simp_all add: query_result_def Inr x result_scalar_number)
qed (simp add: query_result_def)

text \<open>A result with one sample, as Prometheus answers an instant query of a scalar\<close>

definition instant :: "json \<Rightarrow> json \<Rightarrow> json" where
  "instant stamp v = JObj [(''status'', JStr ''success''),
     (''data'', JObj [(''resultType'', JStr ''vector''),
        (''result'', JList [JObj [(''metric'', JObj []), (''value'', JList [stamp, v])]])])]"

text \<open>C40: reading one number from Prometheus, for every answer. An exception of the client escapes, and so
  does one of decoding the body of a reply with status 200; any other status counts as zero. A decoded
  reply counts as the table above says, whatever its shape: zero when \<open>data\<close>, \<open>result\<close> or \<open>value\<close> is
  missing or the result is empty, and \<open>AttributeError\<close>, \<open>TypeError\<close>, \<open>KeyError\<close> or \<open>IndexError\<close>
  where a part has the wrong type or a sample is too short, since the sample is indexed outside the
  \<open>try\<close>. The sample of a well-formed reply is its number: a text that reads as a number is that number
  and any other text is zero, since only the \<open>ValueError\<close> of the conversion is swallowed; a number is
  itself and \<open>null\<close> raises \<open>TypeError\<close>.\<close>

theorem scalar_outcomes:
  "scalar server q s =
     (case server q s of
        (Inl e, s') \<Rightarrow> Inl e
      | (Inr (status, body), s') \<Rightarrow>
          if status \<noteq> 200 then Inr (0, s')
          else (case body of
                  Inl e \<Rightarrow> Inl e
                | Inr reply \<Rightarrow> (case reply_number reply of Inl e \<Rightarrow> Inl e | Inr x \<Rightarrow> Inr (x, s')))) \<and>
   reply_number (instant stamp (JStr w)) = Inr (case float_of_str w of Inl e \<Rightarrow> 0 | Inr x \<Rightarrow> x) \<and>
   reply_number (instant stamp (JFloat x)) = Inr x \<and>
   reply_number (instant stamp JNull) = Inl TypeError \<and>
   reply_number (JObj []) = Inr 0 \<and>
   reply_number (JObj [(''data'', JObj [])]) = Inr 0 \<and>
   reply_number (JObj [(''data'', JObj [(''result'', JList [])])]) = Inr 0 \<and>
   reply_number (JObj [(''data'', JObj [(''result'', JList (JObj [] # more))])]) = Inr 0 \<and>
   reply_number (JObj [(''data'', JObj [(''result'', JList (JObj [(''value'', JList [stamp])] # more))])]) = Inl IndexError"
proof -
  obtain a s' where a: "server q s = (a, s')" by (cases "server q s")
  have "scalar server q s = rbind (rbind (query_result a) result_scalar) (\<lambda>x. Inr (x, s'))"
    by (cases "query_result a") (simp_all add: scalar_def a)
  then have "scalar server q s = (case a of
        Inl e \<Rightarrow> Inl e
      | Inr (status, body) \<Rightarrow>
          if status \<noteq> 200 then Inr (0, s')
          else (case body of
                  Inl e \<Rightarrow> Inl e
                | Inr reply \<Rightarrow> (case reply_number reply of Inl e \<Rightarrow> Inl e | Inr x \<Rightarrow> Inr (x, s'))))"
    unfolding query_number by (cases a) (auto split: sum.splits)
  then show ?thesis by (cases a) (auto simp: a instant_def d_get_def)
qed

end
