(* ===== verification/Report.thy ===== *)
theory Report
  imports Runs Metrics
begin

text \<open>
  \<open>src/bench/report.py\<close>: the cells of the tables it prints. A table is its list of rows, a row its
  list of cells under its columns; titles, colours and the layout of the terminal are left out. \<open>sim_report\<close> is
  \<open>generate_sim_report\<close> with its three tables and \<open>report_rows\<close> is \<open>generate_report\<close>.
\<close>

type_synonym percentile = "pyfloat list \<Rightarrow> int \<Rightarrow> pyfloat"
type_synonym sim_results = "(string, SimResult) pydict"
type_synonym table = "string list list"

section \<open>The policy comparison\<close>

definition SIM_COLUMNS :: "string list" where
  "SIM_COLUMNS =
     [''Policy'', ''TTFT p50 (s)'', ''TTFT p99 (s)'', ''Hit rate'', ''Regime (wait/xfer/recomp)'',
      ''Routing regret (s)'', ''TTFT gap (s)'', ''Coupled'', ''Pinned evict'']"

definition TOOL_COLUMNS :: "string list" where
  "TOOL_COLUMNS = [''Tool'', ''Calls'', ''Mean gap'', ''Std gap'']"

definition LIVE_COLUMNS :: "string list" where
  "LIVE_COLUMNS =
     [''Strategy'', ''Requests'', ''Success Rate'', ''TTFT p50 (s)'', ''TTFT p99 (s)'', ''E2E p50 (s)'',
      ''Cache Hit Rate'', ''Prefill (s)'', ''Pinned %'', ''Pinned evict'']"

text \<open>\<open>f"{x * 100:.nf}"\<close>\<close>

definition percent :: "nat \<Rightarrow> pyfloat \<Rightarrow> string" where
  "percent n x = fmt_fixed n (x * Fin 100)"

text \<open>\<open>ttfts.get(p, 0)\<close> on the percentiles of a list\<close>

definition pctl :: "(int, pyfloat) pydict \<Rightarrow> int \<Rightarrow> pyfloat" where
  "pctl d p = (case d_get d p of None \<Rightarrow> 0 | Some x \<Rightarrow> x)"

definition best_oracle :: "sim_results \<Rightarrow> string option" where
  "best_oracle results = find (d_has results) ORACLE_BASELINES"

definition pctiles :: "percentile \<Rightarrow> sim_results \<Rightarrow> (string, (int, pyfloat) pydict) pydict" where
  "pctiles percentile results =
     map (\<lambda>(policy, res). (policy, compute_percentiles percentile (ttfts res) None)) results"

definition baseline_p50 :: "percentile \<Rightarrow> sim_results \<Rightarrow> pyfloat option" where
  "baseline_p50 percentile results =
     (case best_oracle results of
        None \<Rightarrow> None
      | Some b \<Rightarrow> map_option (\<lambda>d. pctl d 50) (d_get (pctiles percentile results) b))"

definition mix_share :: "(Regime, pyfloat) pydict \<Rightarrow> Regime \<Rightarrow> pyfloat res" where
  "mix_share mix g = (case d_get mix g of None \<Rightarrow> Inl KeyError | Some x \<Rightarrow> Inr x)"

definition gap_cell :: "pyfloat option \<Rightarrow> pyfloat \<Rightarrow> string" where
  "gap_cell baseline p50 = (case baseline of None \<Rightarrow> ''-'' | Some b \<Rightarrow> fmt_fixed 3 (p50 - b))"

definition main_row :: "percentile \<Rightarrow> pyfloat option \<Rightarrow> string \<times> SimResult \<Rightarrow> string list res" where
  "main_row percentile baseline = (\<lambda>(policy, res).
     let d = compute_percentiles percentile (ttfts res) None; p50 = pctl d 50 in
     rbind (regime_mix res) (\<lambda>mix.
     rbind (mean_or_zero (regrets res)) (\<lambda>mean_regret.
     rbind (hit_rate res) (\<lambda>hits.
     rbind (mix_share mix WAIT) (\<lambda>w.
     rbind (mix_share mix TRANSFER) (\<lambda>x.
     rbind (mix_share mix RECOMPUTE) (\<lambda>c.
     rbind (coupled_fraction res) (\<lambda>cf.
       Inr [policy, fmt_fixed 3 p50, fmt_fixed 3 (pctl d 99), percent 1 hits @ ''%'',
            percent 0 w @ ''/'' @ percent 0 x @ ''/'' @ percent 0 c,
            fmt_fixed 3 mean_regret, gap_cell baseline p50, percent 1 cf @ ''%'',
            str_int (pinned_evictions_total res)]))))))))"

definition main_table :: "percentile \<Rightarrow> sim_results \<Rightarrow> table res" where
  "main_table percentile results = rmap (main_row percentile (baseline_p50 percentile results)) results"

section \<open>The breakdown by class\<close>

text \<open>Strings compare by code points\<close>

fun string_less :: "string \<Rightarrow> string \<Rightarrow> bool" where
  "string_less s [] = False"
| "string_less [] (c # t) = True"
| "string_less (b # s) (c # t) = (if b = c then string_less s t else (of_char b :: nat) < of_char c)"

text \<open>\<open>sorted\<close> of a set, given by its elements\<close>

definition sorted_set :: "string list \<Rightarrow> string list" where
  "sorted_set xs = py_sort string_less (remdups xs)"

definition all_kinds :: "sim_results \<Rightarrow> string list" where
  "all_kinds results = sorted_set (concat (map (\<lambda>(policy, res). d_keys (by_kind res)) results))"

definition kind_cell :: "percentile \<Rightarrow> SimResult \<Rightarrow> string \<Rightarrow> string res" where
  "kind_cell percentile res kind =
     (case d_get (by_kind res) kind of
        None \<Rightarrow> Inr ''-''
      | Some stats \<Rightarrow>
          rbind (mean_regret stats) (\<lambda>r.
          rbind (kind_hit_rate stats) (\<lambda>h.
            Inr (fmt_fixed 3 r @ '' / '' @
                 fmt_fixed 3 (pctl (compute_percentiles percentile (k_ttfts stats) None) 50) @ '' / '' @
                 percent 0 h @ ''%''))))"

definition kind_table :: "percentile \<Rightarrow> sim_results \<Rightarrow> table res" where
  "kind_table percentile results =
     rmap (\<lambda>(policy, res). rbind (rmap (kind_cell percentile res) (all_kinds results)) (\<lambda>cells. Inr (policy # cells)))
       results"

section \<open>The observed gaps by tool\<close>

definition observed_gaps :: "sim_results \<Rightarrow> (string, pyfloat list) pydict" where
  "observed_gaps results =
     (case find (\<lambda>(policy, res). gap_by_tool res \<noteq> []) results of
        None \<Rightarrow> []
      | Some (policy, res) \<Rightarrow> gap_by_tool res)"

definition tool_row :: "(string, pyfloat list) pydict \<Rightarrow> string \<Rightarrow> string list res" where
  "tool_row gaps_by_tool tool =
     (case d_get gaps_by_tool tool of
        None \<Rightarrow> Inl KeyError
      | Some gaps \<Rightarrow>
          rbind (if 1 < length gaps then stat_pstdev gaps else Inr 0) (\<lambda>std.
          rbind (stat_mean gaps) (\<lambda>mean.
            Inr [tool, str_int (int (length gaps)), fmt_fixed 2 mean, fmt_fixed 2 std])))"

definition tool_table :: "(string, pyfloat list) pydict \<Rightarrow> table res" where
  "tool_table gaps_by_tool = rmap (tool_row gaps_by_tool) (sorted_set (d_keys gaps_by_tool))"

record sim_tables =
  main_rows :: table
  class_rows :: "(string list \<times> table) option"
  tool_rows :: "table option"

definition sim_report :: "percentile \<Rightarrow> sim_results \<Rightarrow> sim_tables res" where
  "sim_report percentile results =
     rbind (main_table percentile results) (\<lambda>main.
     rbind (if 1 < length (all_kinds results)
            then rbind (kind_table percentile results) (\<lambda>t. Inr (Some (all_kinds results, t)))
            else Inr None) (\<lambda>classes.
     rbind (if observed_gaps results \<noteq> []
            then rbind (tool_table (observed_gaps results)) (\<lambda>t. Inr (Some t)) else Inr None) (\<lambda>tools.
       Inr \<lparr>main_rows = main, class_rows = classes, tool_rows = tools\<rparr>)))"

section \<open>The comparison of live routes\<close>

record RouteMetrics =
  rm_requests :: int
  rm_success_rate :: pyfloat
  rm_ttft_p50 :: pyfloat
  rm_ttft_p99 :: pyfloat
  rm_e2e_p50 :: pyfloat

text \<open>A dictionary of optional values that may lack the key\<close>

definition opt_get :: "(string, pyfloat option) pydict \<Rightarrow> string \<Rightarrow> pyfloat option" where
  "opt_get d k = (case d_get d k of None \<Rightarrow> None | Some v \<Rightarrow> v)"

definition report_row ::
    "(string, pyfloat) pydict \<Rightarrow> (string, pyfloat option) pydict \<Rightarrow> (string, pyfloat option) pydict \<Rightarrow>
     (string, pyfloat option) pydict \<Rightarrow> string \<times> RouteMetrics \<Rightarrow> string list" where
  "report_row cache_hit_rates prefill_times pinned_usages evictions = (\<lambda>(strategy, m).
     [strategy, str_int (rm_requests m), fmt_fixed 1 (rm_success_rate m) @ ''%'', fmt_fixed 3 (rm_ttft_p50 m),
      fmt_fixed 3 (rm_ttft_p99 m), fmt_fixed 3 (rm_e2e_p50 m),
      percent 1 (case d_get cache_hit_rates strategy of None \<Rightarrow> 0 | Some h \<Rightarrow> h) @ ''%'',
      (case opt_get prefill_times strategy of None \<Rightarrow> ''n/a'' | Some x \<Rightarrow> fmt_fixed 3 x),
      (case opt_get pinned_usages strategy of None \<Rightarrow> ''n/a'' | Some x \<Rightarrow> percent 1 x @ ''%''),
      (case opt_get evictions strategy of None \<Rightarrow> ''n/a'' | Some x \<Rightarrow> fmt_fixed 0 x)])"

definition report_rows ::
    "(string, RouteMetrics) pydict \<Rightarrow> (string, pyfloat) pydict \<Rightarrow> (string, pyfloat option) pydict option \<Rightarrow>
     (string, pyfloat option) pydict option \<Rightarrow> (string, pyfloat option) pydict option \<Rightarrow> table" where
  "report_rows results cache_hit_rates prefill_times pinned_usages evictions =
     (let given = (\<lambda>d. case d of None \<Rightarrow> [] | Some x \<Rightarrow> x) in
      map (report_row cache_hit_rates (given prefill_times) (given pinned_usages) (given evictions)) results)"

section \<open>Lemmas\<close>

lemma rmap_cells: "rmap f xs = Inr ys \<Longrightarrow> (\<And>x y. x \<in> set xs \<Longrightarrow> f x = Inr y \<Longrightarrow> g y = h x) \<Longrightarrow> map g ys = map h xs"
  by (induction xs arbitrary: ys) auto

lemma rmap_list_all2: "rmap f xs = Inr ys \<Longrightarrow> list_all2 (\<lambda>x y. f x = Inr y) xs ys"
  by (induction xs arbitrary: ys) auto

text \<open>A percentile of the times to the first token of a run, which is zero for a run without requests\<close>

definition ttft_at :: "percentile \<Rightarrow> SimResult \<Rightarrow> int \<Rightarrow> pyfloat" where
  "ttft_at percentile res p = (if ttfts res = [] then 0 else percentile (ttfts res) p)"

lemma pctl_default:
  "p \<in> {50, 90, 99} \<Longrightarrow> pctl (compute_percentiles percentile (ttfts res) None) p = ttft_at percentile res p"
  by (auto simp: pctl_def compute_percentiles_get DEFAULT_PERCENTILES_def ttft_at_def)

lemma main_row_cells:
  assumes "main_row percentile baseline (policy, res) = Inr row"
  shows "length row = length SIM_COLUMNS \<and> hd row = policy \<and> row ! 1 = fmt_fixed 3 (ttft_at percentile res 50) \<and>
    row ! 2 = fmt_fixed 3 (ttft_at percentile res 99) \<and> row ! 6 = gap_cell baseline (ttft_at percentile res 50)"
  using assms by (auto simp: main_row_def Let_def SIM_COLUMNS_def pctl_default)

lemma row_widths:
  "tool_row gaps tool = Inr row \<Longrightarrow> length row = length TOOL_COLUMNS"
  "length (report_row rates prefills usages evictions x) = length LIVE_COLUMNS"
  by (auto simp: tool_row_def TOOL_COLUMNS_def report_row_def LIVE_COLUMNS_def split_beta split: option.splits)

lemma gap_to_itself: "gap_cell (Some x) x \<in> {''0.000'', ''nan''}"
proof (cases x)
  case (Fin q)
  have "str_nat 0 = ''0''" by code_simp
  then have "fmt_rat 3 0 = ''0.000''" by (simp add: fmt_rat_def round_even_def pad_zeros_def numeral_3_eq_3)
  then show ?thesis using Fin by (simp add: gap_cell_def fmt_fixed_def minus_pyfloat_def)
qed (simp_all add: gap_cell_def fmt_fixed_def minus_pyfloat_def)

lemma pctiles_get: "d_get (pctiles percentile results) k =
    map_option (\<lambda>res. compute_percentiles percentile (ttfts res) None) (d_get results k)"
  by (induction results) (auto simp: pctiles_def d_get_def)

lemma baseline_Some:
  assumes "best_oracle results = Some b"
  obtains res where "d_get results b = Some res"
    and "baseline_p50 percentile results = Some (ttft_at percentile res 50)"
proof -
  have "d_has results b" using assms by (auto simp: best_oracle_def find_Some_iff)
  then obtain res where "d_get results b = Some res" 
    by (cases "d_get results b") (simp_all add: d_has_iff d_get_None_iff)
  then show thesis using that assms by (simp add: baseline_p50_def pctiles_get pctl_default)
qed

lemma counted_row:
  assumes "counted reqs res" "int (length (regrets res)) \<le> 2 ^ 53"
  shows "\<exists>row m. mean_or_zero (regrets res) = Inr m \<and> main_row percentile baseline (policy, res) = Inr row \<and>
    row ! 5 = fmt_fixed 3 m"
proof -
  obtain h c mix where m: "hit_rate res = Inr h" "coupled_fraction res = Inr c" "regime_mix res = Inr mix"
      "map fst mix = all_regimes"
    using metrics_are_fractions [OF assms(1)] by blast
  have share: "\<exists>x. mix_share mix g = Inr x" for g
    using m(4) d_get_None_iff [of mix g] by (cases g) (auto simp: mix_share_def d_keys_def all_regimes_def split: option.splits)
  obtain w x y where "mix_share mix WAIT = Inr w" "mix_share mix TRANSFER = Inr x" "mix_share mix RECOMPUTE = Inr y"
    using share by metis
  moreover obtain z where "mean_or_zero (regrets res) = Inr z"
    using assms(2) rnd_of_int [of "int (length (regrets res))"]
    by (cases "regrets res = []") (auto simp: mean_or_zero_def float_of_int_def fdiv_def)
  ultimately show ?thesis using m(1-3) by (simp add: main_row_def Let_def)
qed

lemma fsum_zeros: "fsum_loop 0 0 (replicate n 0) = (0, 0)"
proof (induction n)
  case (Suc n)
  have "(0::pyfloat) + 0 = 0" "(0::pyfloat) - 0 = 0" by (simp_all add: zero_pyfloat_def minus_pyfloat_def)
  with Suc show ?case by (simp add: Let_def)
qed simp

lemma mean_of_zeros: "int n \<le> 2 ^ 53 \<Longrightarrow> mean_or_zero (replicate n 0) = Inr 0"
proof (cases n)
  case (Suc k)
  assume n: "int n \<le> 2 ^ 53"
  have "py_fsum (replicate n 0) = 0"
    using fsum_zeros [of k] by (simp add: py_fsum_def Suc zero_pyfloat_def)
  moreover have "float_of_int (int n) = Inr (Fin (of_nat n))"
    using rnd_of_int [of "int n"] n by (simp add: float_of_int_def)
  ultimately show ?thesis using Suc by (simp add: mean_or_zero_def fdiv_def zero_pyfloat_def)
qed (simp add: mean_or_zero_def)

section \<open>Properties\<close>

text \<open>C39: the comparison table has one row per policy, in the order of the runs, with a cell for each
  column: the policy, its median time to the first token and its 99th percentile. Its gap column is
  measured against \<open>oracle-belady\<close> when that was run, else against \<open>oracle\<close>: in the row of every policy it
  is the policy's median minus the median of that baseline, so that it is positive for a policy slower
  than the oracle, and it reads \<open>0.000\<close> (or \<open>nan\<close>) in the row of the baseline itself; with neither of
  them the column shows dashes.\<close>

theorem comparison_table_baseline:
  assumes "main_table percentile results = Inr rows" and "d_ok results"
  shows "map hd rows = d_keys results \<and>
    list_all2 (\<lambda>(policy, res) row. length row = length SIM_COLUMNS \<and>
      row ! 1 = fmt_fixed 3 (ttft_at percentile res 50) \<and> row ! 2 = fmt_fixed 3 (ttft_at percentile res 99)) results rows \<and>
    (case best_oracle results of
       None \<Rightarrow> \<not> d_has results ''oracle-belady'' \<and> \<not> d_has results ''oracle'' \<and> list_all (\<lambda>row. row ! 6 = ''-'') rows
     | Some b \<Rightarrow> b = (if d_has results ''oracle-belady'' then ''oracle-belady'' else ''oracle'') \<and>
         (\<exists>base. d_get results b = Some base \<and>
            list_all2 (\<lambda>(policy, res) row.
              row ! 6 = fmt_fixed 3 (ttft_at percentile res 50 - ttft_at percentile base 50)) results rows) \<and>
         list_all (\<lambda>row. hd row \<noteq> b \<or> row ! 6 \<in> {''0.000'', ''nan''}) rows)"
proof -
  let ?base = "baseline_p50 percentile results"
  have rows: "rmap (main_row percentile ?base) results = Inr rows" using assms(1) by (simp add: main_table_def)
  have cells: "list_all2 (\<lambda>(policy, res) row. length row = length SIM_COLUMNS \<and> hd row = policy \<and>
      row ! 1 = fmt_fixed 3 (ttft_at percentile res 50) \<and> row ! 2 = fmt_fixed 3 (ttft_at percentile res 99) \<and>
      row ! 6 = gap_cell ?base (ttft_at percentile res 50)) results rows"
    using main_row_cells by (intro list_all2_mono [OF rmap_list_all2 [OF rows]]) auto
  have names: "map hd rows = map fst results" using rmap_cells [OF rows, of hd fst] main_row_cells by auto
  have shape: "list_all2 (\<lambda>(policy, res) row. length row = length SIM_COLUMNS \<and>
      row ! 1 = fmt_fixed 3 (ttft_at percentile res 50) \<and> row ! 2 = fmt_fixed 3 (ttft_at percentile res 99)) results rows"
    by (intro list_all2_mono [OF cells]) auto
  have row: "\<exists>policy res. (policy, res) \<in> set results \<and> hd row = policy \<and>
      row ! 6 = gap_cell ?base (ttft_at percentile res 50)" if "row \<in> set rows" for row
    using that cells by (fastforce simp: list_all2_conv_all_nth in_set_conv_nth)
  show ?thesis
  proof (cases "best_oracle results")
    case None
    then have "?base = None" by (simp add: baseline_p50_def)
    then have "list_all (\<lambda>row. row ! 6 = ''-'') rows" using row by (auto simp: list_all_iff gap_cell_def)
    then show ?thesis using None names shape
      by (auto simp: best_oracle_def ORACLE_BASELINES_def d_keys_def split: if_splits)
  next
    case (Some b)
    obtain base where b: "d_get results b = Some base" "?base = Some (ttft_at percentile base 50)"
      using baseline_Some [OF Some] .
    have "list_all2 (\<lambda>(policy, res) row.
        row ! 6 = fmt_fixed 3 (ttft_at percentile res 50 - ttft_at percentile base 50)) results rows"
      using b(2) by (intro list_all2_mono [OF cells]) (auto simp: gap_cell_def)
    moreover have "row ! 6 \<in> {''0.000'', ''nan''}" if r: "row \<in> set rows" "hd row = b" for row
    proof -
      obtain policy res where p: "(policy, res) \<in> set results" "hd row = policy"
          "row ! 6 = gap_cell ?base (ttft_at percentile res 50)"
        using row [OF r(1)] by blast
      have "d_get results policy = Some res" using p(1) assms(2) by (simp add: d_get_def d_ok_def d_keys_def)
      then show ?thesis using gap_to_itself b p r(2) by simp
    qed
    moreover have "b = (if d_has results ''oracle-belady'' then ''oracle-belady'' else ''oracle'')"
      using Some by (auto simp: best_oracle_def ORACLE_BASELINES_def split: if_splits)
    ultimately show ?thesis using Some names shape b(1) by (auto simp: list_all_iff d_keys_def)
  qed
qed

text \<open>The results of two policies on the sample stream\<close>

lemma demo_run:
  obtains r where "run_simulation demo_stream policy_call Oracle 2 4 default_params False = Some (Inr r)"
    and "counted demo_stream r"
proof -
  obtain r where r: "run_simulation demo_stream policy_call Oracle 2 4 default_params False = Some (Inr r)"
    using total_free.run_simulation_iff [OF demo_stream_ok, of 2 Oracle 4 False] by (auto simp: load_free_def)
  moreover have "counted demo_stream r"
    using registry.run_simulation_accounts [OF demo_stream_ok(1) r] by (simp add: accounts_def)
  ultimately show thesis by (rule that)
qed

text \<open>The row of a slower policy beside the row of the oracle\<close>

theorem comparison_table_baseline_witness:
  "\<exists>r r' row row'. main_table (\<lambda>xs p. hd xs) [(''oracle'', r), (''round-robin'', r')] = Inr [row, row'] \<and>
     hd row = ''oracle'' \<and> row ! 6 \<in> {''0.000'', ''nan''} \<and> row' ! 1 = ''3.000'' \<and> row' ! 6 = ''2.000''"
proof -
  obtain r0 where r0: "counted demo_stream r0" using demo_run by blast
  let ?n = "length demo_stream" and ?p = "\<lambda>xs p. hd xs"
  define r and r' where r: "r = r0\<lparr>ttfts := replicate ?n (Fin 1)\<rparr>" and r': "r' = r0\<lparr>ttfts := replicate ?n (Fin 3)\<rparr>"
  have c: "counted demo_stream r" "counted demo_stream r'" using r0 by (simp_all add: counted_def r r')
  have n: "demo_stream \<noteq> []" by (simp add: demo_stream_def)
  then have t: "ttft_at ?p r 50 = Fin 1" "ttft_at ?p r' 50 = Fin 3" by (simp_all add: ttft_at_def r r')
  have "int (length (regrets r)) \<le> 2 ^ 53" "int (length (regrets r')) \<le> 2 ^ 53"
    using c by (simp_all add: counted_def demo_stream_def)
  note returned = counted_row [OF c(1) this(1)] counted_row [OF c(2) this(2)]
  let ?results = "[(''oracle'', r), (''round-robin'', r')]"
  obtain row row' where "main_row ?p (baseline_p50 ?p ?results) (''oracle'', r) = Inr row"
      "main_row ?p (baseline_p50 ?p ?results) (''round-robin'', r') = Inr row'"
    using returned by metis
  then have rows: "main_table ?p ?results = Inr [row, row']" by (simp add: main_table_def)
  have b: "best_oracle ?results = Some ''oracle''"
    by (simp add: best_oracle_def ORACLE_BASELINES_def d_has_iff d_keys_def)
  have three: "fmt_fixed 3 (Fin 3) = ''3.000''" "fmt_fixed 3 (Fin 2) = ''2.000''" by code_simp+
  have "Fin 3 - Fin 1 = Fin 2" using rnd_of_int [of 2] by (simp add: minus_pyfloat_def)
  with comparison_table_baseline [OF rows] have "hd row = ''oracle''" "row ! 6 \<in> {''0.000'', ''nan''}"
      "row' ! 1 = ''3.000''" "row' ! 6 = ''2.000''"
    by (auto simp: b d_ok_def d_keys_def d_get_def t three)
  with rows show ?thesis by blast
qed

text \<open>What a simulation prints for the oracle router: its row is produced without an exception and
  the routing regret in it reads \<open>0.000\<close>, with either eviction policy, as the report promises.\<close>

lemma oracle_row_shows_no_regret:
  assumes "list_all (request_ok ps) reqs" and "int (length reqs) \<le> 2 ^ 53"
    and "run_simulation reqs policy_call Oracle k cap ps belady = Some (Inr r)"
  shows "\<exists>row. main_row percentile baseline (policy, r) = Inr row \<and> row ! 5 = ''0.000''"
proof -
  have zero: "regrets r = replicate (length reqs) 0" by (rule oracle_regrets [OF assms(1,3)])
  have c: "counted reqs r" using registry.run_simulation_accounts [OF assms(1,3)] by (simp add: accounts_def)
  have "fmt_fixed 3 0 = ''0.000''" by code_simp
  then show ?thesis
    using counted_row [OF c, of percentile baseline policy] mean_of_zeros [OF assms(2)] zero assms(2) by auto
qed

end
