(* ===== verification/Tables.thy ===== *)
theory Tables
  imports Report
begin

text \<open>
  The tables of a simulation can be printed: the means, rates and deviations of \<open>src/bench/report.py\<close>
  are defined on the results of every run whose requests arrive in a bounded time.
\<close>

section \<open>The gaps a run observes\<close>

definition near :: "int \<Rightarrow> pyfloat \<Rightarrow> bool" where
  "near T x \<longleftrightarrow> (case x of Fin q \<Rightarrow> \<bar>q\<bar> \<le> of_int T | _ \<Rightarrow> False)"

definition in_span :: "int \<Rightarrow> pyfloat \<Rightarrow> bool" where
  "in_span T x \<longleftrightarrow> 0 \<le> x \<and> x \<le> Fin (of_int T)"

lemma near_rnd: "\<bar>q\<bar> \<le> of_int T \<Longrightarrow> \<bar>T\<bar> \<le> 2 ^ 53 \<Longrightarrow> near T (rnd q)"
  using rnd_le_Fin [OF _ rnd_of_int [of T], of q] rnd_ge_Fin [OF _ rnd_of_int [of "- T"], of q]
  by (cases "rnd q") (auto simp: near_def abs_le_iff)

lemma near_diff:
  assumes "in_span T a" "in_span T b" "\<bar>T\<bar> \<le> 2 ^ 53"
  shows "near T (a - b)"
proof -
  obtain p q where "a = Fin p" "b = Fin q" "0 \<le> p" "p \<le> of_int T" "0 \<le> q" "q \<le> of_int T"
    using assms(1,2) by (cases a; cases b) (auto simp: in_span_def zero_pyfloat_def)
  then show ?thesis using near_rnd [of "p - q" T] assms(3) by (simp add: minus_pyfloat_def abs_le_iff)
qed

definition gaps_near :: "int \<Rightarrow> (string, pyfloat list) pydict \<Rightarrow> bool" where
  "gaps_near T gaps \<longleftrightarrow> list_all (\<lambda>(tool, gs). gs \<noteq> [] \<and> list_all (near T) gs) gaps"

lemma note_gap_near:
  assumes "gaps_near T (gap_by_tool r)" "\<And>g. gap = Some g \<Longrightarrow> near T g"
  shows "gaps_near T (gap_by_tool (note_gap tool gap r))"
proof (cases gap)
  case (Some g)
  show ?thesis
  proof (cases tool)
    case t: (Some t)
    have "list_all (near T) gs" if "d_get (gap_by_tool r) t = Some gs" for gs
      using d_get_mem [OF that] assms(1) by (auto simp: gaps_near_def list_all_iff)
    then show ?thesis
      using assms(1) assms(2) [OF Some] unfolding gaps_near_def
      by (auto simp: note_gap_def Some t intro!: list_all_d_set split: option.splits)
  qed (simp add: note_gap_def Some assms(1))
qed (simp add: note_gap_def assms(1))

lemma observed_near:
  assumes "observe_gap seen c tool now GAP_TRACKER_CAPACITY = Inr (gap, seen')"
    and "list_all (\<lambda>(c, t). in_span T t) seen" "in_span T now" "\<bar>T\<bar> \<le> 2 ^ 53"
  shows "list_all (\<lambda>(c, t). in_span T t) seen' \<and> (\<forall>g. gap = Some g \<longrightarrow> near T g)"
proof (cases c)
  case (Some i)
  have "list_all (\<lambda>(c, t). in_span T t) (d_touch i now seen)"
    using assms(2,3) by (intro list_all_d_touch) simp_all
  moreover have "set (drop n xs) \<subseteq> set xs" for n and xs :: "(int \<times> pyfloat) list" by (rule set_drop_subset)
  ultimately have "list_all (\<lambda>(c, t). in_span T t) seen'"
    using assms(1) Some unfolding list_all_iff
    by (auto simp: observe_gap_def d_trim_eq GAP_TRACKER_CAPACITY_def)
  moreover have "near T g" if g: "gap = Some g" for g
  proof -
    obtain prev where "d_get seen i = Some prev" "g = now - prev"
      using assms(1) Some g
      by (auto simp: observe_gap_def d_trim_eq GAP_TRACKER_CAPACITY_def split: option.splits)
    then show ?thesis using d_get_mem [of seen] assms(2-4) by (fastforce simp: list_all_iff intro: near_diff)
  qed
  ultimately show ?thesis by blast
qed (use assms in \<open>simp add: observe_gap_def\<close>)

text \<open>What the loop notes of a request, as a function of the stream alone\<close>

definition note_turn ::
    "TurnRequest \<Rightarrow> (int, pyfloat) pydict \<times> (string, pyfloat list) pydict \<Rightarrow>
     (int, pyfloat) pydict \<times> (string, pyfloat list) pydict" where
  "note_turn req = (\<lambda>(seen, gaps).
     case observe_gap seen (r_conversation_id req) (r_tool_name req) (r_arrival req) GAP_TRACKER_CAPACITY of
       Inl e \<Rightarrow> (seen, gaps)
     | Inr (gap, seen') \<Rightarrow> (seen', gap_by_tool (note_gap (r_tool_name req) gap (new_result\<lparr>gap_by_tool := gaps\<rparr>))))"

definition tool_gaps :: "TurnRequest list \<Rightarrow> (string, pyfloat list) pydict" where
  "tool_gaps reqs = snd (fold note_turn reqs ([], []))"

lemma note_gap_cong:
  "gap_by_tool r = gap_by_tool r' \<Longrightarrow> gap_by_tool (note_gap tool gap r) = gap_by_tool (note_gap tool gap r')"
  by (simp add: note_gap_def split: option.split)

lemma step_notes:
  assumes "sim_step call ps idx req st = Some (Inr st')"
  shows "(sim_last_seen st', gap_by_tool (sim_result st')) = note_turn req (sim_last_seen st, gap_by_tool (sim_result st))"
proof -
  obtain d where d: "decide call ps req st = Inr d" "sim_result st' = d_result d" "sim_last_seen st' = d_last_seen d"
    using assms by (auto simp: sim_step_def split: sum.splits option.splits)
  then obtain gap seen where o: "observe_gap (sim_last_seen st) (r_conversation_id req) (r_tool_name req) (r_arrival req)
      GAP_TRACKER_CAPACITY = Inr (gap, seen)" "d_last_seen d = seen"
      "gap_by_tool (d_result d) = gap_by_tool (note_gap (r_tool_name req) gap (sim_result st))"
    by (auto simp: decide_def Let_def record_turn_def)
  show ?thesis by (simp add: d o note_turn_def) (rule note_gap_cong, simp)
qed

lemma run_notes:
  "sim_run call ps idx reqs st = Some (Inr st') \<Longrightarrow>
   (sim_last_seen st', gap_by_tool (sim_result st')) = fold note_turn reqs (sim_last_seen st, gap_by_tool (sim_result st))"
proof (induction reqs arbitrary: idx st)
  case (Cons req reqs)
  then obtain st1 where st1: "sim_step call ps idx req st = Some (Inr st1)" "sim_run call ps (idx + 1) reqs st1 = Some (Inr st')"
    by (auto split: option.splits sum.splits)
  show ?case using Cons.IH [OF st1(2)] by (simp add: step_notes [OF st1(1)])
qed simp

text \<open>The gaps do not depend on the policy, the nodes or the eviction.\<close>

lemma run_simulation_gaps:
  assumes "run_simulation reqs call s0 k cap ps belady = Some (Inr r)"
  shows "gap_by_tool r = tool_gaps reqs"
proof -
  let ?nodes = "make_nodes k cap (if belady then Some (build_future_uses reqs) else None)"
  let ?st = "\<lparr>sim_nodes = ?nodes, sim_result = new_result, sim_last_seen = [], sim_policy = s0\<rparr>"
  obtain st where st: "sim_run call ps 0 reqs ?st = Some (Inr st)" "gap_by_tool r = gap_by_tool (sim_result st)"
    using assms by (auto simp: run_simulation_def Let_def split: option.splits sum.splits)
  have "gap_by_tool new_result = []" by (simp add: new_result_def)
  then have "(sim_last_seen st, gap_by_tool (sim_result st)) = fold note_turn reqs ([], [])"
    using run_notes [OF st(1)] by simp
  then show ?thesis by (metis st(2) snd_conv tool_gaps_def)
qed

lemma notes_near:
  assumes "list_all (\<lambda>r. in_span T (r_arrival r)) reqs" "\<bar>T\<bar> \<le> 2 ^ 53"
    and "gaps_near T gaps" "list_all (\<lambda>(c, t). in_span T t) seen"
  shows "gaps_near T (snd (fold note_turn reqs (seen, gaps)))"
  using assms
proof (induction reqs arbitrary: seen gaps)
  case (Cons req reqs)
  obtain gap seen' where o: "observe_gap seen (r_conversation_id req) (r_tool_name req) (r_arrival req)
      GAP_TRACKER_CAPACITY = Inr (gap, seen')"
    using observe_gap_returns by metis
  let ?r = "new_result\<lparr>gap_by_tool := gaps\<rparr>"
  have near: "list_all (\<lambda>(c, t). in_span T t) seen'" "\<And>g. gap = Some g \<Longrightarrow> near T g"
    using observed_near [OF o Cons.prems(4) _ assms(2)] Cons.prems(1) by simp_all
  have "gaps_near T (gap_by_tool (note_gap (r_tool_name req) gap ?r))"
    by (rule note_gap_near [OF _ near(2)]) (simp_all add: Cons.prems(3))
  from Cons.IH [OF _ assms(2) this near(1)] Cons.prems(1) show ?case by (simp add: note_turn_def o)
qed simp

lemma tool_gaps_near:
  "list_all (\<lambda>r. in_span T (r_arrival r)) reqs \<Longrightarrow> \<bar>T\<bar> \<le> 2 ^ 53 \<Longrightarrow> gaps_near T (tool_gaps reqs)"
  unfolding tool_gaps_def by (rule notes_near) (simp_all add: gaps_near_def)

section \<open>The cells are defined\<close>

lemma sum_list_abs_le: "(\<And>x. x \<in> set xs \<Longrightarrow> \<bar>x\<bar> \<le> b) \<Longrightarrow> \<bar>sum_list xs\<bar> \<le> of_nat (length xs) * (b :: rat)"
proof (induction xs)
  case (Cons x xs)
  then have "\<bar>sum_list xs\<bar> \<le> of_nat (length xs) * b" "\<bar>x\<bar> \<le> b" by simp_all
  then show ?case by (simp add: algebra_simps abs_le_iff)
qed simp

lemma near_stats:
  assumes "xs \<noteq> []" "list_all (near T) xs" "\<bar>T\<bar> \<le> 2 ^ 53"
  shows "returns (stat_mean xs)" "returns (stat_pstdev xs)"
proof -
  have v: "nonfinite xs = []"
    using assms(2) by (auto simp: nonfinite_def near_def list_all_iff filter_empty_conv split: pyfloat.splits)
  have b: "\<bar>fin_val x\<bar> \<le> of_int T" if "x \<in> set xs" for x
    using assms(2) that by (cases x) (auto simp: near_def list_all_iff dest: bspec [of _ _ x])
  let ?s = "sum_list (map fin_val xs)" and ?n = "of_nat (length xs) :: rat"
  have "\<bar>?s\<bar> \<le> ?n * of_int T" using sum_list_abs_le [of "map fin_val xs" "of_int T"] b by auto
  then have "\<bar>?s / ?n\<bar> \<le> of_int T" using assms(1) by (simp add: abs_divide divide_le_eq mult.commute)
  from near_rnd [OF this assms(3)] show "returns (stat_mean xs)"
    using assms(1) v by (auto simp: stat_mean_def rnd_or_overflow_def near_def split: pyfloat.splits)
  show "returns (stat_pstdev xs)" using assms(1) v by (simp add: stat_pstdev_def Let_def)
qed

lemma tool_table_returns:
  assumes "gaps_near T gaps" "\<bar>T\<bar> \<le> 2 ^ 53"
  shows "returns (tool_table gaps)"
  unfolding tool_table_def
proof (rule rmap_returns)
  fix tool assume "tool \<in> set (sorted_set (d_keys gaps))"
  then have "tool \<in> set (d_keys gaps)" by (simp add: sorted_set_def set_py_sort)
  then obtain gs where gs: "d_get gaps tool = Some gs" using d_get_None_iff [of gaps tool] by fastforce
  then have "gs \<noteq> []" "list_all (near T) gs"
    using assms(1) d_get_mem [of gaps tool] by (auto simp: gaps_near_def list_all_iff)
  from near_stats [OF this assms(2)] show "returns (tool_row gaps tool)"
    by (auto simp: tool_row_def gs returns_iff)
qed

lemma mean_returns: "int (length xs) \<le> 2 ^ 53 \<Longrightarrow> returns (mean_or_zero xs)"
  using rnd_of_int [of "int (length xs)"] by (simp add: mean_or_zero_def fdiv_def float_of_int_def)

lemma kind_cell_returns:
  assumes "sliced reqs res" "int (length reqs) \<le> 2 ^ 53"
  shows "returns (kind_cell percentile res kind)"
proof (cases "d_get (by_kind res) kind")
  case (Some ks)
  then have ks: "k_regrets ks = slice kind reqs (regrets res)" "0 \<le> k_reused_blocks ks"
      "k_reused_blocks ks \<le> k_total_blocks ks"
    using assms(1) by (auto simp: sliced_def dest: spec [of _ kind])
  have "length (k_regrets ks) \<le> length reqs"
    using length_filter_le [of "\<lambda>(q, x). r_kind q = kind" "zip reqs (regrets res)"] by (simp add: ks(1) slice_def)
  then have "int (length (k_regrets ks)) \<le> 2 ^ 53" using assms(2) by simp
  then have "returns (mean_regret ks)" by (simp add: mean_regret_def mean_returns)
  moreover have "returns (kind_hit_rate ks)"
    using ratio_fraction [OF ks(2,3)] by (auto simp: kind_hit_rate_def returns_iff)
  ultimately show ?thesis by (auto simp: kind_cell_def Some returns_iff)
qed (simp add: kind_cell_def)

text \<open>What \<open>simulate\<close> needs of the results it prints\<close>

definition printable :: "TurnRequest list \<Rightarrow> sim_results \<Rightarrow> bool" where
  "printable reqs results \<longleftrightarrow>
     list_all (\<lambda>(policy, r). accounts reqs r \<and> gap_by_tool r = tool_gaps reqs) results"

lemma observed_gaps_eq:
  assumes "printable reqs results"
  shows "observed_gaps results = (if results = [] then [] else tool_gaps reqs)"
proof (cases "find (\<lambda>(policy, res). gap_by_tool res \<noteq> []) results")
  case None
  then have "results = [] \<or> tool_gaps reqs = []"
    using assms by (cases results) (auto simp: printable_def split: if_splits)
  then show ?thesis by (auto simp: observed_gaps_def None)
next
  case (Some x)
  then have "x \<in> set results" by (metis find_Some_iff nth_mem)
  then show ?thesis using assms by (auto simp: observed_gaps_def Some printable_def list_all_iff)
qed

lemma sim_report_returns:
  assumes "printable reqs results" "int (length reqs) \<le> 2 ^ 53"
    and "list_all (\<lambda>r. in_span T (r_arrival r)) reqs" "\<bar>T\<bar> \<le> 2 ^ 53"
  shows "returns (sim_report percentile results)"
proof -
  have r: "counted reqs r" "sliced reqs r" "length (regrets r) = length reqs" if "(p, r) \<in> set results" for p r
    using assms(1) that by (auto simp: printable_def accounts_def counted_def list_all_iff)
  have "returns (main_row percentile (baseline_p50 percentile results) x)" if "x \<in> set results" for x
    using counted_row [OF r(1), of "fst x" "snd x"] r(3) [of "fst x" "snd x"] that assms(2)
    by (cases x) (fastforce simp: returns_iff)
  then have main: "returns (main_table percentile results)" by (simp add: main_table_def rmap_returns)
  have "returns (rmap (kind_cell percentile res) kinds)" if "(p, res) \<in> set results" for p res kinds
    using kind_cell_returns [OF r(2) [OF that] assms(2)] by (rule rmap_returns)
  then have kinds: "returns (kind_table percentile results)"
    unfolding kind_table_def by (intro rmap_returns) (auto simp: returns_iff)
  have "gaps_near T (observed_gaps results)"
    using tool_gaps_near [OF assms(3,4)] by (simp add: observed_gaps_eq [OF assms(1)] gaps_near_def)
  from tool_table_returns [OF this assms(4)] main kinds show ?thesis
    by (auto simp: sim_report_def returns_iff)
qed

end
