(* ===== verification/Traffic.thy ===== *)
theory Traffic
  imports Workload
begin

text \<open>
  The live traffic generator, \<open>src/bench/traffic.py\<close>.

  What the gateway answers to one request is an \<open>exchange\<close>: a failure before the response, or
  a status with the lines of the body (each with the clock reading when it arrived) and how the
  body ended. \<open>stream_chat\<close> is \<open>_stream_chat\<close> on it. The concurrent drivers \<open>run_traffic\<close> and
  \<open>run_session_traffic\<close> are a pool of tasks under a semaphore: a task is the list of updates
  it will still make to the shared result, and the inductive relation \<open>pool_step\<close> interleaves the
  tasks in any order the event loop may choose.
\<close>

section \<open>Results\<close>

record BenchmarkResult =
  b_ttfts :: "pyfloat list"
  b_e2e :: "pyfloat list"
  b_successes :: int
  b_errors :: int
  b_reasons :: "(string, int) pydict"

definition new_benchmark_result :: BenchmarkResult where
  "new_benchmark_result =
     \<lparr>b_ttfts = [], b_e2e = [], b_successes = 0, b_errors = 0, b_reasons = []\<rparr>"

definition reason_count :: "BenchmarkResult \<Rightarrow> string \<Rightarrow> int" where
  "reason_count r reason = (case d_get (b_reasons r) reason of None \<Rightarrow> 0 | Some n \<Rightarrow> n)"

definition record_error :: "string \<Rightarrow> BenchmarkResult \<Rightarrow> BenchmarkResult" where
  "record_error reason r =
     r\<lparr>b_errors := b_errors r + 1,
       b_reasons := d_set reason (reason_count r reason + 1) (b_reasons r)\<rparr>"

text \<open>\<open>Counter.most_common()\<close>: by decreasing count, ties in insertion order\<close>

definition most_common :: "(string, int) pydict \<Rightarrow> (string, int) pydict" where
  "most_common d = py_sort (\<lambda>a b. snd b < snd a) d"

definition error_summary :: "BenchmarkResult \<Rightarrow> string" where
  "error_summary r =
     join_with '', '' (map (\<lambda>(reason, n). str_int n @ ''x '' @ reason) (most_common (b_reasons r)))"

section \<open>One request\<close>

definition ROUTE_HEADER :: string where "ROUTE_HEADER = ''x-llmd-route''"
definition KV_CACHE_PRIORITY_HEADER :: string where "KV_CACHE_PRIORITY_HEADER = ''x-kv-cache-priority''"
definition SESSION_HEADER :: string where "SESSION_HEADER = ''x-session-id''"

record chat_payload =
  cp_model :: string
  cp_messages :: "message list"
  cp_stream :: bool
  cp_max_tokens :: int

definition payload :: "message list \<Rightarrow> int \<Rightarrow> chat_payload" where
  "payload messages max_tokens =
     \<lparr>cp_model = ''Qwen/Qwen2-0.5B'', cp_messages = messages, cp_stream = True, cp_max_tokens = max_tokens\<rparr>"

definition request_headers ::
    "string \<Rightarrow> string option \<Rightarrow> int option \<Rightarrow> (string, string) pydict" where
  "request_headers route kv_priority session_id =
     (let h0 = [(ROUTE_HEADER, route)];
          h1 = (case kv_priority of None \<Rightarrow> h0 | Some p \<Rightarrow> d_set KV_CACHE_PRIORITY_HEADER p h0)
      in case session_id of None \<Rightarrow> h1 | Some s \<Rightarrow> d_set SESSION_HEADER (str_int s) h1)"

text \<open>The messages of a single-shot request\<close>

definition SINGLE_SHOT_PROMPTS :: "string list" where
  "SINGLE_SHOT_PROMPTS =
     [''Write a short poem about the ocean.'', ''Explain quantum computing in simple terms.'',
      ''Translate 'hello world' to French and Spanish.'', ''What is the capital of Japan?'',
      ''Write a Python script to reverse a string.'']"

definition request_messages :: "'r random_lib \<Rightarrow> 'r \<Rightarrow> (message list \<times> 'r) res" where
  "request_messages L r =
     rbind (rng_choice L SINGLE_SHOT_PROMPTS r) (\<lambda>(prompt, r').
       Inr ([plain_message ''system'' SYSTEM_PROMPT, plain_message ''user'' prompt], r'))"

text \<open>\<open>aiohttp.ClientPayloadError\<close>, any other \<open>aiohttp.ClientError\<close> with its class name, and an
  exception \<open>_stream_chat\<close> does not catch\<close>

datatype failure = Payload_Error | Client_Error string | Escaping string

datatype exchange =
    Failed failure
  | Response int "(string \<times> pyfloat) list" "pyfloat + failure"

definition http_reason :: "int \<Rightarrow> string" where
  "http_reason status = (if status = 503 then ''load shed (503)'' else ''http '' @ str_int status)"

definition failure_reason :: "failure \<Rightarrow> string option" where
  "failure_reason f =
     (case f of
        Payload_Error \<Rightarrow> Some ''load shed (stream reset)''
      | Client_Error name \<Rightarrow> Some (''transport ('' @ name @ '')'')
      | Escaping e \<Rightarrow> None)"

text \<open>The outcome: the result, and the exception that escaped if one did\<close>

definition fail_with :: "failure \<Rightarrow> BenchmarkResult \<Rightarrow> BenchmarkResult \<times> failure option" where
  "fail_with f r =
     (case failure_reason f of Some reason \<Rightarrow> (record_error reason r, None) | None \<Rightarrow> (r, Some f))"

definition error_marker :: string where
  "error_marker = ''data: {'' @ [CHR 0x22] @ ''error'' @ [CHR 0x22]"

text \<open>The loop over the lines of the body; the flag says that it returned from the function\<close>

fun stream_body ::
    "pyfloat \<Rightarrow> (string \<times> pyfloat) list \<Rightarrow> pyfloat option \<Rightarrow> BenchmarkResult \<Rightarrow> BenchmarkResult \<times> bool" where
  "stream_body start [] ttft r = (r, False)"
| "stream_body start ((line, now) # ls) ttft r =
     (if starts_with error_marker line then (record_error ''in-stream error'' r, True)
      else if line \<noteq> [] \<and> ttft = None
      then stream_body start ls (Some (now - start)) (r\<lparr>b_ttfts := b_ttfts r @ [now - start]\<rparr>)
      else stream_body start ls ttft r)"

definition stream_chat ::
    "pyfloat \<Rightarrow> exchange \<Rightarrow> BenchmarkResult \<Rightarrow> BenchmarkResult \<times> failure option" where
  "stream_chat start ex r =
     (case ex of
        Failed f \<Rightarrow> fail_with f r
      | Response status lines fin \<Rightarrow>
          if status \<noteq> 200 then (record_error (http_reason status) r, None)
          else (case stream_body start lines None r of (r1, returned) \<Rightarrow>
            if returned then (r1, None)
            else (case fin of
                Inl now \<Rightarrow> (r1\<lparr>b_e2e := b_e2e r1 @ [now - start], b_successes := b_successes r1 + 1\<rparr>, None)
              | Inr f \<Rightarrow> fail_with f r1)))"

section \<open>Its updates of the shared result\<close>

datatype update = Add_Ttft pyfloat | Add_Success pyfloat | Add_Error string

fun apply_update :: "update \<Rightarrow> BenchmarkResult \<Rightarrow> BenchmarkResult" where
  "apply_update (Add_Ttft x) r = r\<lparr>b_ttfts := b_ttfts r @ [x]\<rparr>"
| "apply_update (Add_Success x) r = r\<lparr>b_e2e := b_e2e r @ [x], b_successes := b_successes r + 1\<rparr>"
| "apply_update (Add_Error reason) r = record_error reason r"

fun body_updates :: "pyfloat \<Rightarrow> (string \<times> pyfloat) list \<Rightarrow> pyfloat option \<Rightarrow> update list \<times> bool" where
  "body_updates start [] ttft = ([], False)"
| "body_updates start ((line, now) # ls) ttft =
     (if starts_with error_marker line then ([Add_Error ''in-stream error''], True)
      else if line \<noteq> [] \<and> ttft = None
      then (case body_updates start ls (Some (now - start)) of (us, b) \<Rightarrow> (Add_Ttft (now - start) # us, b))
      else body_updates start ls ttft)"

definition failure_updates :: "failure \<Rightarrow> update list \<times> failure option" where
  "failure_updates f =
     (case failure_reason f of Some reason \<Rightarrow> ([Add_Error reason], None) | None \<Rightarrow> ([], Some f))"

definition chat_updates :: "pyfloat \<Rightarrow> exchange \<Rightarrow> update list \<times> failure option" where
  "chat_updates start ex =
     (case ex of
        Failed f \<Rightarrow> failure_updates f
      | Response status lines fin \<Rightarrow>
          if status \<noteq> 200 then ([Add_Error (http_reason status)], None)
          else (case body_updates start lines None of (us, returned) \<Rightarrow>
            if returned then (us, None)
            else (case fin of
                Inl now \<Rightarrow> (us @ [Add_Success (now - start)], None)
              | Inr f \<Rightarrow> (case failure_updates f of (us', e) \<Rightarrow> (us @ us', e)))))"

lemma stream_body_updates:
  "stream_body start ls ttft r =
     (fold apply_update (fst (body_updates start ls ttft)) r, snd (body_updates start ls ttft))"
  by (induction start ls ttft r rule: stream_body.induct) (auto split: prod.splits)

lemma fail_with_updates:
  "fail_with f r = (fold apply_update (fst (failure_updates f)) r, snd (failure_updates f))"
  by (simp add: fail_with_def failure_updates_def split: option.splits)

lemma stream_chat_updates:
  "stream_chat start ex r = (fold apply_update (fst (chat_updates start ex)) r, snd (chat_updates start ex))"
  by (auto simp: stream_chat_def chat_updates_def fail_with_updates stream_body_updates
      split: exchange.splits prod.splits sum.splits)

section \<open>Sessions\<close>

text \<open>\<open>by_session[req.session_id].append(req)\<close>\<close>

definition add_to_session ::
    "TurnRequest \<Rightarrow> (int, TurnRequest list) pydict \<Rightarrow> (int, TurnRequest list) pydict" where
  "add_to_session req d =
     d_set (r_session_id req) ((case d_get d (r_session_id req) of None \<Rightarrow> [] | Some ts \<Rightarrow> ts) @ [req]) d"

definition turn_less :: "TurnRequest \<Rightarrow> TurnRequest \<Rightarrow> bool" where
  "turn_less a b \<longleftrightarrow> r_turn_idx a < r_turn_idx b"

definition group_sessions :: "TurnRequest list \<Rightarrow> (int, TurnRequest list) pydict" where
  "group_sessions requests =
     map (\<lambda>(sid, ts). (sid, py_sort turn_less ts)) (fold add_to_session requests [])"

text \<open>\<open>(turn.arrival - base) - (time.monotonic() - start)\<close>, and \<open>start + i / qps - time.monotonic()\<close>:
  the sleep before a turn of a session and before request \<open>i\<close> of an open-loop run\<close>

definition turn_delay :: "pyfloat \<Rightarrow> pyfloat \<Rightarrow> pyfloat \<Rightarrow> pyfloat \<Rightarrow> pyfloat" where
  "turn_delay base start now arrival = (arrival - base) - (now - start)"

definition request_delay :: "pyfloat \<Rightarrow> pyfloat \<Rightarrow> int \<Rightarrow> pyfloat \<Rightarrow> pyfloat res" where
  "request_delay qps start i now =
     (if 0 < qps then rbind (float_of_int i) (\<lambda>n. rbind (fdiv n qps) (\<lambda>q. Inr ((start + q) - now)))
      else Inr 0)"

text \<open>\<open>run_one\<close> sends the turns of a session one after the other, each with the time it starts and what
  the gateway answers; an escaping exception ends it. A single-shot request is one turn.\<close>

fun run_one :: "(pyfloat \<times> exchange) list \<Rightarrow> BenchmarkResult \<Rightarrow> BenchmarkResult \<times> failure option" where
  "run_one [] r = (r, None)"
| "run_one ((start, ex) # turns) r =
     (case stream_chat start ex r of
        (r1, Some f) \<Rightarrow> (r1, Some f)
      | (r1, None) \<Rightarrow> run_one turns r1)"

fun session_updates :: "(pyfloat \<times> exchange) list \<Rightarrow> update list \<times> failure option" where
  "session_updates [] = ([], None)"
| "session_updates ((start, ex) # turns) =
     (case chat_updates start ex of
        (us, Some f) \<Rightarrow> (us, Some f)
      | (us, None) \<Rightarrow> (case session_updates turns of (us', e) \<Rightarrow> (us @ us', e)))"

lemma run_one_updates:
  "run_one turns r = (fold apply_update (fst (session_updates turns)) r, snd (session_updates turns))"
  by (induction turns r rule: run_one.induct)
    (simp_all add: stream_chat_updates split_beta split: option.splits prod.splits)

lemma session_updates_single: "session_updates [(start, ex)] = chat_updates start ex"
  by (simp split: prod.splits option.splits)

section \<open>The pool of tasks\<close>

text \<open>
  A task waits for its permit, then makes its updates one at a time, and gives the permit back when
  it ends, normally or with the exception that escaped it (\<open>finally: sem.release()\<close> in
  \<open>_bounded_request\<close>, \<open>async with sem\<close> in \<open>run_one\<close>).
\<close>

type_synonym activity = "update list \<times> failure option"

datatype task = Waiting | Active "update list" "failure option" | Released "failure option"

record pool =
  p_result :: BenchmarkResult
  p_permits :: int
  p_tasks :: "task list"

text \<open>\<open>asyncio.Semaphore(concurrency)\<close> refuses a negative value.\<close>

definition new_pool :: "int \<Rightarrow> nat \<Rightarrow> pool res" where
  "new_pool concurrency num =
     (if concurrency < 0 then Inl ValueError
      else Inr \<lparr>p_result = new_benchmark_result, p_permits = concurrency, p_tasks = replicate num Waiting\<rparr>)"

text \<open>
  \<open>acts i\<close> is what task \<open>i\<close> does. With \<open>ordered\<close>, as in \<open>run_traffic\<close>, permits are taken
  in the order of the requests; without it, as in \<open>run_session_traffic\<close>, in any order.
\<close>

inductive pool_step :: "bool \<Rightarrow> (nat \<Rightarrow> activity) \<Rightarrow> pool \<Rightarrow> pool \<Rightarrow> bool"
  for ordered :: bool and acts :: "nat \<Rightarrow> activity" where
  acquire: "\<lbrakk>i < length (p_tasks s); p_tasks s ! i = Waiting; 0 < p_permits s;
      ordered \<longrightarrow> (\<forall>j < i. p_tasks s ! j \<noteq> Waiting)\<rbrakk> \<Longrightarrow>
    pool_step ordered acts s
      (s\<lparr>p_permits := p_permits s - 1, p_tasks := (p_tasks s)[i := Active (fst (acts i)) (snd (acts i))]\<rparr>)"
| act: "\<lbrakk>i < length (p_tasks s); p_tasks s ! i = Active (u # us) e\<rbrakk> \<Longrightarrow>
    pool_step ordered acts s
      (s\<lparr>p_result := apply_update u (p_result s), p_tasks := (p_tasks s)[i := Active us e]\<rparr>)"
| release: "\<lbrakk>i < length (p_tasks s); p_tasks s ! i = Active [] e\<rbrakk> \<Longrightarrow>
    pool_step ordered acts s (s\<lparr>p_permits := p_permits s + 1, p_tasks := (p_tasks s)[i := Released e]\<rparr>)"

inductive_cases pool_stepE: "pool_step ordered acts s s'"

inductive reachable :: "bool \<Rightarrow> (nat \<Rightarrow> activity) \<Rightarrow> pool \<Rightarrow> pool \<Rightarrow> bool"
  for ordered :: bool and acts :: "nat \<Rightarrow> activity" and s0 :: pool where
  initial: "reachable ordered acts s0 s0"
| step: "reachable ordered acts s0 s \<Longrightarrow> pool_step ordered acts s s' \<Longrightarrow> reachable ordered acts s0 s'"

text \<open>
  How a run ends. \<open>asyncio.gather\<close> returns when every task has ended normally, and re-raises the
  exception of a task that failed without waiting for the others; \<open>run_traffic\<close> calls it once every
  request has its permit, \<open>run_session_traffic\<close> from the start.
\<close>

inductive run_ends :: "bool \<Rightarrow> pool \<Rightarrow> failure + BenchmarkResult \<Rightarrow> bool"
  for ordered :: bool and s :: pool where
  gathered: "list_all (\<lambda>t. t = Released None) (p_tasks s) \<Longrightarrow> run_ends ordered s (Inr (p_result s))"
| reraised: "\<lbrakk>Released (Some f) \<in> set (p_tasks s); ordered \<longrightarrow> Waiting \<notin> set (p_tasks s)\<rbrakk> \<Longrightarrow>
    run_ends ordered s (Inl f)"

inductive_simps run_ends_iff: "run_ends ordered s (Inr r)" "run_ends ordered s (Inl f)"

datatype run_failure = Refused py_error | Escaped failure

inductive pool_run ::
    "bool \<Rightarrow> int \<Rightarrow> nat \<Rightarrow> (nat \<Rightarrow> activity) \<Rightarrow> run_failure + BenchmarkResult \<Rightarrow> bool"
  for ordered :: bool and concurrency :: int and num :: nat and acts :: "nat \<Rightarrow> activity" where
  refused: "new_pool concurrency num = Inl e \<Longrightarrow> pool_run ordered concurrency num acts (Inl (Refused e))"
| raised: "\<lbrakk>new_pool concurrency num = Inr s0; reachable ordered acts s0 s; run_ends ordered s (Inl f)\<rbrakk> \<Longrightarrow>
    pool_run ordered concurrency num acts (Inl (Escaped f))"
| returned: "\<lbrakk>new_pool concurrency num = Inr s0; reachable ordered acts s0 s; run_ends ordered s (Inr r)\<rbrakk> \<Longrightarrow>
    pool_run ordered concurrency num acts (Inr r)"

inductive_cases pool_runE: "pool_run ordered concurrency num acts out"

section \<open>The drivers\<close>

text \<open>
  The outcomes a run may have when request \<open>i\<close> (or a turn of queue \<open>i\<close>) starts at the time and gets
  the answer that \<open>chats\<close> gives it.
\<close>

definition run_traffic ::
    "int \<Rightarrow> int \<Rightarrow> (nat \<Rightarrow> pyfloat \<times> exchange) \<Rightarrow> run_failure + BenchmarkResult \<Rightarrow> bool" where
  "run_traffic num_requests concurrency chats =
     pool_run True concurrency (nat num_requests) (\<lambda>i. chat_updates (fst (chats i)) (snd (chats i)))"

definition run_session_traffic ::
    "TurnRequest list \<Rightarrow> int \<Rightarrow> (nat \<Rightarrow> TurnRequest \<Rightarrow> pyfloat \<times> exchange) \<Rightarrow>
     run_failure + BenchmarkResult \<Rightarrow> bool" where
  "run_session_traffic requests concurrency chats =
     (let queues = map snd (group_sessions requests)
      in pool_run False concurrency (length queues) (\<lambda>i. session_updates (map (chats i) (queues ! i))))"

end
