(* ===== verification/Traffic_Runs.thy ===== *)
theory Traffic_Runs
  imports Traffic Generated
begin

text \<open>
  Properties of the live traffic drivers (\<open>src/bench/traffic.py\<close>): what one request adds to the
  result, the semaphore's bound, completion, independence of the interleaving, and the order in
  which sessions are replayed.
\<close>

section \<open>What a list of updates adds\<close>

fun is_ttft :: "update \<Rightarrow> bool" where
  "is_ttft (Add_Ttft x) = True"
| "is_ttft _ = False"

fun is_success :: "update \<Rightarrow> bool" where
  "is_success (Add_Success x) = True"
| "is_success _ = False"

fun is_error :: "update \<Rightarrow> bool" where
  "is_error (Add_Error reason) = True"
| "is_error _ = False"

fun update_time :: "update \<Rightarrow> pyfloat" where
  "update_time (Add_Ttft x) = x"
| "update_time (Add_Success x) = x"
| "update_time (Add_Error reason) = 0"

definition count_if :: "('a \<Rightarrow> bool) \<Rightarrow> 'a list \<Rightarrow> int" where
  "count_if P xs = int (length (filter P xs))"

lemma count_if_simps [simp]:
  "count_if P [] = 0" "count_if P (x # xs) = (if P x then 1 else 0) + count_if P xs"
  "count_if P (xs @ ys) = count_if P xs + count_if P ys"
  by (simp_all add: count_if_def)

lemma count_if_nonneg [simp]: "0 \<le> count_if P xs"
  by (simp add: count_if_def)

lemma count_if_mset: "mset xs = mset ys \<Longrightarrow> count_if P xs = count_if P ys"
  unfolding count_if_def by (metis mset_filter size_mset)

lemma reason_count_record [simp]:
  "reason_count (record_error e r) k = reason_count r k + (if e = k then 1 else 0)"
  by (simp add: reason_count_def record_error_def d_get_set)

lemma reason_count_frame [simp]:
  "reason_count (r\<lparr>b_ttfts := x\<rparr>) = reason_count r"
  "reason_count (r\<lparr>b_e2e := x, b_successes := y\<rparr>) = reason_count r"
  by (simp_all add: reason_count_def fun_eq_iff)

lemma fold_updates:
  "b_ttfts (fold apply_update us r) = b_ttfts r @ map update_time (filter is_ttft us)"
  "b_e2e (fold apply_update us r) = b_e2e r @ map update_time (filter is_success us)"
  "b_successes (fold apply_update us r) = b_successes r + count_if is_success us"
  "b_errors (fold apply_update us r) = b_errors r + count_if is_error us"
  "reason_count (fold apply_update us r) k = reason_count r k + count_if (\<lambda>u. u = Add_Error k) us"
proof (induction us arbitrary: r)
  case (Cons u us)
  { case 1 then show ?case by (cases u) (simp_all add: Cons record_error_def) }
  { case 2 then show ?case by (cases u) (simp_all add: Cons record_error_def) }
  { case 3 then show ?case by (cases u) (simp_all add: Cons record_error_def) }
  { case 4 then show ?case by (cases u) (simp_all add: Cons record_error_def) }
  { case 5 then show ?case by (cases u) (simp_all add: Cons) }
qed simp_all

text \<open>Two results that agree up to the order in which their entries were added\<close>

definition same_result :: "BenchmarkResult \<Rightarrow> BenchmarkResult \<Rightarrow> bool" where
  "same_result a b \<longleftrightarrow>
     mset (b_ttfts a) = mset (b_ttfts b) \<and> mset (b_e2e a) = mset (b_e2e b) \<and>
     b_successes a = b_successes b \<and> b_errors a = b_errors b \<and> reason_count a = reason_count b"

lemma same_resultI:
  assumes "mset us = mset vs"
  shows "same_result (fold apply_update us r) (fold apply_update vs r)"
proof -
  have "mset (filter P us) = mset (filter P vs)" for P using assms by (simp add: mset_filter)
  then show ?thesis
    unfolding same_result_def fun_eq_iff fold_updates mset_append mset_map
    using count_if_mset [OF assms] by simp
qed

section \<open>One request\<close>

lemma body_updates_shape:
  "\<lbrakk>body_updates start ls ttft = (us, b)\<rbrakk> \<Longrightarrow>
     count_if is_success us = 0 \<and> count_if is_error us = (if b then 1 else 0) \<and>
     count_if is_ttft us \<le> (if ttft = None then 1 else 0)"
  by (induction start ls ttft arbitrary: us b rule: body_updates.induct)
    (fastforce split: if_splits prod.splits)+

lemma failure_updates_shape:
  "failure_updates f = (us, e) \<Longrightarrow>
     count_if is_success us = 0 \<and> count_if is_error us = (if e = None then 1 else 0) \<and> count_if is_ttft us = 0"
  by (auto simp: failure_updates_def split: option.splits)

lemma chat_updates_shape:
  assumes "chat_updates start ex = (us, e)"
  shows "count_if is_success us + count_if is_error us = (if e = None then 1 else 0)" "count_if is_ttft us \<le> 1"
proof -
  have "count_if is_success us + count_if is_error us = (if e = None then 1 else 0) \<and> count_if is_ttft us \<le> 1"
  proof (cases ex)
    case (Failed f)
    then show ?thesis using assms failure_updates_shape [of f us e] by (simp add: chat_updates_def)
  next
    case (Response status ls fin)
    obtain vs b where b: "body_updates start ls None = (vs, b)" by (cases "body_updates start ls None")
    note v = body_updates_shape [OF b]
    consider "status \<noteq> 200" | "status = 200" "b" | "status = 200" "\<not> b" by blast
    then show ?thesis
    proof cases
      case 1
      then show ?thesis using assms Response by (auto simp: chat_updates_def)
    next
      case 2
      then show ?thesis using assms Response b v by (auto simp: chat_updates_def)
    next
      case 3
      then show ?thesis using assms Response b v
        by (cases fin) (auto simp: chat_updates_def split: prod.splits dest!: failure_updates_shape)
    qed
  qed
  then show "count_if is_success us + count_if is_error us = (if e = None then 1 else 0)" "count_if is_ttft us \<le> 1"
    by simp_all
qed

section \<open>Replaying sessions\<close>

interpretation turn_sorter: stable_sorter UNIV turn_less "py_sort turn_less"
  by (rule stable_sorterI) (auto simp: weak_order_on_def turn_less_def)

interpretation tally: stable_sorter UNIV "\<lambda>a b :: string \<times> int. snd b < snd a" most_common
proof -
  have "most_common = py_sort (\<lambda>a b. snd b < snd a)" by (simp add: fun_eq_iff most_common_def)
  then show "stable_sorter UNIV (\<lambda>a b :: string \<times> int. snd b < snd a) most_common"
    using stable_sorterI [of UNIV "\<lambda>a b :: string \<times> int. snd b < snd a"] by (simp add: weak_order_on_def)
qed

lemma d_get_grouped:
  "d_get (fold add_to_session reqs d) sid =
     (let new = filter (\<lambda>r. r_session_id r = sid) reqs in
      case d_get d sid of None \<Rightarrow> if new = [] then None else Some new | Some ts \<Rightarrow> Some (ts @ new))"
proof (induction reqs arbitrary: d)
  case (Cons r reqs)
  then show ?case by (auto simp: add_to_session_def d_get_set Let_def split: option.splits)
qed (simp split: option.splits)

lemma d_get_map_values: "d_get (map (\<lambda>(k, v). (k, f v)) d) k = map_option f (d_get d k)"
  by (induction d) (auto simp: d_get_def)

lemma group_sessions_get:
  "d_get (group_sessions reqs) sid =
     (let ts = filter (\<lambda>r. r_session_id r = sid) reqs in if ts = [] then None else Some (py_sort turn_less ts))"
  by (simp add: group_sessions_def d_get_map_values d_get_grouped Let_def)

text \<open>\<open>run_session_traffic\<close> sends every request of the stream in the queue of its session, and every
  session's queue in turn order: for each session id the queue is a permutation of the session's
  requests, sorted by turn (stably), and there are no other queues.\<close>

lemma sessions_grouped:
  "case d_get (group_sessions reqs) sid of
     None \<Rightarrow> filter (\<lambda>r. r_session_id r = sid) reqs = []
   | Some ts \<Rightarrow> ts \<noteq> [] \<and> mset ts = filter_mset (\<lambda>r. r_session_id r = sid) (mset reqs) \<and>
       sorted_by turn_less ts \<and>
       (\<forall>k. filter (\<lambda>r. r_turn_idx r = k) ts = filter (\<lambda>r. r_session_id r = sid \<and> r_turn_idx r = k) reqs)"
proof -
  let ?ts = "filter (\<lambda>r. r_session_id r = sid) reqs"
  have "sorted_by turn_less (filter (\<lambda>r. r_turn_idx r = k) ?ts)" for k
    by (induction reqs) (auto simp: turn_less_def)
  then have "filter (\<lambda>r. r_turn_idx r = k) (py_sort turn_less ?ts) = filter (\<lambda>r. r_turn_idx r = k) ?ts" for k
    by (intro turn_sorter.stable) simp_all
  then have k: "filter (\<lambda>r. r_turn_idx r = k) (py_sort turn_less ?ts) =
      filter (\<lambda>r. r_session_id r = sid \<and> r_turn_idx r = k) reqs" for k
    by (simp add: conj_commute)
  show ?thesis
  proof (cases "?ts = []")
    case True
    then show ?thesis by (simp add: group_sessions_get)
  next
    case False
    then have "py_sort turn_less ?ts \<noteq> []" by (metis length_0_conv length_py_sort)
    then show ?thesis using False k turn_sorter.sorts [of ?ts] by (simp add: group_sessions_get)
  qed
qed

section \<open>The pool's invariant\<close>

definition in_flight :: "pool \<Rightarrow> int" where
  "in_flight s = count_if (\<lambda>t. case t of Active us e \<Rightarrow> True | _ \<Rightarrow> False) (p_tasks s)"

definition in_turn :: "task list \<Rightarrow> bool" where
  "in_turn ts \<longleftrightarrow> (\<forall>i j. i < j \<longrightarrow> j < length ts \<longrightarrow> ts ! i = Waiting \<longrightarrow> ts ! j = Waiting)"

definition pending :: "(nat \<Rightarrow> activity) \<Rightarrow> nat \<Rightarrow> task \<Rightarrow> update list" where
  "pending acts i t = (case t of Waiting \<Rightarrow> fst (acts i) | Active us e \<Rightarrow> us | Released e \<Rightarrow> [])"

text \<open>A task that has started ends with the exception of its activity, if it has one.\<close>

definition faithful :: "(nat \<Rightarrow> activity) \<Rightarrow> nat \<Rightarrow> task \<Rightarrow> bool" where
  "faithful acts i t =
     (case t of Waiting \<Rightarrow> True | Active us e \<Rightarrow> e = snd (acts i) | Released e \<Rightarrow> e = snd (acts i))"

definition to_do :: "(nat \<Rightarrow> activity) \<Rightarrow> task list \<Rightarrow> update multiset" where
  "to_do acts ts = (\<Sum>i < length ts. mset (pending acts i (ts ! i)))"

definition pool_inv :: "bool \<Rightarrow> (nat \<Rightarrow> activity) \<Rightarrow> int \<Rightarrow> nat \<Rightarrow> pool \<Rightarrow> bool" where
  "pool_inv ordered acts c num s \<longleftrightarrow>
     length (p_tasks s) = num \<and> 0 \<le> p_permits s \<and> p_permits s + in_flight s = c \<and>
     (ordered \<longrightarrow> in_turn (p_tasks s)) \<and> (\<forall>i < num. faithful acts i (p_tasks s ! i)) \<and>
     (\<exists>us. p_result s = fold apply_update us new_benchmark_result \<and>
        mset us + to_do acts (p_tasks s) = (\<Sum>i < num. mset (fst (acts i))))"

lemma to_do_update:
  assumes "i < length ts"
  shows "to_do acts (ts[i := t]) + mset (pending acts i (ts ! i)) = to_do acts ts + mset (pending acts i t)"
proof -
  have "to_do acts (ts[i := t]) = mset (pending acts i t) + (\<Sum>j \<in> {..<length ts} - {i}. mset (pending acts j (ts ! j)))"
    using assms unfolding to_do_def by (subst sum.remove [of _ i]) (auto intro!: sum.cong)
  moreover have "to_do acts ts = mset (pending acts i (ts ! i)) + (\<Sum>j \<in> {..<length ts} - {i}. mset (pending acts j (ts ! j)))"
    using assms unfolding to_do_def by (subst sum.remove [of _ i]) auto
  ultimately show ?thesis by simp
qed

lemma count_if_update:
  "i < length ts \<Longrightarrow>
     count_if P (ts[i := t]) = count_if P ts - (if P (ts ! i) then 1 else 0) + (if P t then 1 else 0)"
proof (induction ts arbitrary: i)
  case (Cons x xs)
  then show ?case by (cases i) auto
qed simp

lemma faithful_update:
  assumes "\<forall>i < num. faithful acts i (ts ! i)" "length ts = num" "faithful acts k t"
  shows "\<forall>i < num. faithful acts i (ts[k := t] ! i)"
proof (intro allI impI)
  fix i assume "i < num"
  then show "faithful acts i (ts[k := t] ! i)" using assms by (cases "i = k") simp_all
qed

lemma new_pool_inv:
  assumes "new_pool c num = Inr s"
  shows "pool_inv ordered acts c num s"
proof -
  from assms have s: "0 \<le> c" "s = \<lparr>p_result = new_benchmark_result, p_permits = c, p_tasks = replicate num Waiting\<rparr>"
    by (auto simp: new_pool_def split: if_splits)
  have "count_if P (replicate n x) = (if P x then int n else 0)" for P n and x :: task
    by (simp add: count_if_def)
  then show ?thesis using s(1)
    by (auto simp: s(2) pool_inv_def in_flight_def in_turn_def to_do_def pending_def faithful_def
        intro!: exI [of _ "[]"])
qed

lemma pool_step_inv:
  assumes "pool_inv ordered acts c num s" "pool_step ordered acts s s'"
  shows "pool_inv ordered acts c num s'"
proof -
  obtain us where us: "length (p_tasks s) = num" "0 \<le> p_permits s" "p_permits s + in_flight s = c"
      "ordered \<longrightarrow> in_turn (p_tasks s)" "\<forall>i < num. faithful acts i (p_tasks s ! i)"
      "p_result s = fold apply_update us new_benchmark_result"
      "mset us + to_do acts (p_tasks s) = (\<Sum>i < num. mset (fst (acts i)))"
    using assms(1) by (auto simp: pool_inv_def)
  show ?thesis
    using assms(2)
  proof (cases rule: pool_step.cases)
    case (acquire i)
    let ?t = "Active (fst (acts i)) (snd (acts i))"
    have "to_do acts (p_tasks s') = to_do acts (p_tasks s)" "in_flight s' = in_flight s + 1"
      using acquire to_do_update [of i "p_tasks s" acts ?t]
      by (simp_all add: pending_def in_flight_def count_if_update)
    moreover have "ordered \<longrightarrow> in_turn (p_tasks s')"
      using acquire us(4) by (auto simp: in_turn_def nth_list_update)
    moreover have "\<forall>j < num. faithful acts j (p_tasks s' ! j)"
      using faithful_update [OF us(5,1), of i ?t] acquire by (simp add: faithful_def)
    ultimately show ?thesis using acquire us by (auto simp: pool_inv_def)
  next
    case (act i u vs e)
    then have "to_do acts (p_tasks s') + {#u#} = to_do acts (p_tasks s)" "in_flight s' = in_flight s"
      using to_do_update [of i "p_tasks s" acts "Active vs e"]
      by (simp_all add: pending_def in_flight_def count_if_update)
    moreover have "ordered \<longrightarrow> in_turn (p_tasks s')"
      using act us(4) by (auto simp: in_turn_def nth_list_update)
    moreover have "mset (us @ [u]) + to_do acts (p_tasks s') = (\<Sum>i < num. mset (fst (acts i)))"
      using us(7) calculation(1) [symmetric] by simp
    moreover have "p_result s' = fold apply_update (us @ [u]) new_benchmark_result" using act us(6) by simp
    moreover have "faithful acts i (Active vs e)" using us(1,5) act by (auto simp: faithful_def dest!: spec [of _ i])
    then have "\<forall>j < num. faithful acts j (p_tasks s' ! j)"
      using faithful_update [OF us(5,1), of i "Active vs e"] act by simp
    ultimately show ?thesis using act us(1-3)
      by (auto simp: pool_inv_def intro!: exI [of _ "us @ [u]"])
  next
    case (release i e)
    then have "to_do acts (p_tasks s') = to_do acts (p_tasks s)" "in_flight s' = in_flight s - 1"
      using to_do_update [of i "p_tasks s" acts "Released e"]
      by (simp_all add: pending_def in_flight_def count_if_update)
    moreover have "ordered \<longrightarrow> in_turn (p_tasks s')"
      using release us(4) by (auto simp: in_turn_def nth_list_update)
    moreover have "faithful acts i (Released e)" using us(1,5) release by (auto simp: faithful_def dest!: spec [of _ i])
    then have "\<forall>j < num. faithful acts j (p_tasks s' ! j)"
      using faithful_update [OF us(5,1), of i "Released e"] release by simp
    ultimately show ?thesis using release us by (auto simp: pool_inv_def)
  qed
qed

lemma reachable_inv:
  assumes "new_pool c num = Inr s0" "reachable ordered acts s0 s"
  shows "pool_inv ordered acts c num s"
  using assms(2) by (induction rule: reachable.induct) (auto intro: new_pool_inv [OF assms(1)] pool_step_inv)

lemma reachable_faithful:
  assumes "new_pool c num = Inr s0" "reachable ordered acts s0 s" "i < num"
  shows "faithful acts i (p_tasks s ! i)" "length (p_tasks s) = num"
  using reachable_inv [OF assms(1,2)] assms(3) by (simp_all add: pool_inv_def)

section \<open>How runs end\<close>

lemma returned_updates:
  assumes "pool_run ordered c num acts (Inr r)"
  obtains us where "r = fold apply_update us new_benchmark_result"
    "mset us = mset (concat (map (\<lambda>i. fst (acts i)) [0..<num]))" "\<And>i. i < num \<Longrightarrow> snd (acts i) = None" "0 \<le> c"
proof -
  from assms obtain s0 s where s: "new_pool c num = Inr s0" "reachable ordered acts s0 s"
      "list_all (\<lambda>t. t = Released None) (p_tasks s)" "r = p_result s"
    by (auto elim!: pool_runE simp: run_ends_iff)
  have mset_upt: "mset (concat (map f [0..<num])) = (\<Sum>i < num. mset (f i))" for f :: "nat \<Rightarrow> update list"
    by (induction num) (simp_all add: add.commute)
  have "to_do acts (p_tasks s) = {#}" using s(3) by (simp add: to_do_def pending_def list_all_length)
  then obtain us where "p_result s = fold apply_update us new_benchmark_result"
      "mset us = (\<Sum>i < num. mset (fst (acts i)))"
    using reachable_inv [OF s(1,2)] by (auto simp: pool_inv_def)
  moreover have "snd (acts i) = None" if "i < num" for i
    using reachable_faithful [OF s(1,2) that] s(3) that by (auto simp: faithful_def list_all_length)
  moreover have "0 \<le> c" using s(1) by (auto simp: new_pool_def split: if_splits)
  ultimately show thesis using that s(4) mset_upt by metis
qed

lemma raised_source:
  assumes "pool_run ordered c num acts (Inl (Escaped f))"
  obtains i where "i < num" "snd (acts i) = Some f" "0 \<le> c"
proof -
  from assms obtain s0 s where s: "new_pool c num = Inr s0" "reachable ordered acts s0 s"
      "Released (Some f) \<in> set (p_tasks s)"
    by (auto elim!: pool_runE simp: run_ends_iff)
  then obtain i where i: "i < length (p_tasks s)" "p_tasks s ! i = Released (Some f)"
    by (auto simp: in_set_conv_nth)
  have len: "length (p_tasks s) = num" using reachable_inv [OF s(1,2)] by (simp add: pool_inv_def)
  have "0 \<le> c" using s(1) by (auto simp: new_pool_def split: if_splits)
  then show thesis using that reachable_faithful(1) [OF s(1,2), of i] i len by (auto simp: faithful_def)
qed

definition task_work :: "(nat \<Rightarrow> activity) \<Rightarrow> nat \<Rightarrow> task \<Rightarrow> nat" where
  "task_work acts i t =
     (case t of Waiting \<Rightarrow> length (fst (acts i)) + 2 | Active us e \<Rightarrow> length us + 1 | Released e \<Rightarrow> 0)"

definition work :: "(nat \<Rightarrow> activity) \<Rightarrow> pool \<Rightarrow> nat" where
  "work acts s = (\<Sum>i < length (p_tasks s). task_work acts i (p_tasks s ! i))"

lemma work_update:
  assumes "i < length ts" "task_work acts i t < task_work acts i (ts ! i)"
  shows "(\<Sum>j < length ts. task_work acts j (ts[i := t] ! j)) < (\<Sum>j < length ts. task_work acts j (ts ! j))"
  using assms by (intro sum_strict_mono_ex1) (auto simp: nth_list_update)

lemma task_work_simps [simp]:
  "task_work acts i Waiting = length (fst (acts i)) + 2" "task_work acts i (Active us e) = length us + 1"
  "task_work acts i (Released e) = 0"
  by (simp_all add: task_work_def)

lemma pool_step_work: "pool_step ordered acts s s' \<Longrightarrow> work acts s' < work acts s"
proof (erule pool_stepE, goal_cases)
  case (1 i)
  with work_update [of i "p_tasks s" acts "Active (fst (acts i)) (snd (acts i))"] show ?case by (simp add: work_def)
next
  case (2 i u us e)
  with work_update [of i "p_tasks s" acts "Active us e"] show ?case by (simp add: work_def)
next
  case (3 i e)
  with work_update [of i "p_tasks s" acts "Released e"] show ?case by (simp add: work_def)
qed

lemma pool_progress:
  assumes "pool_inv ordered acts c num s" "0 < c" "\<nexists>out. run_ends ordered s out"
  shows "\<exists>s'. pool_step ordered acts s s'"
proof (cases "\<exists>i us e. i < length (p_tasks s) \<and> p_tasks s ! i = Active us e")
  case True
  then obtain i us e where "i < length (p_tasks s)" "p_tasks s ! i = Active us e" by blast
  then show ?thesis by (cases us) (auto intro: pool_step.intros)
next
  case False
  then have idle: "p_tasks s ! i = Waiting \<or> (\<exists>e. p_tasks s ! i = Released e)" if "i < length (p_tasks s)" for i
    using that by (cases "p_tasks s ! i") auto
  then have "filter (\<lambda>t. case t of Active us e \<Rightarrow> True | _ \<Rightarrow> False) (p_tasks s) = []"
    unfolding filter_empty_conv by (fastforce simp: in_set_conv_nth split: task.splits)
  then have permits: "0 < p_permits s"
    using assms(1,2) by (simp add: pool_inv_def in_flight_def count_if_def)
  have "\<exists>k. k < length (p_tasks s) \<and> p_tasks s ! k = Waiting"
  proof (rule ccontr)
    assume none: "\<nexists>k. k < length (p_tasks s) \<and> p_tasks s ! k = Waiting"
    then have "Waiting \<notin> set (p_tasks s)" by (auto simp: in_set_conv_nth)
    moreover have "\<not> list_all (\<lambda>t. t = Released None) (p_tasks s)" using assms(3) gathered by blast
    then obtain k where k: "k < length (p_tasks s)" "p_tasks s ! k \<noteq> Released None" by (auto simp: list_all_length)
    then obtain f where "p_tasks s ! k = Released (Some f)" using idle [OF k(1)] none by auto
    then have "Released (Some f) \<in> set (p_tasks s)" using k(1) by (metis nth_mem)
    ultimately show False using assms(3) reraised by blast
  qed
  then obtain k where k: "k < length (p_tasks s) \<and> p_tasks s ! k = Waiting" ..
  let ?P = "\<lambda>i. i < length (p_tasks s) \<and> p_tasks s ! i = Waiting"
  obtain i where i: "?P i" "\<And>j. j < i \<Longrightarrow> \<not> ?P j"
    using exists_least_iff [THEN iffD1, of ?P] k by blast
  have "p_tasks s ! j \<noteq> Waiting" if "j < i" for j using i(2) [OF that] i(1) that by simp
  then show ?thesis using acquire [of i s ordered acts] i(1) permits by blast
qed

section \<open>Samples\<close>

text \<open>Every request succeeds at this server after one chunk.\<close>

definition demo_exchange :: exchange where
  "demo_exchange = Response 200 [(''data: x'', Fin 2)] (Inl (Fin 3))"

lemma demo_chat: "chat_updates (Fin 1) demo_exchange = ([Add_Ttft (Fin 1), Add_Success (Fin 2)], None)"
proof -
  have "Fin 2 - Fin 1 = Fin 1" "Fin 3 - Fin 1 = Fin 2"
    using rnd_of_int [of 1] rnd_of_int [of 2] by (simp_all add: minus_pyfloat_def)
  then show ?thesis by (simp add: chat_updates_def demo_exchange_def error_marker_def)
qed

lemma demo_pool: "new_pool 1 1 = Inr \<lparr>p_result = new_benchmark_result, p_permits = 1, p_tasks = [Waiting]\<rparr>"
  by (simp add: new_pool_def)

lemma active_task_ends:
  assumes "reachable ordered acts s0 s" "p_tasks s = [Active us e]"
  shows "\<exists>s'. reachable ordered acts s0 s' \<and> p_tasks s' = [Released e]"
  using assms
proof (induction us arbitrary: s)
  case Nil
  then have "pool_step ordered acts s (s\<lparr>p_permits := p_permits s + 1, p_tasks := (p_tasks s)[0 := Released e]\<rparr>)"
    by (intro release) simp_all
  from step [OF Nil.prems(1) this] show ?case using Nil.prems(2) by force
next
  case (Cons u us)
  then have "pool_step ordered acts s
      (s\<lparr>p_result := apply_update u (p_result s), p_tasks := (p_tasks s)[0 := Active us e]\<rparr>)"
    by (intro act) simp_all
  from Cons.IH [OF step [OF Cons.prems(1) this]] Cons.prems(2) show ?case by simp
qed

lemma single_task_run:
  "\<exists>s. reachable ordered acts \<lparr>p_result = new_benchmark_result, p_permits = 1, p_tasks = [Waiting]\<rparr> s \<and>
    p_tasks s = [Released (snd (acts 0))]"
proof -
  let ?s0 = "\<lparr>p_result = new_benchmark_result, p_permits = 1, p_tasks = [Waiting]\<rparr>"
  have "pool_step ordered acts ?s0
      (?s0\<lparr>p_permits := p_permits ?s0 - 1, p_tasks := (p_tasks ?s0)[0 := Active (fst (acts 0)) (snd (acts 0))]\<rparr>)"
    by (rule acquire) simp_all
  from active_task_ends [OF step [OF initial this]] show ?thesis by simp
qed

lemma demo_run_returns:
  assumes "snd (acts 0) = None"
  shows "\<exists>r. pool_run ordered 1 1 acts (Inr r)"
proof -
  obtain s where s: "reachable ordered acts \<lparr>p_result = new_benchmark_result, p_permits = 1, p_tasks = [Waiting]\<rparr> s"
      "p_tasks s = [Released None]" using single_task_run [of ordered acts] assms by auto
  from returned [OF demo_pool s(1) gathered] s(2) show ?thesis by auto
qed

lemma demo_run_raises:
  assumes "snd (acts 0) = Some f"
  shows "pool_run ordered 1 1 acts (Inl (Escaped f))"
proof -
  obtain s where s: "reachable ordered acts \<lparr>p_result = new_benchmark_result, p_permits = 1, p_tasks = [Waiting]\<rparr> s"
      "p_tasks s = [Released (Some f)]" using single_task_run [of ordered acts] assms by auto
  show ?thesis by (rule raised [OF demo_pool s(1) reraised]) (simp_all add: s(2))
qed

section \<open>Properties\<close>

text \<open>C28: the semaphore bounds the load: in every state a traffic run can reach, however its tasks are
  interleaved, at most \<open>concurrency\<close> requests (or sessions) are in flight and the free permits are
  exactly the rest; \<open>run_traffic\<close> starts its requests in order.\<close>

theorem concurrency_bounded:
  assumes "new_pool c num = Inr s0" and "reachable ordered acts s0 s"
  shows "in_flight s \<le> c \<and> p_permits s = c - in_flight s \<and> length (p_tasks s) = num \<and>
    (ordered \<longrightarrow> in_turn (p_tasks s))"
  using reachable_inv [OF assms] by (simp add: pool_inv_def)

theorem concurrency_bounded_witness:
  "\<exists>s. reachable True (\<lambda>i. chat_updates (Fin 1) demo_exchange)
       \<lparr>p_result = new_benchmark_result, p_permits = 1, p_tasks = [Waiting]\<rparr> s \<and>
     p_tasks s = [Released None] \<and> p_permits s = 1 - in_flight s"
proof -
  let ?acts = "\<lambda>i::nat. chat_updates (Fin 1) demo_exchange"
  obtain s where "reachable True ?acts \<lparr>p_result = new_benchmark_result, p_permits = 1, p_tasks = [Waiting]\<rparr> s"
      "p_tasks s = [Released None]" using single_task_run [of True ?acts] by (auto simp: demo_chat)
  with concurrency_bounded [OF demo_pool this(1)] show ?thesis by blast
qed

text \<open>C29: with at least one permit a traffic run always ends: every step brings it closer to the
  end, and a reachable state without a successor is one in which the run returns its result or raises
  an exception, so there is no deadlock and no run goes on for ever. With \<open>concurrency = 0\<close> nothing
  ever starts: a run with something to send waits for a permit for ever. A negative concurrency raises
  \<open>ValueError\<close>.\<close>

theorem traffic_completes:
  "case new_pool c num of
     Inl e \<Rightarrow> c < 0 \<and> e = ValueError
   | Inr s0 \<Rightarrow>
       (if c = 0 then (\<nexists>s'. pool_step ordered acts s0 s') \<and> (\<exists>out. run_ends ordered s0 out) = (num = 0)
        else (\<nexists>s. reachable ordered acts s0 s \<and> (\<nexists>out. run_ends ordered s out) \<and>
               (\<nexists>s'. pool_step ordered acts s s'))) \<and>
       wfp (\<lambda>s' s. pool_step ordered acts s s')"
proof (cases "new_pool c num")
  case (Inl e)
  then show ?thesis by (auto simp: new_pool_def split: if_splits)
next
  case (Inr s0)
  then have s0: "0 \<le> c" "s0 = \<lparr>p_result = new_benchmark_result, p_permits = c, p_tasks = replicate num Waiting\<rparr>"
    by (auto simp: new_pool_def split: if_splits)
  have "\<nexists>s'. pool_step ordered acts s0 s'" if "c = 0"
    using that by (auto simp: s0(2) elim!: pool_stepE)
  moreover have "(\<exists>out. run_ends ordered s0 out) = (num = 0)"
    by (auto simp: s0(2) run_ends.simps list_all_iff split: if_splits)
  moreover have "\<exists>s'. pool_step ordered acts s s'"
    if "c \<noteq> 0" "reachable ordered acts s0 s" "\<nexists>out. run_ends ordered s out" for s
    using pool_progress [OF reachable_inv [OF Inr that(2)]] that(1,3) s0(1) by simp
  moreover have "wfp (\<lambda>s' s. pool_step ordered acts s s')"
    by (rule wfp_if_convertible_to_nat [of _ "work acts"]) (rule pool_step_work)
  ultimately show ?thesis by (simp add: Inr) blast
qed

text \<open>C31: what a run returns or raises: a negative concurrency is the only refusal, an exception that
  leaves the run has left one of its requests or sessions, and a run that returns a result had no
  such exception, so one timed-out request is enough to lose the measurements of a whole run.\<close>

theorem traffic_outcomes:
  assumes "pool_run ordered c num acts out"
  shows "case out of
      Inl (Refused e) \<Rightarrow> c < 0 \<and> e = ValueError
    | Inl (Escaped f) \<Rightarrow> 0 \<le> c \<and> (\<exists>i \<in> {..<num}. snd (acts i) = Some f)
    | Inr r \<Rightarrow> 0 \<le> c \<and> list_all (\<lambda>i. snd (acts i) = None) [0..<num]"
proof (cases out)
  case (Inl e)
  then show ?thesis using assms
    by (cases e) (auto elim!: pool_runE raised_source simp: new_pool_def split: if_splits)
next
  case (Inr r)
  with assms have "pool_run ordered c num acts (Inr r)" by simp
  then show ?thesis using Inr by (auto elim!: returned_updates simp: list_all_iff)
qed

text \<open>A request whose exchange fails with an exception \<open>_stream_chat\<close> does not catch\<close>

theorem traffic_outcomes_witness:
  "\<exists>acts i f. pool_run True 1 1 acts (Inl (Escaped (Escaping ''TimeoutError''))) \<and> i < (1::nat) \<and>
     snd (acts i) = Some f"
proof -
  let ?acts = "\<lambda>i::nat. chat_updates (Fin 1) (Failed (Escaping ''TimeoutError''))"
  have "pool_run True 1 1 ?acts (Inl (Escaped (Escaping ''TimeoutError'')))"
    by (rule demo_run_raises) (simp add: chat_updates_def failure_updates_def failure_reason_def)
  with traffic_outcomes [OF this] show ?thesis by auto
qed

text \<open>The tasks of a run, one after the other\<close>

definition sequential ::
    "(nat \<Rightarrow> (pyfloat \<times> exchange) list) \<Rightarrow> nat \<Rightarrow> BenchmarkResult \<times> failure option" where
  "sequential turns num = run_one (concat (map turns [0..<num])) new_benchmark_result"

lemma session_updates_append:
  assumes "snd (session_updates xs) = None"
  shows "session_updates (xs @ ys) =
    (fst (session_updates xs) @ fst (session_updates ys), snd (session_updates ys))"
  using assms by (induction xs rule: session_updates.induct) (auto split: prod.splits option.splits)

lemma session_updates_concat:
  assumes "\<And>i. i < num \<Longrightarrow> snd (session_updates (turns i)) = None"
  shows "session_updates (concat (map turns [0..<num])) =
    (concat (map (\<lambda>i. fst (session_updates (turns i))) [0..<num]), None)"
  using assms
proof (induction num)
  case (Suc num)
  then have "session_updates (concat (map turns [0..<num])) =
      (concat (map (\<lambda>i. fst (session_updates (turns i))) [0..<num]), None)" by simp
  with session_updates_append [of "concat (map turns [0..<num])" "turns num"] Suc.prems [of num]
  show ?case by simp
qed simp

text \<open>C30: concurrency does not change the measurements: whatever order the event loop runs the tasks in,
  a run that returns records the same times, counts and error reasons as sending everything one
  after the other, up to the order of the lists, both for single requests (tasks of one turn) and for
  whole sessions; the sequential run then ends without an exception as well.\<close>

theorem traffic_equals_sequential:
  assumes "pool_run ordered c num (\<lambda>i. session_updates (turns i)) (Inr r)"
  shows "case sequential turns num of (r', e) \<Rightarrow> e = None \<and> same_result r r'"
proof -
  obtain us where us: "r = fold apply_update us new_benchmark_result"
      "mset us = mset (concat (map (\<lambda>i. fst (session_updates (turns i))) [0..<num]))"
      "\<And>i. i < num \<Longrightarrow> snd (session_updates (turns i)) = None"
    using returned_updates [OF assms] by metis
  have "sequential turns num =
      (fold apply_update (concat (map (\<lambda>i. fst (session_updates (turns i))) [0..<num])) new_benchmark_result, None)"
    by (simp add: sequential_def run_one_updates session_updates_concat us(3))
  then show ?thesis using same_resultI [OF us(2)] us(1) by simp
qed

theorem traffic_equals_sequential_witness:
  "\<exists>r r'. pool_run True 1 1 (\<lambda>i. session_updates [(Fin 1, demo_exchange)]) (Inr r) \<and>
     sequential (\<lambda>i. [(Fin 1, demo_exchange)]) 1 = (r', None) \<and> same_result r r'"
proof -
  obtain r where r: "pool_run True 1 1 (\<lambda>i. session_updates [(Fin 1, demo_exchange)]) (Inr r)"
    using demo_run_returns [of "\<lambda>i. session_updates [(Fin 1, demo_exchange)]" True]
    by (auto simp: session_updates_single demo_chat simp del: session_updates.simps)
  with traffic_equals_sequential [OF r] show ?thesis by (auto split: prod.splits)
qed

section \<open>No request is lost\<close>

lemma session_updates_shape:
  assumes "session_updates xs = (us, None)"
  shows "count_if is_success us + count_if is_error us = int (length xs) \<and> count_if is_ttft us \<le> int (length xs)"
  using assms
proof (induction xs arbitrary: us rule: session_updates.induct)
  case (2 start ex turns)
  then obtain vs ws where *: "chat_updates start ex = (vs, None)" "session_updates turns = (ws, None)" "us = vs @ ws"
    by (auto split: prod.splits option.splits)
  from 2(1) [OF *(1) [symmetric] refl *(2)] chat_updates_shape [OF *(1)] show ?case by (simp add: *(3))
qed simp

lemma sum_reasons:
  "sum_list (map snd (b_reasons (fold apply_update us r))) =
   sum_list (map snd (b_reasons r)) + count_if is_error us"
proof (induction us arbitrary: r)
  case (Cons u us)
  have set_sum: "sum_list (map snd (d_set k (n + 1) d)) = sum_list (map snd d) + 1"
    if "n = (case d_get d k of None \<Rightarrow> 0 | Some n \<Rightarrow> n)" for k n and d :: "(string, int) pydict"
    using that by (induction d) (auto simp: d_set_def d_get_def)
  show ?case by (cases u) (simp_all add: Cons record_error_def reason_count_def set_sum)
qed simp

text \<open>Every one of \<open>n\<close> requests has either succeeded, with its end-to-end time, or been counted under
  a reason.\<close>

definition accounts_for :: "nat \<Rightarrow> BenchmarkResult \<Rightarrow> bool" where
  "accounts_for n r \<longleftrightarrow>
     b_successes r + b_errors r = int n \<and> int (length (b_e2e r)) = b_successes r \<and>
     length (b_ttfts r) \<le> n \<and> sum_list (map snd (b_reasons r)) = b_errors r"

lemma run_accounts_for:
  assumes "pool_run ordered c num (\<lambda>i. session_updates (turns i)) (Inr r)"
  shows "accounts_for (length (concat (map turns [0..<num]))) r"
proof -
  let ?all = "concat (map (\<lambda>i. fst (session_updates (turns i))) [0..<num])"
  obtain us where us: "r = fold apply_update us new_benchmark_result" "mset us = mset ?all"
      "\<And>i. i < num \<Longrightarrow> snd (session_updates (turns i)) = None"
    using returned_updates [OF assms] by metis
  note c = count_if_mset [OF us(2)]
  note t = session_updates_shape [OF session_updates_concat [of num turns, OF us(3)]]
  have "length (filter is_ttft us) \<le> length (concat (map turns [0..<num]))"
      "int (length (filter is_success us)) = count_if is_success us"
    using t c [of is_ttft] by (simp_all add: count_if_def)
  then show ?thesis
    using t c [of is_success] c [of is_error] sum_reasons [of us new_benchmark_result]
    by (simp add: accounts_for_def us(1) fold_updates new_benchmark_result_def)
qed

lemma run_single_accounts:
  assumes "run_traffic num_requests concurrency chats (Inr r)"
  shows "accounts_for (nat num_requests) r"
proof -
  have "chat_updates (fst (chats i)) (snd (chats i)) = session_updates [chats i]" for i
    using session_updates_single [of "fst (chats i)" "snd (chats i)"] by simp
  then have "pool_run True concurrency (nat num_requests) (\<lambda>i. session_updates [chats i]) (Inr r)"
    using assms by (simp add: run_traffic_def)
  from run_accounts_for [OF this] show ?thesis
    by (simp add: length_concat comp_def)
qed

text \<open>No request is lost or counted twice: when \<open>run_traffic\<close> returns, successes and errors add up
  to the number of requests, there is one end-to-end time per success and at most one first-chunk
  time per request, and the tally of reasons adds up to the errors.\<close>

lemma traffic_accounts:
  assumes "run_traffic num_requests concurrency chats (Inr r)"
  shows "accounts_for (nat num_requests) r"
  by (rule run_single_accounts [OF assms])

lemma length_grouped:
  "sum_list (map (\<lambda>x. length (snd x)) (fold add_to_session reqs d)) =
   sum_list (map (\<lambda>x. length (snd x)) d) + length reqs"
proof (induction reqs arbitrary: d)
  case (Cons r reqs)
  have set_sum: "sum_list (map (\<lambda>x. length (snd x)) (d_set k (ts @ [r]) d)) =
      Suc (sum_list (map (\<lambda>x. length (snd x)) d))"
    if "ts = (case d_get d k of None \<Rightarrow> [] | Some ts \<Rightarrow> ts)" for k ts
    using that by (induction d) (auto simp: d_set_def d_get_def)
  have "sum_list (map (\<lambda>x. length (snd x)) (add_to_session r d)) = Suc (sum_list (map (\<lambda>x. length (snd x)) d))"
    unfolding add_to_session_def by (rule set_sum) simp
  then show ?case using Cons.IH [of "add_to_session r d"] by simp
qed simp

lemma length_queues: "sum_list (map length (map snd (group_sessions requests))) = length requests"
  using length_grouped [of requests "[]"]
  by (simp add: group_sessions_def comp_def split_beta)

lemma run_session_accounts:
  assumes "run_session_traffic requests concurrency chats (Inr r)"
  shows "accounts_for (length requests) r"
proof -
  let ?qs = "map snd (group_sessions requests)"
  have run: "pool_run False concurrency (length ?qs) (\<lambda>i. session_updates (map (chats i) (?qs ! i))) (Inr r)"
    using assms by (simp add: run_session_traffic_def)
  have "length (concat (map (\<lambda>i. map (chats i) (?qs ! i)) [0..<length ?qs])) = sum_list (map (\<lambda>i. length (?qs ! i)) [0..<length ?qs])"
    by (simp add: length_concat comp_def)
  also have "map (\<lambda>i. length (?qs ! i)) [0..<length ?qs] = map length ?qs"
    by (rule nth_equalityI) simp_all
  finally have "length (concat (map (\<lambda>i. map (chats i) (?qs ! i)) [0..<length ?qs])) = length requests"
    by (simp only: length_queues)
  with run_accounts_for [OF run] show ?thesis by simp
qed

text \<open>Replaying sessions accounts for every turn of the stream exactly once: when
  \<open>run_session_traffic\<close> returns, successes and errors add up to the number of requests, whatever
  sessions they belong to.\<close>

lemma session_traffic_accounts:
  assumes "run_session_traffic requests concurrency chats (Inr r)"
  shows "accounts_for (length requests) r"
  by (rule run_session_accounts [OF assms])

end
