(* ===== verification/Cli.thy ===== *)
theory Cli
  imports Report Mixed Traffic_Runs
begin

text \<open>
  \<open>src/bench/cli.py\<close>: the validation of the options, the presets, and the bodies of the commands
  \<open>traffic\<close>, \<open>report\<close>, \<open>metrics\<close> and \<open>simulate\<close>. Parsing the command line is click's; a command starts
  from \<open>ctx.params\<close>, a dictionary from option names to values. What it prints on the way is left
  out, except the summary of \<open>traffic\<close>.
\<close>

section \<open>Go durations\<close>

text \<open>What can follow a nonempty run of characters that satisfy \<open>p\<close>\<close>

fun many1 :: "(char \<Rightarrow> bool) \<Rightarrow> string \<Rightarrow> string list" where
  "many1 p [] = []"
| "many1 p (c # cs) = (if p c then cs # many1 p cs else [])"

definition GO_UNITS :: "string list" where
  "GO_UNITS = [''ns'', ''us'', [CHR 0xB5, CHR ''s''], ''ms'', ''s'', ''m'', ''h'']"

definition after_unit :: "string \<Rightarrow> string list" where
  "after_unit s = concat (map (\<lambda>u. if starts_with u s then [drop (length u) s] else []) GO_UNITS)"

definition after_fraction :: "string \<Rightarrow> string list" where
  "after_fraction s = s # (if s \<noteq> [] \<and> hd s = CHR ''.'' then many1 is_digit (tl s) else [])"

definition after_head :: "string \<Rightarrow> string list" where
  "after_head s = concat (map after_unit (concat (map after_fraction (many1 is_digit s))))"

definition digit_or_dot :: "char \<Rightarrow> bool" where
  "digit_or_dot c \<longleftrightarrow> is_digit c \<or> c = CHR ''.''"

definition after_segment :: "string \<Rightarrow> string list" where
  "after_segment s = concat (map after_unit (many1 digit_or_dot s))"

function after_segments :: "string \<Rightarrow> string list" where
  "after_segments s = s # concat (map after_segments (filter (\<lambda>r. length r < length s) (after_segment s)))"
  by pat_completeness auto
termination by (relation "measure length") auto

declare after_segments.simps [simp del]

text \<open>\<open>_GO_DURATION_RE.match(s)\<close>; in Python \<open>$\<close> also matches before a final newline\<close>

definition go_duration :: "string \<Rightarrow> bool" where
  "go_duration s \<longleftrightarrow>
     list_ex (\<lambda>rest. list_ex (\<lambda>r. r = [] \<or> r = [CHR 0x0A]) (after_segments rest)) (after_head s)"

section \<open>The retention header\<close>

definition given :: "string option \<Rightarrow> bool" where
  "given x \<longleftrightarrow> (case x of None \<Rightarrow> False | Some s \<Rightarrow> s \<noteq> [])"

definition header_part :: "string \<Rightarrow> string option \<Rightarrow> string" where
  "header_part key x = (case x of None \<Rightarrow> [] | Some s \<Rightarrow> if s = [] then [] else ''; '' @ key @ ''='' @ s)"

definition kv_priority_header :: "int option \<Rightarrow> string option \<Rightarrow> string option \<Rightarrow> string option res" where
  "kv_priority_header priority ttl scope =
     (case priority of
        None \<Rightarrow> if given ttl \<or> given scope then Inl UsageError else Inr None
      | Some p \<Rightarrow>
          if given ttl \<and> \<not> go_duration (the ttl) then Inl UsageError
          else Inr (Some (str_int p @ header_part ''ttl'' ttl @ header_part ''scope'' scope)))"

section \<open>Presets\<close>

datatype option_value =
  VInt int | VFloat pyfloat | VStr string | VBool bool | VMix mix | VStrs "string list" | VNone

type_synonym params = "(string, option_value) pydict"

definition ONLINE_PRESETS :: "(string, params) pydict" where
  "ONLINE_PRESETS =
     [(''fast'',
        [(''workload'', VStr ''sessions''), (''sessions'', VInt 5), (''turns'', VInt 3),
         (''qps'', VFloat (Fin 2)), (''concurrency'', VInt 2)]),
      (''experiment'',
        [(''workload'', VStr ''sessions''), (''sessions'', VInt 50), (''turns'', VInt 6),
         (''qps'', VFloat (Fin 10)), (''concurrency'', VInt 20), (''tool_reliability'', VBool True)])]"

definition OFFLINE_PRESETS :: "(string, params) pydict" where
  "OFFLINE_PRESETS =
     [(''fast'',
        [(''sessions'', VInt 10), (''turns'', VInt 3), (''qps'', VFloat (Fin 5)), (''nodes'', VInt 2)]),
      (''experiment'',
        [(''sessions'', VInt 200), (''turns'', VInt 6), (''qps'', VFloat (Fin 10)),
         (''mix'', VMix [(''tool'', Fin (1 / 2)), (''rag'', rnd (3 / 10)), (''oneshot'', rnd (2 / 10))]),
         (''tool_reliability'', VBool True), (''burst_cv'', VFloat (Fin (3 / 2)))])]"

text \<open>\<open>is_default k\<close>: the source of option \<open>k\<close> is its default\<close>

definition preset_option :: "(string \<Rightarrow> bool) \<Rightarrow> string \<times> option_value \<Rightarrow> params \<Rightarrow> params" where
  "preset_option is_default = (\<lambda>(k, v) ps. if d_has ps k \<and> is_default k then d_set k v ps else ps)"

definition apply_preset ::
    "(string \<Rightarrow> bool) \<Rightarrow> string option \<Rightarrow> (string, params) pydict \<Rightarrow> params \<Rightarrow> params" where
  "apply_preset is_default preset presets ps =
     (case preset of
        None \<Rightarrow> ps
      | Some name \<Rightarrow>
          if name = [] then ps
          else (case d_get presets name of
                  None \<Rightarrow> ps
                | Some p \<Rightarrow> fold (preset_option is_default) p ps))"

text \<open>Reading \<open>ctx.params\<close>\<close>

definition param :: "(option_value \<Rightarrow> 'a option) \<Rightarrow> params \<Rightarrow> string \<Rightarrow> 'a res" where
  "param get ps k =
     (case d_get ps k of
        None \<Rightarrow> Inl KeyError
      | Some v \<Rightarrow> (case get v of None \<Rightarrow> Inl TypeError | Some x \<Rightarrow> Inr x))"

definition int_value :: "option_value \<Rightarrow> int option" where
  "int_value v = (case v of VInt i \<Rightarrow> Some i | _ \<Rightarrow> None)"

definition float_value :: "option_value \<Rightarrow> pyfloat option" where
  "float_value v = (case v of VFloat x \<Rightarrow> Some x | _ \<Rightarrow> None)"

definition bool_value :: "option_value \<Rightarrow> bool option" where
  "bool_value v = (case v of VBool b \<Rightarrow> Some b | _ \<Rightarrow> None)"

definition mix_value :: "option_value \<Rightarrow> mix option" where
  "mix_value v = (case v of VMix d \<Rightarrow> Some d | _ \<Rightarrow> None)"

definition str_value :: "option_value \<Rightarrow> string option" where
  "str_value v = (case v of VStr t \<Rightarrow> Some t | _ \<Rightarrow> None)"

section \<open>The workload mix\<close>

definition parse_part :: "string \<Rightarrow> mix \<Rightarrow> mix res" where
  "parse_part part d =
     (case partition_at CHR ''='' part of (name, fraction) \<Rightarrow>
        rbind (float_of_str fraction) (\<lambda>x. Inr (d_set (strip name) x d)))"

definition parse_mix :: "string \<Rightarrow> mix res" where
  "parse_mix value =
     (case rfold parse_part (split_on CHR '','' value) [] of
        Inl e \<Rightarrow> if e = ValueError then Inl BadParameter else Inl e
      | Inr d \<Rightarrow>
          if unknown_classes d \<noteq> [] then Inl BadParameter
          else if rnd (1 / 10 ^ 6) < fabs (py_fsum (map snd d) - 1) then Inl BadParameter
          else Inr d)"

section \<open>The traffic command\<close>

text \<open>What \<open>_run_route\<close> hands to the traffic drivers: the requests of the sessions, or a number of
  single-shot requests at a rate\<close>

datatype route_plan = Replay "TurnRequest list" | Single_Shots int pyfloat

definition run_route ::
    "'r random_lib \<Rightarrow> string \<Rightarrow> int \<Rightarrow> pyfloat \<Rightarrow> int \<Rightarrow> int \<Rightarrow> int \<Rightarrow> bool \<Rightarrow> vocab \<Rightarrow> (route_plan \<times> vocab) res" where
  "run_route L workload requests qps sessions turns seed reliability v =
     (if workload = ''sessions''
      then rbind (generate_sessions L sessions turns qps
                    (default_gen_params\<lparr>tool_reliability := reliability, gp_seed := seed\<rparr>) v)
             (\<lambda>(reqs, v'). Inr (Replay reqs, v'))
      else Inr (Single_Shots requests qps, v))"

text \<open>The command up to the traffic: the options after the preset, the header to attach, and what to
  send with how many permits\<close>

definition traffic_command ::
    "'r random_lib \<Rightarrow> (string \<Rightarrow> bool) \<Rightarrow> string option \<Rightarrow> params \<Rightarrow> int \<Rightarrow> int \<Rightarrow> int option \<Rightarrow> string option \<Rightarrow>
     string option \<Rightarrow> vocab \<Rightarrow> (string option \<times> int \<times> route_plan \<times> vocab) res" where
  "traffic_command L is_default preset ps0 requests seed kv_priority kv_ttl kv_scope v =
     (let ps = apply_preset is_default preset ONLINE_PRESETS ps0 in
      rbind (param float_value ps ''qps'') (\<lambda>qps.
      rbind (param int_value ps ''concurrency'') (\<lambda>concurrency.
      rbind (param str_value ps ''workload'') (\<lambda>workload.
      rbind (param int_value ps ''sessions'') (\<lambda>sessions.
      rbind (param int_value ps ''turns'') (\<lambda>turns.
      rbind (param bool_value ps ''tool_reliability'') (\<lambda>reliability.
      rbind (kv_priority_header kv_priority kv_ttl kv_scope) (\<lambda>header.
      rbind (run_route L workload requests qps sessions turns seed reliability v) (\<lambda>(plan, v').
        Inr (header, concurrency, plan, v'))))))))))"

fun contains :: "string \<Rightarrow> string \<Rightarrow> bool" where
  "contains p [] = (p = [])"
| "contains p (c # cs) = (starts_with p (c # cs) \<or> contains p cs)"

definition pctl_line :: "string \<Rightarrow> (int, pyfloat) pydict \<Rightarrow> string" where
  "pctl_line title d =
     title @ '' -> p50: '' @ fmt_fixed 3 (pctl d 50) @ '', p90: '' @ fmt_fixed 3 (pctl d 90) @
     '', p99: '' @ fmt_fixed 3 (pctl d 99)"

text \<open>The lines \<open>traffic\<close> prints about a result\<close>

definition traffic_summary :: "percentile \<Rightarrow> BenchmarkResult \<Rightarrow> string list" where
  "traffic_summary percentile result =
     [CHR 0x0A # ''Completed '' @ str_int (b_successes result) @ '' successful requests with '' @
        str_int (b_errors result) @ '' errors.''] @
     (if b_errors result \<noteq> 0
      then (''  errors: '' @ error_summary result) #
           (if list_ex (contains ''load shed'') (d_keys (b_reasons result))
            then [''  note: the EPP-backed routes apply real admission control against the '' @
                  ''live replicas; lower --qps or scale the sim deployment for high-load runs.'']
            else [])
      else []) @
     [pctl_line ''TTFT (s)'' (compute_percentiles percentile (b_ttfts result) None),
      pctl_line ''E2E  (s)'' (compute_percentiles percentile (b_e2e result) None)]"

section \<open>The report command\<close>

definition route_metrics :: "percentile \<Rightarrow> BenchmarkResult \<Rightarrow> RouteMetrics res" where
  "route_metrics percentile result =
     (let ttft = compute_percentiles percentile (b_ttfts result) None;
          e2e = compute_percentiles percentile (b_e2e result) None;
          n = b_successes result + b_errors result
      in rbind (if 0 < n then rbind (int_div (b_successes result) n) (\<lambda>x. Inr (x * Fin 100)) else Inr 0) (\<lambda>rate.
           Inr \<lparr>rm_requests = n, rm_success_rate = rate, rm_ttft_p50 = pctl ttft 50, rm_ttft_p99 = pctl ttft 99,
                rm_e2e_p50 = pctl e2e 50\<rparr>))"

text \<open>The hit rate of one run from the counters before and after it\<close>

definition hit_delta :: "pyfloat \<times> pyfloat \<Rightarrow> pyfloat \<times> pyfloat \<Rightarrow> pyfloat res" where
  "hit_delta = (\<lambda>(hits_before, queries_before) (hits_after, queries_after).
     let queries_delta = queries_after - queries_before; hits_delta = hits_after - hits_before in
     if 0 < queries_delta then fdiv hits_delta queries_delta else Inr 0)"

record report_state =
  rs_results :: "(string, RouteMetrics) pydict"
  rs_hit_rates :: "(string, pyfloat) pydict"
  rs_prefill :: "(string, pyfloat option) pydict"
  rs_usages :: "(string, pyfloat option) pydict"
  rs_evictions :: "(string, pyfloat option) pydict"

text \<open>One route: \<open>drive\<close> runs its traffic, \<open>settle\<close> lets time pass; both may raise, and both change the
  state of the server that the metrics are read from.\<close>

definition report_route ::
    "'s prometheus \<Rightarrow> (string \<Rightarrow> 's \<Rightarrow> (BenchmarkResult \<times> 's) res) \<Rightarrow> ('s \<Rightarrow> 's res) \<Rightarrow> percentile \<Rightarrow> string \<Rightarrow>
     report_state \<times> 's \<Rightarrow> (report_state \<times> 's) res" where
  "report_route server drive settle percentile route = (\<lambda>(rs, s).
     rbind (get_prefix_cache_counters server s) (\<lambda>(before, s1).
     rbind (get_pinned_evictions server s1) (\<lambda>(evictions_before, s2).
     rbind (drive route s2) (\<lambda>(result, s3).
     rbind (settle s3) (\<lambda>s4.
     rbind (get_prefix_cache_counters server s4) (\<lambda>(after, s5).
     rbind (get_avg_prefill_time server s5) (\<lambda>(prefill, s6).
     rbind (get_pinned_usage server s6) (\<lambda>(usage, s7).
     rbind (get_pinned_evictions server s7) (\<lambda>(evictions_after, s8).
     rbind (hit_delta before after) (\<lambda>hits.
     rbind (route_metrics percentile result) (\<lambda>m.
       Inr (rs\<lparr>rs_results := d_set route m (rs_results rs),
               rs_hit_rates := d_set route hits (rs_hit_rates rs),
               rs_prefill := d_set route prefill (rs_prefill rs),
               rs_usages := d_set route (Some usage) (rs_usages rs),
               rs_evictions := d_set route (Some (evictions_after - evictions_before)) (rs_evictions rs)\<rparr>,
            s8))))))))))))"

definition report_command ::
    "'s prometheus \<Rightarrow> (string \<Rightarrow> 's \<Rightarrow> (BenchmarkResult \<times> 's) res) \<Rightarrow> ('s \<Rightarrow> 's res) \<Rightarrow> percentile \<Rightarrow> string list \<Rightarrow> 's \<Rightarrow>
     (table option \<times> 's) res" where
  "report_command server drive settle percentile compare s =
     (if compare = [] then Inr (None, s)
      else rbind (rfold (report_route server drive settle percentile) compare
                   (\<lparr>rs_results = [], rs_hit_rates = [], rs_prefill = [], rs_usages = [], rs_evictions = []\<rparr>, s))
             (\<lambda>(rs, s'). Inr (Some (report_rows (rs_results rs) (rs_hit_rates rs) (Some (rs_prefill rs))
                                      (Some (rs_usages rs)) (Some (rs_evictions rs))), s')))"

definition metrics_command :: "'s prometheus \<Rightarrow> 's \<Rightarrow> (string \<times> 's) res" where
  "metrics_command server s =
     rbind (get_prefix_cache_hit_rate server s) (\<lambda>(h, s').
       Inr (''Current Prefix Cache Hit Rate: '' @ percent 1 h @ ''%'', s'))"

section \<open>The simulate command\<close>

record sim_options =
  o_nodes :: int
  o_sessions :: int
  o_turns :: int
  o_qps :: pyfloat
  o_burst_cv :: pyfloat
  o_mix :: mix
  o_tool_reliability :: bool
  o_tool_result_tokens :: int
  o_think_time :: pyfloat
  o_rag_docs :: int
  o_rag_doc_tokens :: int
  o_rag_zipf :: pyfloat
  o_block_size :: int
  o_bandwidth :: pyfloat
  o_cache_blocks :: int
  o_retain_margin :: pyfloat
  o_seed :: int

text \<open>The options a preset can change, read back from \<open>ctx.params\<close> after it was applied\<close>

definition reread_options :: "params \<Rightarrow> sim_options \<Rightarrow> sim_options res" where
  "reread_options ps opts =
     rbind (param int_value ps ''nodes'') (\<lambda>nodes.
     rbind (param int_value ps ''sessions'') (\<lambda>sessions.
     rbind (param int_value ps ''turns'') (\<lambda>turns.
     rbind (param float_value ps ''qps'') (\<lambda>qps.
     rbind (param float_value ps ''burst_cv'') (\<lambda>burst_cv.
     rbind (param mix_value ps ''mix'') (\<lambda>mix.
     rbind (param bool_value ps ''tool_reliability'') (\<lambda>reliability.
       Inr (opts\<lparr>o_nodes := nodes, o_sessions := sessions, o_turns := turns, o_qps := qps,
                 o_burst_cv := burst_cv, o_mix := mix, o_tool_reliability := reliability\<rparr>))))))))"

definition sim_stream :: "'r random_lib \<Rightarrow> sim_options \<Rightarrow> vocab \<Rightarrow> (TurnRequest list \<times> vocab) res" where
  "sim_stream L opts v =
     generate_mixed L (o_sessions opts) (o_turns opts) (o_qps opts) (Some (o_mix opts))
       (default_gen_params\<lparr>tool_result_tokens := o_tool_result_tokens opts, think_time := o_think_time opts,
          gp_burst_cv := o_burst_cv opts, tool_reliability := o_tool_reliability opts,
          gp_block_size := o_block_size opts, gp_seed := o_seed opts\<rparr>)
       (default_mix_params\<lparr>rag_docs := o_rag_docs opts, rag_doc_tokens := o_rag_doc_tokens opts,
          rag_zipf := o_rag_zipf opts\<rparr>) v"

definition sim_cost_params :: "sim_options \<Rightarrow> CostParams" where
  "sim_cost_params opts = default_params\<lparr>block_size := o_block_size opts, bandwidth := o_bandwidth opts\<rparr>"

text \<open>\<open>None\<close> when a run does not end\<close>

fun simulate_policies ::
    "TurnRequest list \<Rightarrow> sim_options \<Rightarrow> string list \<Rightarrow> sim_results \<Rightarrow> sim_results res option" where
  "simulate_policies reqs opts [] results = Some (Inr results)"
| "simulate_policies reqs opts (name # names) results =
     (case build_policy name (o_retain_margin opts) of
        Inl e \<Rightarrow> Some (Inl e)
      | Inr policy \<Rightarrow>
          (case run_simulation reqs policy_call policy (o_nodes opts) (o_cache_blocks opts)
                  (sim_cost_params opts) (uses_belady name) of
             None \<Rightarrow> None
           | Some (Inl e) \<Rightarrow> Some (Inl e)
           | Some (Inr r) \<Rightarrow> simulate_policies reqs opts names (d_set name r results)))"

definition simulate_command ::
    "'r random_lib \<Rightarrow> percentile \<Rightarrow> (string \<Rightarrow> bool) \<Rightarrow> string option \<Rightarrow> params \<Rightarrow> sim_options \<Rightarrow> string list \<Rightarrow> vocab \<Rightarrow>
     (sim_tables \<times> vocab) res option" where
  "simulate_command L percentile is_default preset ps opts0 policies v =
     (case rbind (reread_options (apply_preset is_default preset OFFLINE_PRESETS ps) opts0)
             (\<lambda>opts. rbind (sim_stream L opts v) (\<lambda>stream. Inr (opts, stream))) of
        Inl e \<Rightarrow> Some (Inl e)
      | Inr (opts, reqs, v') \<Rightarrow>
          (case simulate_policies reqs opts policies [] of
             None \<Rightarrow> None
           | Some (Inl e) \<Rightarrow> Some (Inl e)
           | Some (Inr results) \<Rightarrow> Some (rbind (sim_report percentile results) (\<lambda>tables. Inr (tables, v')))))"

end
