(* ===== verification/Options.thy ===== *)
theory Options
  imports Cli
begin

text \<open>
  The options of the four commands of \<open>src/bench/cli.py\<close> as click's decorators declare them, the
  parameters a command is called with, and the commands from there on. Click is not part of the
  repository: \<open>conforms\<close> says what its documentation promises of \<open>ctx.params\<close> after a successful
  parse (every declared option has a value of its declared type, or its default).
\<close>

section \<open>Declarations\<close>

text \<open>The type of an option that gives none is the type of its default (\<open>INT\<close>, \<open>FLOAT\<close> or \<open>STRING\<close>).
  \<open>T_Mix\<close> is a text that goes through the callback \<open>_parse_mix\<close>.\<close>

datatype option_type = T_Int | T_Range int int | T_Float | T_Str | T_Choice "string list" | T_Flag | T_Mix

record click_option =
  opt_name :: string
  opt_type :: option_type
  opt_default :: option_value
  opt_required :: bool
  opt_multiple :: bool

definition opt :: "string \<Rightarrow> option_type \<Rightarrow> option_value \<Rightarrow> click_option" where
  "opt name type dflt =
     \<lparr>opt_name = name, opt_type = type, opt_default = dflt, opt_required = False, opt_multiple = False\<rparr>"

definition opt_int :: "string \<Rightarrow> int \<Rightarrow> click_option" where
  "opt_int name i = opt name T_Int (VInt i)"

definition opt_float :: "string \<Rightarrow> pyfloat \<Rightarrow> click_option" where
  "opt_float name x = opt name T_Float (VFloat x)"

definition opt_flag :: "string \<Rightarrow> click_option" where
  "opt_flag name = opt name T_Flag (VBool False)"

definition ROUTES :: "string list" where
  "ROUTES = [''round-robin'', ''prefix-affinity'', ''class-aware-reliability'']"

definition GATEWAY_URL :: string where
  "GATEWAY_URL = ''http://localhost:8080/v1/chat/completions''"

definition PROMETHEUS_URL :: string where
  "PROMETHEUS_URL = ''http://localhost:9090''"

definition workload_option :: click_option where
  "workload_option = opt ''workload'' (T_Choice [''single-shot'', ''sessions'']) (VStr ''single-shot'')"

definition preset_choice :: click_option where
  "preset_choice = opt ''preset'' (T_Choice [''fast'', ''experiment'']) VNone"

definition traffic_options :: "click_option list" where
  "traffic_options =
     [(opt ''route'' (T_Choice ROUTES) VNone)\<lparr>opt_required := True\<rparr>,
      opt_int ''requests'' 100, opt_float ''qps'' (Fin 5), opt_int ''concurrency'' 10, workload_option,
      opt_int ''sessions'' 50, opt_int ''turns'' 6, opt_int ''seed'' 0,
      opt ''gateway_url'' T_Str (VStr GATEWAY_URL),
      opt ''kv_priority'' (T_Range MIN_PRIORITY MAX_PRIORITY) VNone,
      opt ''kv_ttl'' T_Str VNone, opt ''kv_scope'' T_Str VNone,
      opt_flag ''tool_reliability'', preset_choice]"

definition metrics_options :: "click_option list" where
  "metrics_options = [opt ''prometheus_url'' T_Str (VStr PROMETHEUS_URL)]"

definition report_options :: "click_option list" where
  "report_options =
     [(opt ''compare'' (T_Choice ROUTES) (VStrs []))\<lparr>opt_multiple := True\<rparr>,
      opt_int ''requests'' 100, opt_float ''qps'' (Fin 5), opt_int ''concurrency'' 10, workload_option,
      opt_int ''sessions'' 50, opt_int ''turns'' 6, opt_int ''seed'' 0,
      opt ''gateway_url'' T_Str (VStr GATEWAY_URL), opt ''prometheus_url'' T_Str (VStr PROMETHEUS_URL),
      opt_float ''settle'' (Fin 35), preset_choice]"

definition simulate_options :: "click_option list" where
  "simulate_options =
     [(opt ''policies'' (T_Choice POLICY_NAMES) (VStrs POLICY_NAMES))\<lparr>opt_multiple := True\<rparr>,
      opt_int ''nodes'' 4, opt_int ''sessions'' 200, opt_int ''turns'' 6, opt_int ''tool_result_tokens'' 64,
      opt_float ''think_time'' (Fin 2), opt_float ''qps'' (Fin 10), opt_float ''burst_cv'' (Fin 1),
      opt ''mix'' T_Mix (VStr ''tool=1.0''), opt_int ''rag_docs'' 16, opt_int ''rag_doc_tokens'' 1024,
      opt_float ''rag_zipf'' (rnd (11 / 10)), opt_int ''block_size'' 16,
      opt_float ''bandwidth'' (Fin 4000000000), opt_int ''cache_blocks'' 2048,
      opt_flag ''tool_reliability'', opt_float ''retain_margin'' DEFAULT_RETAIN_MARGIN,
      opt_int ''seed'' 0, preset_choice]"

section \<open>What a command is called with\<close>

definition mix_ok :: "mix \<Rightarrow> bool" where
  "mix_ok d \<longleftrightarrow> unknown_classes d = [] \<and> \<not> rnd (1 / 10 ^ 6) < fabs (py_fsum (map snd d) - 1)"

definition has_type :: "option_type \<Rightarrow> option_value \<Rightarrow> bool" where
  "has_type type v =
     (case type of
        T_Int \<Rightarrow> int_value v \<noteq> None
      | T_Range a b \<Rightarrow> (case int_value v of None \<Rightarrow> False | Some i \<Rightarrow> a \<le> i \<and> i \<le> b)
      | T_Float \<Rightarrow> float_value v \<noteq> None
      | T_Str \<Rightarrow> str_value v \<noteq> None
      | T_Choice names \<Rightarrow> (case str_value v of None \<Rightarrow> False | Some s \<Rightarrow> s \<in> set names)
      | T_Flag \<Rightarrow> bool_value v \<noteq> None
      | T_Mix \<Rightarrow> (case mix_value v of None \<Rightarrow> False | Some d \<Rightarrow> mix_ok d))"

definition fits :: "click_option \<Rightarrow> option_value \<Rightarrow> bool" where
  "fits option v \<longleftrightarrow>
     (if opt_multiple option
      then (case v of VStrs ss \<Rightarrow> list_all (\<lambda>s. has_type (opt_type option) (VStr s)) ss | _ \<Rightarrow> False)
      else has_type (opt_type option) v \<or>
        v = VNone \<and> opt_default option = VNone \<and> \<not> opt_required option)"

definition conforms :: "click_option list \<Rightarrow> params \<Rightarrow> bool" where
  "conforms options ps \<longleftrightarrow>
     list_all (\<lambda>option. case d_get ps (opt_name option) of None \<Rightarrow> False | Some v \<Rightarrow> fits option v) options"

text \<open>The parameters when no option is given: a missing required option is refused, a default that is
  a text goes through the callback like any other.\<close>

definition default_value :: "click_option \<Rightarrow> (string \<times> option_value) res" where
  "default_value option =
     (if opt_required option then Inl UsageError
      else if opt_type option = T_Mix
      then (case opt_default option of
              VStr s \<Rightarrow> rbind (parse_mix s) (\<lambda>d. Inr (opt_name option, VMix d))
            | _ \<Rightarrow> Inl TypeError)
      else Inr (opt_name option, opt_default option))"

definition default_values :: "click_option list \<Rightarrow> params res" where
  "default_values options = rmap default_value options"

definition strs_value :: "option_value \<Rightarrow> string list option" where
  "strs_value v = (case v of VStrs ss \<Rightarrow> Some ss | _ \<Rightarrow> None)"

definition or_none :: "(option_value \<Rightarrow> 'a option) \<Rightarrow> option_value \<Rightarrow> 'a option option" where
  "or_none get v = (if v = VNone then Some None else map_option Some (get v))"

section \<open>The commands\<close>

text \<open>
  Click calls a command with \<open>ctx.params\<close> as keyword arguments. The values a preset may change are
  read again from \<open>ctx.params\<close> after it was applied, which \<open>traffic_command\<close> and \<open>simulate_command\<close> do.
\<close>

definition traffic_main ::
    "'r random_lib \<Rightarrow> (string \<Rightarrow> bool) \<Rightarrow> params \<Rightarrow> vocab \<Rightarrow>
     (string \<times> string \<times> string option \<times> int \<times> route_plan \<times> vocab) res" where
  "traffic_main L is_default ps v =
     rbind (param str_value ps ''route'') (\<lambda>route.
     rbind (param int_value ps ''requests'') (\<lambda>requests.
     rbind (param int_value ps ''seed'') (\<lambda>seed.
     rbind (param str_value ps ''gateway_url'') (\<lambda>gateway_url.
     rbind (param (or_none int_value) ps ''kv_priority'') (\<lambda>kv_priority.
     rbind (param (or_none str_value) ps ''kv_ttl'') (\<lambda>kv_ttl.
     rbind (param (or_none str_value) ps ''kv_scope'') (\<lambda>kv_scope.
     rbind (param (or_none str_value) ps ''preset'') (\<lambda>preset.
     rbind (traffic_command L is_default preset ps requests seed kv_priority kv_ttl kv_scope v)
       (\<lambda>(header, concurrency, plan, v'). Inr (route, gateway_url, header, concurrency, plan, v'))))))))))"

text \<open>The outcomes the traffic of a plan may have; \<open>shots\<close> and \<open>chats\<close> are the gateway's answers.\<close>

definition drive_plan ::
    "(nat \<Rightarrow> pyfloat \<times> exchange) \<Rightarrow> (nat \<Rightarrow> TurnRequest \<Rightarrow> pyfloat \<times> exchange) \<Rightarrow> int \<Rightarrow> route_plan \<Rightarrow>
     run_failure + BenchmarkResult \<Rightarrow> bool" where
  "drive_plan shots chats concurrency plan =
     (case plan of
        Replay reqs \<Rightarrow> run_session_traffic reqs concurrency chats
      | Single_Shots n qps \<Rightarrow> run_traffic n concurrency shots)"

text \<open>\<open>time.sleep\<close> takes no negative number, no NaN, and less than \<open>2 ^ 63\<close> nanoseconds.\<close>

definition sleep_error :: "pyfloat \<Rightarrow> py_error option" where
  "sleep_error x =
     (case x of
        Fin q \<Rightarrow>
          if Fin (2 ^ 63) \<le> x * Fin (10 ^ 9) \<or> x * Fin (10 ^ 9) < Fin (- (2 ^ 63)) then Some OverflowError
          else if q < 0 then Some ValueError else None
      | NegInf \<Rightarrow> Some OverflowError
      | PosInf \<Rightarrow> Some OverflowError
      | NaN \<Rightarrow> Some ValueError)"

definition lift_server :: "'s prometheus \<Rightarrow> ('s \<times> vocab) prometheus" where
  "lift_server server q = (\<lambda>(s, v). case server q s of (a, s') \<Rightarrow> (a, (s', v)))"

text \<open>\<open>execute\<close> is the live run of a plan against the gateway, \<open>elapse\<close> the scraping meanwhile.\<close>

definition report_drive ::
    "'r random_lib \<Rightarrow> (string \<Rightarrow> int \<Rightarrow> route_plan \<Rightarrow> 's \<Rightarrow> (BenchmarkResult \<times> 's) res) \<Rightarrow> int \<Rightarrow> pyfloat \<Rightarrow> int \<Rightarrow>
     string \<Rightarrow> int \<Rightarrow> int \<Rightarrow> int \<Rightarrow> string \<Rightarrow> 's \<times> vocab \<Rightarrow> (BenchmarkResult \<times> 's \<times> vocab) res" where
  "report_drive L execute requests qps concurrency workload sessions turns seed route = (\<lambda>(s, v).
     rbind (run_route L workload requests qps sessions turns seed False v) (\<lambda>(plan, v').
     rbind (execute route concurrency plan s) (\<lambda>(result, s'). Inr (result, s', v'))))"

definition report_settle :: "(pyfloat \<Rightarrow> 's \<Rightarrow> 's) \<Rightarrow> pyfloat \<Rightarrow> 's \<times> vocab \<Rightarrow> ('s \<times> vocab) res" where
  "report_settle elapse seconds = (\<lambda>(s, v).
     case sleep_error seconds of Some e \<Rightarrow> Inl e | None \<Rightarrow> Inr (elapse seconds s, v))"

definition report_main ::
    "'r random_lib \<Rightarrow> 's prometheus \<Rightarrow> (string \<Rightarrow> int \<Rightarrow> route_plan \<Rightarrow> 's \<Rightarrow> (BenchmarkResult \<times> 's) res) \<Rightarrow>
     (pyfloat \<Rightarrow> 's \<Rightarrow> 's) \<Rightarrow> percentile \<Rightarrow> (string \<Rightarrow> bool) \<Rightarrow> params \<Rightarrow> 's \<Rightarrow> vocab \<Rightarrow>
     (table option \<times> 's \<times> vocab) res" where
  "report_main L server execute elapse percentile is_default ps0 s v =
     rbind (param strs_value ps0 ''compare'') (\<lambda>compare.
     rbind (param int_value ps0 ''seed'') (\<lambda>seed.
     rbind (param float_value ps0 ''settle'') (\<lambda>settle.
     rbind (param (or_none str_value) ps0 ''preset'') (\<lambda>preset.
     let ps = apply_preset is_default preset ONLINE_PRESETS ps0 in
     rbind (param int_value ps ''requests'') (\<lambda>requests.
     rbind (param float_value ps ''qps'') (\<lambda>qps.
     rbind (param int_value ps ''concurrency'') (\<lambda>concurrency.
     rbind (param str_value ps ''workload'') (\<lambda>workload.
     rbind (param int_value ps ''sessions'') (\<lambda>sessions.
     rbind (param int_value ps ''turns'') (\<lambda>turns.
       report_command (lift_server server)
         (report_drive L execute requests qps concurrency workload sessions turns seed)
         (report_settle elapse settle) percentile compare (s, v)))))))))))"

text \<open>The arguments \<open>simulate\<close> is called with: its preset, its policies and its other options\<close>

definition simulate_args :: "params \<Rightarrow> (string option \<times> string list \<times> sim_options) res" where
  "simulate_args ps =
     rbind (param (or_none str_value) ps ''preset'') (\<lambda>preset.
     rbind (param strs_value ps ''policies'') (\<lambda>policies.
     rbind (param int_value ps ''nodes'') (\<lambda>nodes.
     rbind (param int_value ps ''sessions'') (\<lambda>sessions.
     rbind (param int_value ps ''turns'') (\<lambda>turns.
     rbind (param int_value ps ''tool_result_tokens'') (\<lambda>result_tokens.
     rbind (param float_value ps ''think_time'') (\<lambda>think.
     rbind (param float_value ps ''qps'') (\<lambda>qps.
     rbind (param float_value ps ''burst_cv'') (\<lambda>burst_cv.
     rbind (param mix_value ps ''mix'') (\<lambda>mix.
     rbind (param int_value ps ''rag_docs'') (\<lambda>docs.
     rbind (param int_value ps ''rag_doc_tokens'') (\<lambda>doc_tokens.
     rbind (param float_value ps ''rag_zipf'') (\<lambda>zipf.
     rbind (param int_value ps ''block_size'') (\<lambda>block.
     rbind (param float_value ps ''bandwidth'') (\<lambda>bw.
     rbind (param int_value ps ''cache_blocks'') (\<lambda>blocks.
     rbind (param bool_value ps ''tool_reliability'') (\<lambda>reliability.
     rbind (param float_value ps ''retain_margin'') (\<lambda>margin.
     rbind (param int_value ps ''seed'') (\<lambda>seed.
       Inr (preset, policies,
         \<lparr>o_nodes = nodes, o_sessions = sessions, o_turns = turns, o_qps = qps, o_burst_cv = burst_cv,
          o_mix = mix, o_tool_reliability = reliability, o_tool_result_tokens = result_tokens,
          o_think_time = think, o_rag_docs = docs, o_rag_doc_tokens = doc_tokens, o_rag_zipf = zipf,
          o_block_size = block, o_bandwidth = bw, o_cache_blocks = blocks, o_retain_margin = margin,
          o_seed = seed\<rparr>))))))))))))))))))))"

definition simulate_main ::
    "'r random_lib \<Rightarrow> percentile \<Rightarrow> (string \<Rightarrow> bool) \<Rightarrow> params \<Rightarrow> vocab \<Rightarrow> (sim_tables \<times> vocab) res option" where
  "simulate_main L percentile is_default ps v =
     (case simulate_args ps of
        Inl e \<Rightarrow> Some (Inl e)
      | Inr (preset, policies, opts) \<Rightarrow> simulate_command L percentile is_default preset ps opts policies v)"

definition metrics_main :: "'s prometheus \<Rightarrow> params \<Rightarrow> 's \<Rightarrow> (string \<times> 's) res" where
  "metrics_main server ps s = rbind (param str_value ps ''prometheus_url'') (\<lambda>url. metrics_command server s)"

end
