(* ===== verification/Cli_Runs.thy ===== *)
theory Cli_Runs
  imports Cli Tables
begin

text \<open>
  What the command line layer guarantees: the language of accepted durations, that the retention
  header can be read back, that an accepted mix is one the generator takes, that presets never
  override an explicit option, and what \<open>report\<close> and \<open>simulate\<close> compute.
\<close>

section \<open>The language of durations\<close>

lemma many1_iff: "r \<in> set (many1 p s) \<longleftrightarrow> (\<exists>ds. ds \<noteq> [] \<and> list_all p ds \<and> s = ds @ r)"
proof (induction s)
  case (Cons c cs)
  have "(\<exists>ds. ds \<noteq> [] \<and> list_all p ds \<and> c # cs = ds @ r) \<longleftrightarrow>
      p c \<and> (cs = r \<or> (\<exists>ds. ds \<noteq> [] \<and> list_all p ds \<and> cs = ds @ r))" (is "?l \<longleftrightarrow> ?r")
  proof
    assume ?l
    then obtain ds where ds: "ds \<noteq> []" "list_all p ds" "c # cs = ds @ r" by blast
    then obtain d es where "ds = d # es" by (cases ds) auto
    with ds show ?r by (cases es) auto
  next
    assume r: ?r
    then have "list_all p [c] \<and> c # cs = [c] @ r \<or>
        (\<exists>ds. list_all p (c # ds) \<and> c # cs = (c # ds) @ r)" by auto
    then show ?l by blast
  qed
  with Cons show ?case by auto
qed simp

lemma after_unit_iff: "r \<in> set (after_unit s) \<longleftrightarrow> (\<exists>u \<in> set GO_UNITS. s = u @ r)"
proof -
  have "starts_with u s \<and> r = drop (length u) s \<longleftrightarrow> s = u @ r" for u by (auto simp: starts_with_iff)
  then show ?thesis by (auto simp: after_unit_def)
qed

definition segment :: "string \<Rightarrow> bool" where
  "segment g \<longleftrightarrow> (\<exists>ds u. ds \<noteq> [] \<and> list_all digit_or_dot ds \<and> u \<in> set GO_UNITS \<and> g = ds @ u)"

lemma after_segment_iff: "r \<in> set (after_segment s) \<longleftrightarrow> (\<exists>g. segment g \<and> s = g @ r)"
  by (auto simp: after_segment_def many1_iff after_unit_iff segment_def) blast

lemma segment_pos: "segment g \<Longrightarrow> g \<noteq> []"
  by (auto simp: segment_def)

lemma after_segments_sound:
  "r \<in> set (after_segments s) \<Longrightarrow> \<exists>gs. list_all segment gs \<and> s = concat gs @ r"
proof (induction s rule: after_segments.induct)
  case (1 s)
  from "1.prems" have "r = s \<or> (\<exists>t \<in> set (after_segment s). length t < length s \<and> r \<in> set (after_segments t))"
    by (subst (asm) after_segments.simps) auto
  then show ?case
  proof (elim disjE bexE conjE)
    assume "r = s"
    then show ?thesis by (intro exI [of _ "[]"]) simp
  next
    fix t assume t: "t \<in> set (after_segment s)" "length t < length s" "r \<in> set (after_segments t)"
    with "1.IH" [of t] obtain gs where "list_all segment gs" "t = concat gs @ r" by auto
    moreover obtain g where "segment g" "s = g @ t" using t(1) after_segment_iff by blast
    ultimately show ?thesis by (intro exI [of _ "g # gs"]) simp
  qed
qed

lemma after_segments_complete: "list_all segment gs \<Longrightarrow> r \<in> set (after_segments (concat gs @ r))"
proof (induction gs)
  case Nil
  then show ?case by (simp add: after_segments.simps [of r])
next
  case (Cons g gs)
  let ?t = "concat gs @ r"
  have "?t \<in> set (filter (\<lambda>x. length x < length (g @ ?t)) (after_segment (g @ ?t)))"
    using Cons.prems after_segment_iff segment_pos by auto
  moreover have "r \<in> set (after_segments ?t)" using Cons by simp
  ultimately show ?case unfolding concat.simps append.assoc after_segments.simps [of "g @ ?t"] by auto
qed

lemma after_segments_iff:
  "r \<in> set (after_segments s) \<longleftrightarrow> (\<exists>gs. list_all segment gs \<and> s = concat gs @ r)"
  using after_segments_sound after_segments_complete by metis

text \<open>An optional fraction after the leading digits\<close>

definition fraction_part :: "string \<Rightarrow> bool" where
  "fraction_part f \<longleftrightarrow> f = [] \<or> (\<exists>ds. ds \<noteq> [] \<and> list_all is_digit ds \<and> f = CHR ''.'' # ds)"

lemma after_fraction_iff: "r \<in> set (after_fraction s) \<longleftrightarrow> (\<exists>f. fraction_part f \<and> s = f @ r)"
  by (cases s) (auto simp: after_fraction_def many1_iff fraction_part_def)

lemma after_head_iff:
  "r \<in> set (after_head s) \<longleftrightarrow>
     (\<exists>ds f u. ds \<noteq> [] \<and> list_all is_digit ds \<and> fraction_part f \<and> u \<in> set GO_UNITS \<and> s = ds @ f @ u @ r)"
proof -
  have "r \<in> set (after_head s) \<longleftrightarrow>
      (\<exists>t1. \<exists>t2. t1 \<in> set (many1 is_digit s) \<and> t2 \<in> set (after_fraction t1) \<and> r \<in> set (after_unit t2))"
    by (auto simp: after_head_def)
  then show ?thesis unfolding many1_iff after_fraction_iff after_unit_iff by blast
qed

lemma go_duration_iff:
  "go_duration s \<longleftrightarrow>
     (\<exists>ds f u gs end_mark. ds \<noteq> [] \<and> list_all is_digit ds \<and> fraction_part f \<and> u \<in> set GO_UNITS \<and>
        list_all segment gs \<and> end_mark \<in> {[], [CHR 0x0A]} \<and> s = ds @ f @ u @ concat gs @ end_mark)"
proof
  assume "go_duration s"
  then obtain rest r where "rest \<in> set (after_head s)" "r \<in> set (after_segments rest)" "r \<in> {[], [CHR 0x0A]}"
    by (auto simp: go_duration_def list_ex_iff)
  then show "\<exists>ds f u gs end_mark. ds \<noteq> [] \<and> list_all is_digit ds \<and> fraction_part f \<and> u \<in> set GO_UNITS \<and>
        list_all segment gs \<and> end_mark \<in> {[], [CHR 0x0A]} \<and> s = ds @ f @ u @ concat gs @ end_mark"
    unfolding after_head_iff after_segments_iff by blast
next
  assume "\<exists>ds f u gs end_mark. ds \<noteq> [] \<and> list_all is_digit ds \<and> fraction_part f \<and> u \<in> set GO_UNITS \<and>
        list_all segment gs \<and> end_mark \<in> {[], [CHR 0x0A]} \<and> s = ds @ f @ u @ concat gs @ end_mark"
  then obtain ds f u gs end_mark where "ds \<noteq> []" "list_all is_digit ds" "fraction_part f" "u \<in> set GO_UNITS"
      "list_all segment gs" "end_mark \<in> {[], [CHR 0x0A]}" "s = ds @ f @ u @ concat gs @ end_mark"
    by blast
  then have "concat gs @ end_mark \<in> set (after_head s)" "end_mark \<in> set (after_segments (concat gs @ end_mark))"
      "end_mark = [] \<or> end_mark = [CHR 0x0A]"
    unfolding after_head_iff after_segments_iff by blast+
  then show "go_duration s" by (auto simp: go_duration_def list_ex_iff)
qed

lemma units_no_semicolon: "u \<in> set GO_UNITS \<Longrightarrow> CHR '';'' \<notin> set u"
  by (auto simp: GO_UNITS_def)

lemma digits_no_semicolon:
  "list_all is_digit ds \<Longrightarrow> CHR '';'' \<notin> set ds" "list_all digit_or_dot ds \<Longrightarrow> CHR '';'' \<notin> set ds"
  by (auto simp: list_all_iff is_digit_def digit_or_dot_def)

lemma duration_no_semicolon: "go_duration s \<Longrightarrow> CHR '';'' \<notin> set s"
proof -
  assume "go_duration s"
  then obtain ds f u gs m where *: "list_all is_digit ds" "fraction_part f" "u \<in> set GO_UNITS"
      "list_all segment gs" "m \<in> {[], [CHR 0x0A]}" "s = ds @ f @ u @ concat gs @ m"
    unfolding go_duration_iff by blast
  have "CHR '';'' \<notin> set f" using *(2) digits_no_semicolon(1) by (auto simp: fraction_part_def)
  moreover have "CHR '';'' \<notin> set (concat gs)"
    using *(4) digits_no_semicolon(2) units_no_semicolon by (fastforce simp: list_all_iff segment_def)
  ultimately show ?thesis using * digits_no_semicolon(1) units_no_semicolon by auto
qed

section \<open>Reading the header back\<close>

text \<open>A reader of the header's grammar \<open><int>[; ttl=<duration>][; scope=<id>]\<close>\<close>

definition read_field :: "string \<Rightarrow> string \<Rightarrow> string option" where
  "read_field key rest =
     (let p = '' '' @ key @ ''='' in if starts_with p rest then Some (drop (length p) rest) else None)"

definition read_header :: "string \<Rightarrow> (int \<times> string option \<times> string option) option" where
  "read_header h =
     (case partition_at CHR '';'' h of (n, rest) \<Rightarrow>
      case int_of_str n of
        None \<Rightarrow> None
      | Some p \<Rightarrow>
          (case read_field ''ttl'' rest of
             None \<Rightarrow> Some (p, None, read_field ''scope'' rest)
           | Some t \<Rightarrow> (case partition_at CHR '';'' t of (ttl, rest') \<Rightarrow>
               Some (p, Some ttl, read_field ''scope'' rest'))))"

definition nonempty :: "string option \<Rightarrow> string option" where
  "nonempty x = (if given x then x else None)"

lemma partition_at_sep [simp]: "c \<notin> set a \<Longrightarrow> partition_at c (a @ c # b) = (a, b)"
  by (induction a) (auto simp: partition_at_def)

lemma partition_at_none [simp]: "c \<notin> set a \<Longrightarrow> partition_at c a = (a, [])"
  by (induction a) (auto simp: partition_at_def)

lemma str_int_no_semicolon: "CHR '';'' \<notin> set (str_int p)"
  using str_nat_digits digits_no_semicolon(1) by (auto simp: str_int_def)

text \<open>C34: the retention header can be read back: from the header the client builds, a reader of its
  grammar recovers the priority, the lease and the scope that were given (an empty string counts as
  not given), whatever characters the scope has.\<close>

theorem kv_header_roundtrip:
  assumes "kv_priority_header (Some p) ttl scope = Inr (Some h)"
  shows "read_header h = Some (p, nonempty ttl, nonempty scope)"
proof -
  have h: "h = str_int p @ header_part ''ttl'' ttl @ header_part ''scope'' scope"
      "given ttl \<Longrightarrow> CHR '';'' \<notin> set (the ttl)"
    using assms duration_no_semicolon by (auto simp: kv_priority_header_def split: if_splits)
  have scope: "read_field ''scope'' (drop 1 (header_part ''scope'' scope)) = nonempty scope"
    by (auto simp: header_part_def nonempty_def given_def read_field_def split: option.splits)
  show ?thesis
  proof (cases "given ttl")
    case True
    then obtain t where t: "ttl = Some t" "t \<noteq> []" "CHR '';'' \<notin> set t"
      using h(2) by (auto simp: given_def split: option.splits)
    have "partition_at CHR '';'' (t @ header_part ''scope'' scope) = (t, drop 1 (header_part ''scope'' scope))"
      using t(3) by (auto simp: header_part_def split: option.splits)
    then show ?thesis using t scope str_int_no_semicolon
      by (simp add: h(1) read_header_def header_part_def [of "''ttl''"] read_field_def [of "''ttl''"] nonempty_def given_def)
  next
    case False
    then have t: "header_part ''ttl'' ttl = []" "nonempty ttl = None"
      by (auto simp: header_part_def nonempty_def given_def split: option.splits)
    have "partition_at CHR '';'' h = (str_int p, drop 1 (header_part ''scope'' scope))"
      unfolding h(1) t(1) using str_int_no_semicolon by (auto simp: header_part_def split: option.splits)
    moreover have "read_field ''ttl'' (drop 1 (header_part ''scope'' scope)) = None"
      by (auto simp: header_part_def read_field_def split: option.splits)
    ultimately show ?thesis using scope t(2) by (simp add: read_header_def)
  qed
qed

theorem kv_header_roundtrip_witness:
  "kv_priority_header (Some 80) (Some ''1m30s'') (Some ''a; ttl=2s'') = Inr (Some ''80; ttl=1m30s; scope=a; ttl=2s'') \<and>
   read_header ''80; ttl=1m30s; scope=a; ttl=2s'' = Some (80, Some ''1m30s'', Some ''a; ttl=2s'')"
proof -
  have h: "kv_priority_header (Some 80) (Some ''1m30s'') (Some ''a; ttl=2s'') = Inr (Some ''80; ttl=1m30s; scope=a; ttl=2s'')"
    by code_simp
  from h kv_header_roundtrip [OF h] show ?thesis by (simp add: nonempty_def given_def)
qed

text \<open>The language of leases: a decimal number and a unit, then any number of segments of digits and
  dots, each with a unit, and possibly a final newline\<close>

definition duration_text :: "string \<Rightarrow> bool" where
  "duration_text t \<longleftrightarrow>
     (\<exists>ds f u gs end_mark. ds \<noteq> [] \<and> list_all is_digit ds \<and> fraction_part f \<and> u \<in> set GO_UNITS \<and>
        list_all segment gs \<and> end_mark \<in> {[], [CHR 0x0A]} \<and> t = ds @ f @ u @ concat gs @ end_mark)"

text \<open>The retention options that are refused: without a priority any lease or scope, with one a lease that
  is not in the language above. An empty string counts as not given.\<close>

definition retention_refused :: "int option \<Rightarrow> string option \<Rightarrow> string option \<Rightarrow> bool" where
  "retention_refused prio ttl scope \<longleftrightarrow>
     (if prio = None then \<not> (ttl \<in> {None, Some []} \<and> scope \<in> {None, Some []})
      else \<not> (ttl \<in> {None, Some []} \<or> duration_text (the ttl)))"

lemma given_iff: "given x \<longleftrightarrow> x \<notin> {None, Some []}"
  by (auto simp: given_def split: option.splits)

lemma kv_header_cases:
  "case kv_priority_header prio ttl scope of
     Inl e \<Rightarrow> e = UsageError \<and> retention_refused prio ttl scope
   | Inr h \<Rightarrow> \<not> retention_refused prio ttl scope \<and> (h = None \<longleftrightarrow> prio = None)"
proof -
  have d: "duration_text t = go_duration t" for t unfolding duration_text_def go_duration_iff by (rule refl)
  show ?thesis
    by (cases prio) (simp_all add: kv_priority_header_def retention_refused_def given_iff d)
qed

text \<open>C35: without a priority the header is refused, with a usage error, exactly when a lease or a scope is
  given, which would be dropped silently, and otherwise there is none. With a priority it is refused,
  with a usage error, exactly when a lease is given that is not in the language of the duration
  pattern; without a lease, or with one in the language, and whatever the scope, there is a header.
  The language is wider than Go's: a later segment may consist of dots, as in \<open>1s..h\<close>, and a final
  newline passes.\<close>

theorem kv_header_refusals:
  "kv_priority_header None ttl scope =
     (if ttl \<in> {None, Some []} \<and> scope \<in> {None, Some []} then Inr None else Inl UsageError) \<and>
   (if ttl \<in> {None, Some []} \<or> duration_text (the ttl)
    then \<exists>h. kv_priority_header (Some p) ttl scope = Inr (Some h)
    else kv_priority_header (Some p) ttl scope = Inl UsageError) \<and>
   duration_text ''1s..h'' \<and> duration_text [CHR ''3'', CHR ''s'', CHR 0x0A] \<and> \<not> duration_text ''90''"
proof -
  have d: "duration_text t = go_duration t" for t unfolding duration_text_def go_duration_iff by (rule refl)
  have "go_duration ''1s..h''" "go_duration [CHR ''3'', CHR ''s'', CHR 0x0A]" "\<not> go_duration ''90''" by code_simp+
  then show ?thesis
    using kv_header_cases [of None ttl scope] kv_header_cases [of "Some p" ttl scope]
    by (cases "kv_priority_header None ttl scope"; cases "kv_priority_header (Some p) ttl scope")
      (auto simp: d retention_refused_def split: if_splits)
qed

section \<open>The mix option\<close>

lemma float_of_str_error: "float_of_str w = Inl e \<Longrightarrow> e = ValueError"
  by (auto simp: float_of_str_def Let_def split: prod.splits if_splits option.splits)

lemma parse_parts_spec:
  assumes "rfold parse_part parts d = m" "d_ok d"
  shows "case m of Inl e \<Rightarrow> e = ValueError | Inr d' \<Rightarrow> d_ok d' \<and> (parts \<noteq> [] \<or> d \<noteq> [] \<longrightarrow> d' \<noteq> [])"
  using assms
proof (induction parts arbitrary: d)
  case (Cons part parts)
  obtain name fraction where p: "partition_at CHR ''='' part = (name, fraction)" by fastforce
  show ?case
  proof (cases "float_of_str fraction")
    case (Inl e)
    then have "parse_part part d = Inl ValueError" using float_of_str_error [OF Inl] by (simp add: parse_part_def p)
    then have "m = Inl ValueError" using Cons.prems(1) by simp
    then show ?thesis by simp
  next
    case (Inr x)
    let ?d = "d_set (strip name) x d"
    have "?d \<noteq> []" using set_d_keys_set [of "strip name" x d] by auto
    moreover have "parse_part part d = Inr ?d" by (simp add: parse_part_def p Inr)
    then have "rfold parse_part parts ?d = m" using Cons.prems(1) by simp
    ultimately show ?thesis using Cons.IH [of ?d] Cons.prems(2) by (auto split: sum.splits)
  qed
qed auto

text \<open>\<open>--mix\<close> either refuses its text with a usage error of click or returns fractions that the
  generator takes as they are: a nonempty dictionary of known classes, one fraction each, whose sum
  is not off one by more than \<open>1e-6\<close>. (A sum that is not a number is not refused: see
  \<open>nan_mix_accepted\<close>.)\<close>

lemma mix_option:
  "case parse_mix value of
     Inl e \<Rightarrow> e = BadParameter
   | Inr d \<Rightarrow> d \<noteq> [] \<and> d_ok d \<and> set (d_keys d) \<subseteq> set WORKLOAD_CLASSES \<and> effective_mix (Some d) = d \<and>
       \<not> rnd (1 / 10 ^ 6) < fabs (py_fsum (map snd d) - 1)"
proof (cases "rfold parse_part (split_on CHR '','' value) []")
  case (Inl e)
  then show ?thesis using parse_parts_spec [OF Inl] by (simp add: parse_mix_def)
next
  case (Inr d)
  have "d_ok d" "d \<noteq> []" using parse_parts_spec [OF Inr] by simp_all
  moreover have "set (d_keys d) \<subseteq> set WORKLOAD_CLASSES" if "unknown_classes d = []"
    using that by (auto simp: unknown_classes_def filter_empty_conv)
  ultimately show ?thesis by (auto simp: parse_mix_def Inr effective_mix_def)
qed

lemma nan_mix_accepted: "parse_mix ''tool=nan'' = Inr [(''tool'', NaN)]"
proof -
  have "float_of_str ''nan'' = Inr NaN" by code_simp
  moreover have "\<not> rnd (1 / 1000000) < NaN" by (cases "rnd (1 / 1000000)") simp_all
  ultimately show ?thesis
    by (simp add: parse_mix_def parse_part_def partition_at_def strip_def is_space_def d_set_def unknown_classes_def
        d_keys_def WORKLOAD_CLASSES_def py_fsum_def minus_pyfloat_def one_pyfloat_def zero_pyfloat_def fabs_def)
qed

text \<open>The text of a mix, from the text of each fraction\<close>

definition mix_text :: "(string \<times> string \<times> pyfloat) list \<Rightarrow> string" where
  "mix_text entries = join_with '','' (map (\<lambda>(name, t, x). name @ ''='' @ t) entries)"

lemma class_names: "name \<in> set WORKLOAD_CLASSES \<Longrightarrow>
    strip name = name \<and> CHR ''='' \<notin> set name \<and> CHR '','' \<notin> set name"
  by (auto simp: WORKLOAD_CLASSES_def strip_def is_space_def)

lemma parse_parts_entries:
  assumes "list_all (\<lambda>(name, t, x). name \<in> set WORKLOAD_CLASSES \<and> float_of_str t = Inr x) entries"
    and "distinct (d_keys d @ map fst entries)"
  shows "rfold parse_part (map (\<lambda>(name, t, x). name @ ''='' @ t) entries) d =
    Inr (d @ map (\<lambda>(name, t, x). (name, x)) entries)"
  using assms
proof (induction entries arbitrary: d)
  case (Cons entry entries)
  obtain name t x where e: "entry = (name, t, x)" by (cases entry)
  have n: "name \<in> set WORKLOAD_CLASSES" "float_of_str t = Inr x" using Cons.prems(1) e by simp_all
  then have "parse_part (name @ ''='' @ t) d = Inr (d @ [(name, x)])"
    using class_names [OF n(1)] Cons.prems(2) e update_append [of name d x] by (simp add: parse_part_def)
  moreover have "rfold parse_part (map (\<lambda>(name, t, x). name @ ''='' @ t) entries) (d @ [(name, x)]) =
      Inr ((d @ [(name, x)]) @ map (\<lambda>(name, t, x). (name, x)) entries)"
    using Cons.prems e by (intro Cons.IH) (auto simp: d_keys_def)
  ultimately show ?case by (simp add: e)
qed simp

text \<open>C36: printing a mix and parsing it gives the mix back: whichever way the fractions are written (any
  text that \<open>float\<close> reads as the fraction and that has no comma), the dictionary has the same
  classes with the same fractions, in the same order.\<close>

theorem mix_roundtrip:
  assumes "entries \<noteq> []" and "distinct (map fst entries)"
    and "list_all (\<lambda>(name, t, x). name \<in> set WORKLOAD_CLASSES \<and> float_of_str t = Inr x \<and> CHR '','' \<notin> set t) entries"
    and "fabs (py_fsum (map (\<lambda>e. snd (snd e)) entries) - 1) \<le> rnd (1 / 10 ^ 6)"
  shows "parse_mix (mix_text entries) = Inr (map (\<lambda>(name, t, x). (name, x)) entries)"
proof -
  let ?d = "map (\<lambda>(name, t, x). (name, x)) entries"
  have "list_all (\<lambda>p. CHR '','' \<notin> set p) (map (\<lambda>(name, t, x). name @ ''='' @ t) entries)"
    using assms(3) class_names by (fastforce simp: list_all_iff)
  then have "split_on CHR '','' (mix_text entries) = map (\<lambda>(name, t, x). name @ ''='' @ t) entries"
    unfolding mix_text_def using assms(1) by (intro split_on_join) simp_all
  moreover have "list_all (\<lambda>(name, t, x). name \<in> set WORKLOAD_CLASSES \<and> float_of_str t = Inr x) entries"
    using assms(3) by (auto simp: list_all_iff)
  moreover have "unknown_classes ?d = []"
    using assms(3) by (auto simp: unknown_classes_def filter_empty_conv list_all_iff d_keys_def)
  moreover have "map snd ?d = map (\<lambda>e. snd (snd e)) entries" by (simp add: split_beta)
  moreover have "\<not> rnd (1 / 10 ^ 6) < fabs (py_fsum (map (\<lambda>e. snd (snd e)) entries) - 1)"
    using assms(4)
    by (cases "fabs (py_fsum (map (\<lambda>e. snd (snd e)) entries) - 1)"; cases "rnd (1 / 10 ^ 6)") simp_all
  moreover have "rfold parse_part (map (\<lambda>(name, t, x). name @ ''='' @ t) entries) [] = Inr ?d"
    using parse_parts_entries [of entries "[]"] calculation(2) assms(2) by simp
  ultimately show ?thesis by (simp add: parse_mix_def del: map_map)
qed

theorem mix_roundtrip_witness:
  "parse_mix ''tool=1e0'' = Inr [(''tool'', Fin 1)]"
proof -
  have "scan_decimal ''1e0'' = Some 1" by code_simp
  then have "float_of_str ''1e0'' = Inr (Fin 1)"
    by (simp add: float_of_str_def strip_def is_space_def lower_char_def)
  moreover have "fabs (py_fsum [Fin 1] - 1) \<le> rnd (1 / 10 ^ 6)"
    using rnd_nonneg [of "1 / 10 ^ 6"] by (simp add: py_fsum_def minus_pyfloat_def one_pyfloat_def zero_pyfloat_def fabs_def)
  ultimately show ?thesis
    using mix_roundtrip [of "[(''tool'', ''1e0'', Fin 1)]"] by (simp add: mix_text_def WORKLOAD_CLASSES_def)
qed

section \<open>Presets\<close>

lemma preset_option_has: "d_has (preset_option is_default kv ps) k = d_has ps k"
  by (cases kv) (auto simp: preset_option_def d_has_iff set_d_keys_set)

lemma preset_option_get:
  "d_get (preset_option is_default (k', v) ps) k = (if k = k' \<and> d_has ps k \<and> is_default k then Some v else d_get ps k)"
  by (auto simp: preset_option_def d_get_set)

lemma d_get_Cons: "d_get ((k', v) # d) k = (if k = k' then Some v else d_get d k)"
  by (simp add: d_get_def)

lemma fold_preset:
  assumes "d_ok p"
  shows "d_get (fold (preset_option is_default) p ps) k =
    (if d_has ps k \<and> is_default k then (case d_get p k of None \<Rightarrow> d_get ps k | Some v \<Rightarrow> Some v) else d_get ps k)"
  using assms
proof (induction p arbitrary: ps)
  case (Cons kv p)
  obtain k' v where kv: "kv = (k', v)" by (cases kv)
  have p: "d_ok p" "k' \<notin> set (d_keys p)" using Cons.prems by (simp_all add: kv d_ok_def d_keys_def)
  then have "d_get p k' = None" by (simp add: d_get_None_iff)
  then show ?case using Cons.IH [OF p(1), of "preset_option is_default kv ps"]
    by (auto simp: kv preset_option_has preset_option_get d_get_Cons split: option.splits)
qed simp

lemma preset_tables:
  "d_get ONLINE_PRESETS name = Some p \<Longrightarrow> d_ok p" "d_get OFFLINE_PRESETS name = Some p \<Longrightarrow> d_ok p"
  by (auto simp: ONLINE_PRESETS_def OFFLINE_PRESETS_def d_get_def d_ok_def d_keys_def split: if_splits)

lemma apply_preset_get:
  assumes "presets = ONLINE_PRESETS \<or> presets = OFFLINE_PRESETS"
  shows "d_get (apply_preset is_default preset presets ps) k =
    (case d_get ps k of
       None \<Rightarrow> None
     | Some old \<Rightarrow>
         if is_default k
         then (case preset of
                 None \<Rightarrow> Some old
               | Some name \<Rightarrow>
                   (case d_get presets name of
                      None \<Rightarrow> Some old
                    | Some p \<Rightarrow> (case d_get p k of None \<Rightarrow> Some old | Some v \<Rightarrow> Some v)))
         else Some old)"
proof -
  have "d_get presets [] = None" using assms by (auto simp: ONLINE_PRESETS_def OFFLINE_PRESETS_def d_get_def)
  moreover have "d_has ps k = (d_get ps k \<noteq> None)" by (simp add: d_has_iff d_get_None_iff)
  moreover have "d_ok p" if "d_get presets name = Some p" for name p
    using assms that preset_tables by blast
  ultimately show ?thesis
    by (auto simp: apply_preset_def fold_preset split: option.splits)
qed

text \<open>A preset only fills in defaults: after it was applied, an option the user gave has the value
  the user gave; an option left at its default has the preset's value if the preset names it; every
  other one keeps its default; and options the command does not have are not invented.\<close>

lemma presets_respect_explicit_options:
  assumes "presets = ONLINE_PRESETS \<or> presets = OFFLINE_PRESETS"
  shows "d_get (apply_preset is_default preset presets ps) k =
    (case d_get ps k of
       None \<Rightarrow> None
     | Some old \<Rightarrow>
         if is_default k
         then (case preset of
                 None \<Rightarrow> Some old
               | Some name \<Rightarrow>
                   (case d_get presets name of
                      None \<Rightarrow> Some old
                    | Some p \<Rightarrow> (case d_get p k of None \<Rightarrow> Some old | Some v \<Rightarrow> Some v)))
         else Some old)"
  by (rule apply_preset_get [OF assms])

section \<open>The measures of a live route\<close>

lemma percent_of_fraction: "0 \<le> x \<Longrightarrow> x \<le> 1 \<Longrightarrow> 0 \<le> x * Fin 100 \<and> x * Fin 100 \<le> Fin 100"
proof (cases x)
  case (Fin q)
  assume "0 \<le> x" "x \<le> 1"
  then have q: "0 \<le> q" "q \<le> 1" using Fin by (simp_all add: zero_pyfloat_def one_pyfloat_def)
  have "rnd 100 = Fin 100" using rnd_of_int [of 100] by simp
  then have "rnd (q * 100) \<le> Fin 100" using rnd_le_Fin [of "q * 100" 100] q by simp
  then show ?thesis using rnd_nonneg [of "q * 100"] q Fin by (simp add: zero_pyfloat_def)
qed (simp_all add: zero_pyfloat_def one_pyfloat_def)

text \<open>What \<open>report\<close> computes for a route: when the cumulative counters only grow and hits grow by
  at most the queries, the hit rate of the run is a fraction; the success rate is a percentage, and
  no division by zero happens when no request was sent or no query was counted.\<close>

lemma live_rates_are_fractions:
  assumes "0 \<le> hits_after - hits_before" and "hits_after - hits_before \<le> queries_after - queries_before"
    and "finite_f (queries_after - queries_before)"
    and "0 \<le> b_successes result" and "0 \<le> b_errors result"
  shows "\<exists>h m. hit_delta (hits_before, queries_before) (hits_after, queries_after) = Inr h \<and> 0 \<le> h \<and> h \<le> 1 \<and>
    route_metrics percentile result = Inr m \<and> 0 \<le> rm_success_rate m \<and> rm_success_rate m \<le> Fin 100 \<and>
    rm_requests m = b_successes result + b_errors result"
proof -
  obtain a b where ab: "hits_after - hits_before = Fin a" "queries_after - queries_before = Fin b" "0 \<le> a" "a \<le> b"
    using assms(1-3)
    by (cases "hits_after - hits_before"; cases "queries_after - queries_before") (auto simp: zero_pyfloat_def)
  have "\<exists>h. hit_delta (hits_before, queries_before) (hits_after, queries_after) = Inr h \<and> 0 \<le> h \<and> h \<le> 1"
  proof (cases "b = 0")
    case False
    have "rnd (a / b) \<le> Fin 1" using rnd_le_Fin [of "a / b" 1] ab(3,4) False by simp
    then show ?thesis using ab False rnd_nonneg [of "a / b"]
      by (simp add: hit_delta_def fdiv_def zero_pyfloat_def one_pyfloat_def)
  qed (simp add: hit_delta_def ab zero_pyfloat_def one_pyfloat_def)
  moreover have "\<exists>m. route_metrics percentile result = Inr m \<and> 0 \<le> rm_success_rate m \<and> rm_success_rate m \<le> Fin 100 \<and>
      rm_requests m = b_successes result + b_errors result"
  proof (cases "0 < b_successes result + b_errors result")
    case True
    obtain x where "int_div (b_successes result) (b_successes result + b_errors result) = Inr x" "0 \<le> x" "x \<le> 1"
      using int_div_fraction [of "b_successes result" "b_successes result + b_errors result"] assms(4,5) True by auto
    then show ?thesis using True percent_of_fraction [of x] by (simp add: route_metrics_def Let_def)
  qed (simp add: route_metrics_def Let_def zero_pyfloat_def)
  ultimately show ?thesis by blast
qed

section \<open>The results of a simulation\<close>

definition result_ok :: "TurnRequest list \<Rightarrow> string \<times> SimResult \<Rightarrow> bool" where
  "result_ok reqs = (\<lambda>(name, r). counted reqs r \<and> sliced reqs r \<and> gap_by_tool r = tool_gaps reqs \<and>
     (name \<in> set ORACLE_BASELINES \<longrightarrow> regrets r = replicate (length reqs) 0))"

lemma build_policy_oracle: "name \<in> set ORACLE_BASELINES \<Longrightarrow> build_policy name margin = Inr Oracle"
  by (auto simp: ORACLE_BASELINES_def build_policy_def BELADY_POLICIES_def)

lemma simulate_policies_spec:
  assumes "list_all (request_ok (sim_cost_params opts)) reqs"
    and "simulate_policies reqs opts names results = Some (Inr results')"
    and "d_ok results" "list_all (result_ok reqs) results"
  shows "d_ok results' \<and> set (d_keys results') = set (d_keys results) \<union> set names \<and> list_all (result_ok reqs) results'"
  using assms(2-)
proof (induction names arbitrary: results)
  case (Cons name names)
  obtain policy where policy: "build_policy name (o_retain_margin opts) = Inr policy"
    using Cons.prems(1) by (auto split: sum.splits)
  obtain r where r: "run_simulation reqs policy_call policy (o_nodes opts) (o_cache_blocks opts)
        (sim_cost_params opts) (uses_belady name) = Some (Inr r)"
      "simulate_policies reqs opts names (d_set name r results) = Some (Inr results')"
    using Cons.prems(1) policy by (auto split: option.splits sum.splits)
  have "accounts reqs r" using registry.run_simulation_accounts [OF assms(1) r(1)] by simp
  moreover have "regrets r = replicate (length reqs) 0" if "name \<in> set ORACLE_BASELINES"
    using oracle_regrets [OF assms(1)] r(1) policy build_policy_oracle [OF that] by simp
  ultimately have "result_ok reqs (name, r)"
    using run_simulation_gaps [OF r(1)] by (simp add: result_ok_def accounts_def)
  then have "list_all (result_ok reqs) (d_set name r results)"
    using Cons.prems(3) by (intro list_all_d_set)
  from Cons.IH [OF r(2) _ this] Cons.prems(2) show ?case by (simp add: set_d_keys_set)
qed simp

text \<open>C37: \<open>simulate\<close> compares the policies on one and the same stream: when it returns, it has exactly
  one result for each policy that was asked for, however often it was named, the books of each
  balance against the generated stream, and both oracle baselines have zero regret throughout. The
  gaps observed per tool are a function of the stream alone, so it does not matter from which of the
  results the report takes them.\<close>

theorem simulated_policies:
  assumes "list_all (request_ok (sim_cost_params opts)) reqs"
    and "simulate_policies reqs opts names [] = Some (Inr results)"
  shows "distinct (d_keys results) \<and> set (d_keys results) = set names \<and>
    (\<forall>(name, r) \<in> set results. counted reqs r \<and> sliced reqs r \<and> gap_by_tool r = tool_gaps reqs \<and>
       (name \<in> set ORACLE_BASELINES \<longrightarrow> regrets r = replicate (length reqs) 0))"
  using simulate_policies_spec [OF assms] by (simp add: list_all_iff result_ok_def d_ok_def)

definition demo_options :: sim_options where
  "demo_options =
     \<lparr>o_nodes = 2, o_sessions = 2, o_turns = 2, o_qps = Fin 4, o_burst_cv = Fin 1, o_mix = [(''tool'', Fin 1)],
      o_tool_reliability = False, o_tool_result_tokens = 64, o_think_time = Fin 2, o_rag_docs = 16,
      o_rag_doc_tokens = 1024, o_rag_zipf = Fin 1, o_block_size = DEFAULT_BLOCK_SIZE, o_bandwidth = Fin 4000000000,
      o_cache_blocks = 4, o_retain_margin = Fin 1, o_seed = 0\<rparr>"

theorem simulated_policies_witness:
  "\<exists>r. simulate_policies demo_stream demo_options [''oracle'', ''oracle''] [] = Some (Inr [(''oracle'', r)]) \<and>
     regrets r = [0, 0]"
proof -
  obtain r where r: "run_simulation demo_stream policy_call Oracle 2 4 default_params False = Some (Inr r)"
    using demo_run by blast
  have o: "sim_cost_params demo_options = default_params" "o_nodes demo_options = 2" "o_cache_blocks demo_options = 4"
    by (simp_all add: sim_cost_params_def demo_options_def default_params_def)
  have "build_policy ''oracle'' m = Inr Oracle" for m by (simp add: build_policy_oracle ORACLE_BASELINES_def)
  moreover have "\<not> uses_belady ''oracle''" by (simp add: uses_belady_def BELADY_POLICIES_def)
  ultimately have s: "simulate_policies demo_stream demo_options [''oracle'', ''oracle''] [] = Some (Inr [(''oracle'', r)])"
    using r o by (simp add: d_set_def)
  from simulated_policies [OF _ s] o demo_stream_ok(1) have "regrets r = replicate (length demo_stream) 0"
    by (simp add: ORACLE_BASELINES_def)
  with s show ?thesis by (simp add: demo_stream_def)
qed

end
