(* ===== verification/Options_Runs.thy ===== *)
theory Options_Runs
  imports Options Cli_Runs
begin

text \<open>
  What the option tables guarantee: presets keep every parameter in its declared type, the commands
  find every parameter they read, and a live run accounts for the traffic the options ask for.
\<close>

section \<open>Reading declared options\<close>

lemma conforms_get:
  assumes "conforms options ps" "option \<in> set options"
  shows "\<exists>v. d_get ps (opt_name option) = Some v \<and> fits option v"
  using assms by (auto simp: conforms_def list_all_iff split: option.splits dest!: bspec)

lemma param_returns: "d_get ps k = Some v \<Longrightarrow> get v \<noteq> None \<Longrightarrow> returns (param get ps k)"
  by (auto simp: param_def returns_iff)

lemma opt_fields [simp]:
  "opt_name (opt k t d) = k" "opt_type (opt k t d) = t" "opt_default (opt k t d) = d"
  "opt_required (opt k t d) = False" "opt_multiple (opt k t d) = False"
  by (simp_all add: opt_def)

lemma conforms_param:
  assumes "conforms options ps" "opt k t d \<in> set options" "d \<noteq> VNone"
  obtains v where "d_get ps k = Some v" "has_type t v"
  using conforms_get [OF assms(1,2)] assms(3) by (auto simp: fits_def)

lemma int_param: "conforms options ps \<Longrightarrow> opt_int k i \<in> set options \<Longrightarrow> returns (param int_value ps k)"
  unfolding opt_int_def by (erule conforms_param) (auto simp: has_type_def intro: param_returns)

lemma float_param: "conforms options ps \<Longrightarrow> opt_float k x \<in> set options \<Longrightarrow> returns (param float_value ps k)"
  unfolding opt_float_def by (erule conforms_param) (auto simp: has_type_def intro: param_returns)

lemma flag_param: "conforms options ps \<Longrightarrow> opt_flag k \<in> set options \<Longrightarrow> returns (param bool_value ps k)"
  unfolding opt_flag_def by (erule conforms_param) (auto simp: has_type_def intro: param_returns)

lemma str_param:
  "conforms options ps \<Longrightarrow> opt k T_Str (VStr s) \<in> set options \<Longrightarrow> returns (param str_value ps k)"
  by (erule conforms_param) (auto simp: has_type_def intro: param_returns)

lemma choice_param:
  "conforms options ps \<Longrightarrow> opt k (T_Choice cs) (VStr s) \<in> set options \<Longrightarrow> returns (param str_value ps k)"
  by (erule conforms_param) (auto simp: has_type_def intro: param_returns split: option.splits)

lemma opt_param:
  assumes "conforms options ps" "opt k t VNone \<in> set options"
    and "t = T_Str \<or> (\<exists>cs. t = T_Choice cs)"
  shows "returns (param (or_none str_value) ps k)"
proof -
  obtain v where "d_get ps k = Some v" "v = VNone \<or> has_type t v"
    using conforms_get [OF assms(1,2)] by (auto simp: fits_def)
  with assms(3) show ?thesis
    by (intro param_returns) (auto simp: has_type_def or_none_def split: option.splits)
qed

lemma range_param:
  assumes "conforms options ps" "opt k (T_Range a b) VNone \<in> set options"
  shows "returns (param (or_none int_value) ps k)"
proof -
  obtain v where "d_get ps k = Some v" "v = VNone \<or> has_type (T_Range a b) v"
    using conforms_get [OF assms(1,2)] by (auto simp: fits_def)
  then show ?thesis
    by (intro param_returns) (auto simp: has_type_def or_none_def split: option.splits)
qed

lemma strs_param:
  assumes "conforms options ps" "(opt k (T_Choice cs) d)\<lparr>opt_multiple := True\<rparr> \<in> set options"
  shows "\<exists>ss. param strs_value ps k = Inr ss \<and> set ss \<subseteq> set cs"
proof -
  obtain v where v: "d_get ps k = Some v" "fits ((opt k (T_Choice cs) d)\<lparr>opt_multiple := True\<rparr>) v"
    using conforms_get [OF assms] by auto
  then obtain ss where "v = VStrs ss" by (auto simp: fits_def split: option_value.splits)
  with v show ?thesis
    by (auto simp: fits_def param_def strs_value_def has_type_def str_value_def list_all_iff)
qed

lemma mix_param:
  assumes "conforms options ps" "opt k T_Mix (VStr s) \<in> set options"
  shows "\<exists>d. param mix_value ps k = Inr d \<and> mix_ok d"
  using assms by (rule conforms_param) (auto simp: has_type_def param_def split: option.splits)

section \<open>Presets keep the declared types\<close>

lemma mix_experiment_ok:
  "mix_ok [(''tool'', Fin (1 / 2)), (''rag'', rnd (3 / 10)), (''oneshot'', rnd (2 / 10))]"
proof -
  have u: "unknown_classes [(''tool'', Fin (1 / 2)), (''rag'', x), (''oneshot'', y)] = []" for x y
    by (simp add: unknown_classes_def d_keys_def WORKLOAD_CLASSES_def)
  have "\<not> rnd (1 / 10 ^ 6) < fabs (py_fsum [Fin (1 / 2), rnd (3 / 10), rnd (2 / 10)] - 1)"
    by (simp add: py_fsum_def fabs_def minus_pyfloat_def one_pyfloat_def zero_pyfloat_def Let_def flt_eval)
  with u show ?thesis by (simp add: mix_ok_def)
qed

definition presets_typed :: "click_option list \<Rightarrow> (string, params) pydict \<Rightarrow> bool" where
  "presets_typed options presets \<longleftrightarrow>
     list_all (\<lambda>(name, p). list_all (\<lambda>(k, v). list_all (\<lambda>option. opt_name option = k \<longrightarrow> fits option v) options) p) presets"

lemmas option_eval =
  workload_option_def preset_choice_def opt_int_def opt_float_def opt_flag_def fits_def has_type_def
  int_value_def float_value_def str_value_def bool_value_def mix_value_def

lemma online_typed:
  "presets_typed traffic_options ONLINE_PRESETS" "presets_typed report_options ONLINE_PRESETS"
  by (simp_all add: presets_typed_def traffic_options_def report_options_def ONLINE_PRESETS_def option_eval) blast

lemma offline_typed: "presets_typed simulate_options OFFLINE_PRESETS"
  using mix_experiment_ok
  by (simp add: presets_typed_def simulate_options_def OFFLINE_PRESETS_def option_eval) blast

lemma preset_entry_fits:
  assumes "presets_typed options presets" "d_get presets name = Some p" "d_get p k = Some v"
    and "option \<in> set options" "opt_name option = k"
  shows "fits option v"
proof -
  have "(name, p) \<in> set presets" "(k, v) \<in> set p"
    using assms(2,3) by (simp_all add: d_get_mem)
  with assms(1,4,5) show ?thesis by (fastforce simp: presets_typed_def list_all_iff)
qed

lemma presets_keep:
  assumes "conforms options ps" "presets_typed options presets"
    and "presets = ONLINE_PRESETS \<or> presets = OFFLINE_PRESETS"
  shows "conforms options (apply_preset is_default preset presets ps)"
  unfolding conforms_def list_all_iff
proof
  fix option assume o: "option \<in> set options"
  obtain old where old: "d_get ps (opt_name option) = Some old" "fits option old"
    using conforms_get [OF assms(1) o] by blast
  then show "case d_get (apply_preset is_default preset presets ps) (opt_name option) of
      None \<Rightarrow> False | Some v \<Rightarrow> fits option v"
    by (auto simp: apply_preset_get [OF assms(3)] split: option.splits
        intro: preset_entry_fits [OF assms(2) _ _ o])
qed

section \<open>The commands read what they need\<close>

lemmas reads =
  int_param float_param flag_param str_param choice_param opt_param range_param

lemma simulate_members:
  "opt_int ''nodes'' 4 \<in> set simulate_options" "opt_int ''sessions'' 200 \<in> set simulate_options"
  "opt_int ''turns'' 6 \<in> set simulate_options" "opt_int ''tool_result_tokens'' 64 \<in> set simulate_options"
  "opt_float ''think_time'' (Fin 2) \<in> set simulate_options" "opt_float ''qps'' (Fin 10) \<in> set simulate_options"
  "opt_float ''burst_cv'' (Fin 1) \<in> set simulate_options" "opt_int ''rag_docs'' 16 \<in> set simulate_options"
  "opt ''mix'' T_Mix (VStr ''tool=1.0'') \<in> set simulate_options"
  "opt_int ''rag_doc_tokens'' 1024 \<in> set simulate_options"
  "opt_float ''rag_zipf'' (rnd (11 / 10)) \<in> set simulate_options"
  "opt_int ''block_size'' 16 \<in> set simulate_options"
  "opt_float ''bandwidth'' (Fin 4000000000) \<in> set simulate_options"
  "opt_int ''cache_blocks'' 2048 \<in> set simulate_options" "opt_flag ''tool_reliability'' \<in> set simulate_options"
  "opt_float ''retain_margin'' DEFAULT_RETAIN_MARGIN \<in> set simulate_options"
  "opt_int ''seed'' 0 \<in> set simulate_options"
  "opt ''preset'' (T_Choice [''fast'', ''experiment'']) VNone \<in> set simulate_options"
  "(opt ''policies'' (T_Choice POLICY_NAMES) (VStrs POLICY_NAMES))\<lparr>opt_multiple := True\<rparr> \<in> set simulate_options"
  by (simp_all add: simulate_options_def preset_choice_def)

lemma rbind_returns: "returns m \<Longrightarrow> (\<And>x. returns (f x)) \<Longrightarrow> returns (rbind m f)"
  by (auto simp: returns_iff)

lemma known_policies: "name \<in> set POLICY_NAMES \<Longrightarrow> returns (build_policy name m)"
proof -
  have "list_all (\<lambda>name. returns (build_policy name m)) POLICY_NAMES"
    by (simp add: POLICY_NAMES_def build_policy_def BELADY_POLICIES_def)
  then show "name \<in> set POLICY_NAMES \<Longrightarrow> returns (build_policy name m)" by (simp add: list_all_iff)
qed

lemma returnsE: "returns m \<Longrightarrow> (\<And>x. m = Inr x \<Longrightarrow> P) \<Longrightarrow> P"
  by (auto simp: returns_iff)

lemma simulate_reads:
  assumes "conforms simulate_options ps"
  shows "\<exists>preset policies opts. simulate_args ps = Inr (preset, policies, opts) \<and> set policies \<subseteq> set POLICY_NAMES \<and>
    (\<forall>opts0. \<exists>opts'. reread_options ps opts0 = Inr opts' \<and> mix_ok (o_mix opts'))"
proof -
  obtain policies where p: "param strs_value ps ''policies'' = Inr policies" "set policies \<subseteq> set POLICY_NAMES"
    using strs_param [OF assms simulate_members(19)] by blast
  obtain mix where m: "param mix_value ps ''mix'' = Inr mix" "mix_ok mix"
    using mix_param [OF assms simulate_members(9)] by blast
  obtain preset where pr: "param (or_none str_value) ps ''preset'' = Inr preset"
    using opt_param [OF assms simulate_members(18)] by (auto simp: returns_iff)
  note i = simulate_members(1-4,8,10,12,14,17) [THEN int_param [OF assms], unfolded returns_iff]
  note f = simulate_members(5-7,11,13,16) [THEN float_param [OF assms], unfolded returns_iff]
  note b = simulate_members(15) [THEN flag_param [OF assms], unfolded returns_iff]
  obtain i1 i2 i3 i4 i5 i6 i7 i8 i9 where ii: "param int_value ps ''nodes'' = Inr i1"
      "param int_value ps ''sessions'' = Inr i2" "param int_value ps ''turns'' = Inr i3"
      "param int_value ps ''tool_result_tokens'' = Inr i4" "param int_value ps ''rag_docs'' = Inr i5"
      "param int_value ps ''rag_doc_tokens'' = Inr i6" "param int_value ps ''block_size'' = Inr i7"
      "param int_value ps ''cache_blocks'' = Inr i8" "param int_value ps ''seed'' = Inr i9"
    using i by metis
  obtain f1 f2 f3 f4 f5 f6 b1 where ff: "param float_value ps ''think_time'' = Inr f1"
      "param float_value ps ''qps'' = Inr f2" "param float_value ps ''burst_cv'' = Inr f3"
      "param float_value ps ''rag_zipf'' = Inr f4" "param float_value ps ''bandwidth'' = Inr f5"
      "param float_value ps ''retain_margin'' = Inr f6" "param bool_value ps ''tool_reliability'' = Inr b1"
    using f b by metis
  show ?thesis using p m by (simp add: simulate_args_def reread_options_def pr ii ff)
qed

lemma traffic_members:
  "opt_int ''requests'' 100 \<in> set traffic_options" "opt_int ''concurrency'' 10 \<in> set traffic_options"
  "opt_int ''sessions'' 50 \<in> set traffic_options" "opt_int ''turns'' 6 \<in> set traffic_options"
  "opt_int ''seed'' 0 \<in> set traffic_options" "opt_float ''qps'' (Fin 5) \<in> set traffic_options"
  "opt_flag ''tool_reliability'' \<in> set traffic_options"
  "opt ''gateway_url'' T_Str (VStr GATEWAY_URL) \<in> set traffic_options"
  "opt ''workload'' (T_Choice [''single-shot'', ''sessions'']) (VStr ''single-shot'') \<in> set traffic_options"
  "opt ''kv_priority'' (T_Range MIN_PRIORITY MAX_PRIORITY) VNone \<in> set traffic_options"
  "opt ''kv_ttl'' T_Str VNone \<in> set traffic_options" "opt ''kv_scope'' T_Str VNone \<in> set traffic_options"
  "opt ''preset'' (T_Choice [''fast'', ''experiment'']) VNone \<in> set traffic_options"
  "(opt ''route'' (T_Choice ROUTES) VNone)\<lparr>opt_required := True\<rparr> \<in> set traffic_options"
  by (simp_all add: traffic_options_def workload_option_def preset_choice_def)

lemma route_param:
  assumes "conforms traffic_options ps"
  shows "\<exists>route \<in> set ROUTES. param str_value ps ''route'' = Inr route"
proof -
  obtain v where "d_get ps ''route'' = Some v" "has_type (T_Choice ROUTES) v"
    using conforms_get [OF assms traffic_members(14)] by (auto simp: fits_def opt_def)
  then show ?thesis by (auto simp: has_type_def param_def split: option.splits)
qed

text \<open>What the parameters of \<open>traffic\<close> ask for: the retention options, the number of single requests and the
  seed are read before the preset, the others after it.\<close>

definition traffic_asks ::
    "(string \<Rightarrow> bool) \<Rightarrow> params \<Rightarrow> string \<times> string \<times> int \<times> int \<Rightarrow> int option \<times> string option \<times> string option \<Rightarrow>
     string \<times> int \<times> int \<times> pyfloat \<times> int \<times> bool \<Rightarrow> bool" where
  "traffic_asks is_default ps = (\<lambda>(route, url, n, seed) (prio, ttl, scope) (w, s, t, qps, c, rel).
     param str_value ps ''route'' = Inr route \<and> param str_value ps ''gateway_url'' = Inr url \<and>
     param int_value ps ''requests'' = Inr n \<and> param int_value ps ''seed'' = Inr seed \<and>
     param (or_none int_value) ps ''kv_priority'' = Inr prio \<and> param (or_none str_value) ps ''kv_ttl'' = Inr ttl \<and>
     param (or_none str_value) ps ''kv_scope'' = Inr scope \<and>
     (case param (or_none str_value) ps ''preset'' of
        Inl e \<Rightarrow> False
      | Inr preset \<Rightarrow>
          let ps' = apply_preset is_default preset ONLINE_PRESETS ps in
          param str_value ps' ''workload'' = Inr w \<and> param int_value ps' ''sessions'' = Inr s \<and>
          param int_value ps' ''turns'' = Inr t \<and> param float_value ps' ''qps'' = Inr qps \<and>
          param int_value ps' ''concurrency'' = Inr c \<and> param bool_value ps' ''tool_reliability'' = Inr rel))"

lemma traffic_reads:
  assumes "conforms traffic_options ps"
  obtains route url n seed prio ttl scope w s t qps c rel where "route \<in> set ROUTES"
    "traffic_asks is_default ps (route, url, n, seed) (prio, ttl, scope) (w, s, t, qps, c, rel)"
    "traffic_main L is_default ps v =
      rbind (kv_priority_header prio ttl scope) (\<lambda>header.
        rbind (run_route L w n qps s t seed rel v) (\<lambda>(plan, v'). Inr (route, url, header, c, plan, v')))"
proof -
  obtain route where route: "route \<in> set ROUTES" "param str_value ps ''route'' = Inr route"
    using route_param [OF assms] by blast
  obtain n seed where n: "param int_value ps ''requests'' = Inr n" "param int_value ps ''seed'' = Inr seed"
    using traffic_members(1,5) [THEN int_param [OF assms], unfolded returns_iff] by metis
  obtain url where url: "param str_value ps ''gateway_url'' = Inr url"
    using str_param [OF assms traffic_members(8)] by (auto simp: returns_iff)
  obtain prio where prio: "param (or_none int_value) ps ''kv_priority'' = Inr prio"
    using range_param [OF assms traffic_members(10)] by (auto simp: returns_iff)
  obtain ttl scope preset where o: "param (or_none str_value) ps ''kv_ttl'' = Inr ttl"
      "param (or_none str_value) ps ''kv_scope'' = Inr scope" "param (or_none str_value) ps ''preset'' = Inr preset"
    using traffic_members(11-13) [THEN opt_param [OF assms], unfolded returns_iff] by blast
  let ?ps = "apply_preset is_default preset ONLINE_PRESETS ps"
  have keep: "conforms traffic_options ?ps" by (intro presets_keep [OF assms online_typed(1)]) simp
  note i = traffic_members(2-4) [THEN int_param [OF keep], unfolded returns_iff]
  obtain c s t qps rel w where p: "param int_value ?ps ''concurrency'' = Inr c"
      "param int_value ?ps ''sessions'' = Inr s" "param int_value ?ps ''turns'' = Inr t"
      "param float_value ?ps ''qps'' = Inr qps" "param bool_value ?ps ''tool_reliability'' = Inr rel"
      "param str_value ?ps ''workload'' = Inr w"
    using i float_param [OF keep traffic_members(6), unfolded returns_iff]
      flag_param [OF keep traffic_members(7), unfolded returns_iff]
      choice_param [OF keep traffic_members(9), unfolded returns_iff] by metis
  have "traffic_asks is_default ps (route, url, n, seed) (prio, ttl, scope) (w, s, t, qps, c, rel)"
    by (simp add: traffic_asks_def route n url prio o p)
  moreover have "traffic_main L is_default ps v =
      rbind (kv_priority_header prio ttl scope) (\<lambda>header.
        rbind (run_route L w n qps s t seed rel v) (\<lambda>(plan, v'). Inr (route, url, header, c, plan, v')))"
    by (cases "kv_priority_header prio ttl scope"; cases "run_route L w n qps s t seed rel v")
      (simp_all add: traffic_main_def traffic_command_def Let_def route n url prio o p split_beta)
  ultimately show thesis using that route(1) by blast
qed

text \<open>What \<open>_run_route\<close> drives: the stream of the generator, or the single requests\<close>

lemma sessions_account:
  assumes "generate_sessions L s t qps gp v = Inr (reqs, v')" "drive_plan shots chats c (Replay reqs) (Inr r)"
  shows "accounts_for (nat s * nat t) r"
  using run_session_accounts [of reqs c chats r] session_stream_length [OF assms(1)] assms(2)
  by (simp add: drive_plan_def)

lemma shots_account: "drive_plan shots chats c (Single_Shots n qps) (Inr r) \<Longrightarrow> accounts_for (nat n) r"
  using run_single_accounts by (simp add: drive_plan_def)

section \<open>Defaults\<close>

lemma default_mix: "parse_mix ''tool=1.0'' = Inr [(''tool'', Fin 1)]"
proof -
  have "scan_decimal ''1.0'' = Some 1" by code_simp
  then have "float_of_str ''1.0'' = Inr (Fin 1)"
    by (simp add: float_of_str_def strip_def is_space_def lower_char_def)
  moreover have "\<not> rnd (1 / 1000000) < fabs (Fin 1 - Fin 1)"
    by (simp add: minus_pyfloat_def fabs_def flt_eval)
  ultimately show ?thesis
    by (simp add: parse_mix_def parse_part_def partition_at_def strip_def is_space_def d_set_def unknown_classes_def
        d_keys_def WORKLOAD_CLASSES_def py_fsum_def one_pyfloat_def zero_pyfloat_def)
qed

lemma mix_all_tool_ok: "mix_ok [(''tool'', Fin 1)]"
  using mix_option [of "''tool=1.0''"] by (simp add: default_mix mix_ok_def unknown_classes_def d_keys_def WORKLOAD_CLASSES_def)

definition simulate_defaults :: params where
  "simulate_defaults =
     (case default_values simulate_options of Inr ps \<Rightarrow> ps | Inl e \<Rightarrow> [])"

lemma simulate_defaults_eq: "default_values simulate_options = Inr simulate_defaults"
  by (simp add: simulate_defaults_def default_values_def simulate_options_def default_value_def default_mix
      opt_def opt_int_def opt_float_def opt_flag_def preset_choice_def)

lemma default_values_get:
  assumes "default_values options = Inr ps" "distinct (map opt_name options)" "option \<in> set options"
  shows "\<exists>v. default_value option = Inr (opt_name option, v) \<and> d_get ps (opt_name option) = Some v"
  using assms
proof (induction options arbitrary: ps)
  case (Cons a options)
  from Cons.prems(1) obtain x qs where x: "default_value a = Inr x" "default_values options = Inr qs" "ps = x # qs"
    by (auto simp: default_values_def)
  have name: "fst x = opt_name a" using x(1) by (auto simp: default_value_def split: if_splits option_value.splits)
  show ?case
  proof (cases "option = a")
    case True
    then show ?thesis using x name by (cases x) (auto simp: d_get_def)
  next
    case False
    then have o: "option \<in> set options" using Cons.prems(3) by simp
    then have "opt_name option \<noteq> opt_name a" using Cons.prems(2) by (metis distinct.simps(2) image_eqI list.set_map list.simps(9))
    then show ?thesis using Cons.IH [OF x(2) _ o] Cons.prems(2) x(3) name by (auto simp: d_get_def)
  qed
qed simp

lemma default_conforms:
  assumes "default_values options = Inr ps" "distinct (map opt_name options)"
    and "list_all (\<lambda>option. case default_value option of Inl e \<Rightarrow> False | Inr (k, v) \<Rightarrow> fits option v) options"
  shows "conforms options ps"
  using default_values_get [OF assms(1,2)] assms(3) by (fastforce simp: conforms_def list_all_iff)

lemma simulate_defaults_ok: "conforms simulate_options simulate_defaults"
proof (rule default_conforms [OF simulate_defaults_eq])
  show "distinct (map opt_name simulate_options)"
    by (simp add: simulate_options_def preset_choice_def opt_int_def opt_float_def opt_flag_def)
  show "list_all (\<lambda>option. case default_value option of Inl e \<Rightarrow> False | Inr (k, v) \<Rightarrow> fits option v) simulate_options"
    using mix_all_tool_ok
    by (simp add: simulate_options_def default_value_def default_mix option_eval POLICY_NAMES_def)
qed

section \<open>The live report\<close>

lemma report_members:
  "opt_int ''requests'' 100 \<in> set report_options" "opt_int ''concurrency'' 10 \<in> set report_options"
  "opt_int ''sessions'' 50 \<in> set report_options" "opt_int ''turns'' 6 \<in> set report_options"
  "opt_int ''seed'' 0 \<in> set report_options" "opt_float ''qps'' (Fin 5) \<in> set report_options"
  "opt_float ''settle'' (Fin 35) \<in> set report_options"
  "opt ''workload'' (T_Choice [''single-shot'', ''sessions'']) (VStr ''single-shot'') \<in> set report_options"
  "opt ''preset'' (T_Choice [''fast'', ''experiment'']) VNone \<in> set report_options"
  "(opt ''compare'' (T_Choice ROUTES) (VStrs []))\<lparr>opt_multiple := True\<rparr> \<in> set report_options"
  by (simp_all add: report_options_def workload_option_def preset_choice_def)

text \<open>\<open>report\<close> finds all its options as well, so it is \<open>report_command\<close> at their values.\<close>

lemma report_reads:
  assumes "conforms report_options ps"
  shows "\<exists>compare requests qps concurrency workload sessions turns seed settle. set compare \<subseteq> set ROUTES \<and>
    report_main L server execute elapse percentile is_default ps s v =
      report_command (lift_server server)
        (report_drive L execute requests qps concurrency workload sessions turns seed)
        (report_settle elapse settle) percentile compare (s, v)"
proof -
  obtain compare where c: "param strs_value ps ''compare'' = Inr compare" "set compare \<subseteq> set ROUTES"
    using strs_param [OF assms report_members(10)] by blast
  obtain seed settle preset where p: "param int_value ps ''seed'' = Inr seed"
      "param float_value ps ''settle'' = Inr settle" "param (or_none str_value) ps ''preset'' = Inr preset"
    using int_param [OF assms report_members(5), unfolded returns_iff]
      float_param [OF assms report_members(7), unfolded returns_iff]
      opt_param [OF assms report_members(9), unfolded returns_iff] by blast
  let ?ps = "apply_preset is_default preset ONLINE_PRESETS ps"
  have keep: "conforms report_options ?ps" by (intro presets_keep [OF assms online_typed(2)]) simp
  note i = report_members(1-4) [THEN int_param [OF keep], unfolded returns_iff]
  obtain i1 i2 i3 i4 f1 w where "param int_value ?ps ''requests'' = Inr i1"
      "param int_value ?ps ''concurrency'' = Inr i2" "param int_value ?ps ''sessions'' = Inr i3"
      "param int_value ?ps ''turns'' = Inr i4" "param float_value ?ps ''qps'' = Inr f1"
      "param str_value ?ps ''workload'' = Inr w"
    using i float_param [OF keep report_members(6), unfolded returns_iff]
      choice_param [OF keep report_members(8), unfolded returns_iff] by metis
  with c(1) p have "report_main L server execute elapse percentile is_default ps s v =
      report_command (lift_server server) (report_drive L execute i1 f1 i2 w i3 i4 seed)
        (report_settle elapse settle) percentile compare (s, v)"
    by (simp add: report_main_def Let_def)
  with c(2) show ?thesis by blast
qed

text \<open>\<open>report\<close> has no option \<open>--tool-reliability\<close>, so the \<open>experiment\<close> preset cannot turn it on there: no
  request it replays carries a tool name a router could learn gaps from.\<close>

lemma report_models_no_reliability:
  assumes "run_route L workload requests qps sessions turns seed False v = Inr (Replay reqs, v')"
  shows "list_all (\<lambda>r. r_tool_name r = None) reqs"
proof -
  let ?gp = "default_gen_params\<lparr>tool_reliability := False, gp_seed := seed\<rparr>"
  have g: "generate_sessions L sessions turns qps ?gp v = Inr (reqs, v')"
    using assms by (auto simp: run_route_def split: if_splits)
  obtain ss where ss: "reqs = py_sort request_less (concat ss)" "length ss = nat sessions"
      "sessions_ok ?gp (nat turns) ss" "list_all (list_all (opened L)) ss"
    using generate_sessions_spec [OF g] .
  show ?thesis unfolding list_all_iff
  proof
    fix r assume "r \<in> set reqs"
    then have "r \<in> set (concat ss)" unfolding ss(1) set_py_sort .
    with sessions_member [OF ss(3)] obtain i k where "turn_ok ?gp i k r" by blast
    then show "r_tool_name r = None" by (simp add: turn_ok_def)
  qed
qed

lemma report_has_no_reliability_option:
  "list_all (\<lambda>option. opt_name option \<noteq> ''tool_reliability'') report_options"
  by (simp add: report_options_def workload_option_def preset_choice_def opt_int_def opt_float_def)

section \<open>Properties\<close>

text \<open>C38: a preset fills in defaults, and with values of the declared types: whatever click accepted
  (every declared option has a value of its type, or its empty default), after the preset was applied
  this still holds, for each command and its presets; in particular the mix of the \<open>experiment\<close>
  preset passes the validation that \<open>--mix\<close> goes through. A value differs from the one before only if
  the user left the option at its default, and is then the one that the preset names.\<close>

theorem presets_keep_types:
  assumes "conforms options ps"
    and "(options, presets) \<in> {(traffic_options, ONLINE_PRESETS), (report_options, ONLINE_PRESETS),
      (simulate_options, OFFLINE_PRESETS)}"
    and "applied = apply_preset is_default preset presets ps"
  shows "conforms options applied \<and>
    (\<forall>k. d_get applied k = d_get ps k \<or>
      is_default k \<and> (\<exists>name p. preset = Some name \<and> d_get presets name = Some p \<and> d_get p k \<noteq> None \<and>
        d_get applied k = d_get p k))"
proof
  show "conforms options applied"
    using assms(2) online_typed offline_typed by (auto simp: assms(3) intro!: presets_keep [OF assms(1)])
  have "presets = ONLINE_PRESETS \<or> presets = OFFLINE_PRESETS" using assms(2) by auto
  note get = apply_preset_get [OF this]
  show "\<forall>k. d_get applied k = d_get ps k \<or>
      is_default k \<and> (\<exists>name p. preset = Some name \<and> d_get presets name = Some p \<and> d_get p k \<noteq> None \<and>
        d_get applied k = d_get p k)"
    by (auto simp: assms(3) get split: option.splits)
qed

theorem presets_keep_types_witness:
  "conforms simulate_options (apply_preset (\<lambda>k. True) (Some ''experiment'') OFFLINE_PRESETS simulate_defaults)"
  by (rule presets_keep_types [OF simulate_defaults_ok _ refl, THEN conjunct1]) simp

text \<open>\<open>simulate\<close> never fails on its own options: with any parameters click accepts, every lookup in
  \<open>ctx.params\<close>, before and after the preset, finds a value of the right type, the mix it passes on is
  a valid one, and every policy it was asked for can be built.\<close>

lemma simulate_options_suffice:
  assumes "conforms simulate_options ps"
  shows "\<exists>preset policies opts opts'. simulate_args ps = Inr (preset, policies, opts) \<and>
    reread_options (apply_preset is_default preset OFFLINE_PRESETS ps) opts = Inr opts' \<and>
    mix_ok (o_mix opts') \<and> list_all (\<lambda>name. returns (build_policy name (o_retain_margin opts'))) policies"
proof -
  obtain preset policies opts where a: "simulate_args ps = Inr (preset, policies, opts)" "set policies \<subseteq> set POLICY_NAMES"
    using simulate_reads [OF assms] by blast
  have "conforms simulate_options (apply_preset is_default preset OFFLINE_PRESETS ps)"
    by (intro presets_keep [OF assms offline_typed]) simp
  then obtain opts' where "reread_options (apply_preset is_default preset OFFLINE_PRESETS ps) opts = Inr opts'"
      "mix_ok (o_mix opts')"
    using simulate_reads by blast
  moreover have "list_all (\<lambda>name. returns (build_policy name (o_retain_margin opts'))) policies"
    using a(2) known_policies unfolding list_all_iff by blast
  ultimately show ?thesis using a(1) by blast
qed

text \<open>C32: the live command end to end. The parameters that click accepts have all the options
  \<open>traffic\<close> reads, and its route is one of the three. It is refused, with a usage error, exactly when
  the retention options are. Otherwise the replay of sessions raises exactly what the generator raises
  on the workload that was asked for, and starts on the stream the generator returns; single requests
  always start, as many as were asked for; with the URL, the number of permits and a header (exactly
  when there is a priority) as asked. When the traffic returns, the printed successes and errors add up
  to what the options after the preset ask for: one per turn of every session, or one per single
  request.\<close>

theorem traffic_command_accounts:
  assumes "conforms traffic_options ps"
  shows "\<exists>route url n seed prio ttl scope w s t qps c rel. route \<in> set ROUTES \<and>
    traffic_asks is_default ps (route, url, n, seed) (prio, ttl, scope) (w, s, t, qps, c, rel) \<and>
    (if retention_refused prio ttl scope then traffic_main L is_default ps v = Inl UsageError
     else if w = ''sessions'' then
       (case generate_sessions L s t qps (default_gen_params\<lparr>tool_reliability := rel, gp_seed := seed\<rparr>) v of
          Inl e \<Rightarrow> traffic_main L is_default ps v = Inl e
        | Inr (reqs, v') \<Rightarrow>
            (\<exists>header. traffic_main L is_default ps v = Inr (route, url, header, c, Replay reqs, v') \<and>
               (header = None \<longleftrightarrow> prio = None)) \<and>
            (\<forall>shots chats r. drive_plan shots chats c (Replay reqs) (Inr r) \<longrightarrow> accounts_for (nat s * nat t) r))
     else
       (\<exists>header. traffic_main L is_default ps v = Inr (route, url, header, c, Single_Shots n qps, v) \<and>
          (header = None \<longleftrightarrow> prio = None)) \<and>
       (\<forall>shots chats r. drive_plan shots chats c (Single_Shots n qps) (Inr r) \<longrightarrow> accounts_for (nat n) r))"
proof -
  obtain route url n seed prio ttl scope w s t qps c rel where asks: "route \<in> set ROUTES"
      "traffic_asks is_default ps (route, url, n, seed) (prio, ttl, scope) (w, s, t, qps, c, rel)"
    and main: "traffic_main L is_default ps v =
      rbind (kv_priority_header prio ttl scope) (\<lambda>header.
        rbind (run_route L w n qps s t seed rel v) (\<lambda>(plan, v'). Inr (route, url, header, c, plan, v')))"
    using traffic_reads [OF assms] .
  let ?gp = "default_gen_params\<lparr>tool_reliability := rel, gp_seed := seed\<rparr>"
  note header = kv_header_cases [of prio ttl scope]
  have "if retention_refused prio ttl scope then traffic_main L is_default ps v = Inl UsageError
     else if w = ''sessions'' then
       (case generate_sessions L s t qps ?gp v of
          Inl e \<Rightarrow> traffic_main L is_default ps v = Inl e
        | Inr (reqs, v') \<Rightarrow>
            (\<exists>header. traffic_main L is_default ps v = Inr (route, url, header, c, Replay reqs, v') \<and>
               (header = None \<longleftrightarrow> prio = None)) \<and>
            (\<forall>shots chats r. drive_plan shots chats c (Replay reqs) (Inr r) \<longrightarrow> accounts_for (nat s * nat t) r))
     else
       (\<exists>header. traffic_main L is_default ps v = Inr (route, url, header, c, Single_Shots n qps, v) \<and>
          (header = None \<longleftrightarrow> prio = None)) \<and>
       (\<forall>shots chats r. drive_plan shots chats c (Single_Shots n qps) (Inr r) \<longrightarrow> accounts_for (nat n) r)"
  proof (cases "kv_priority_header prio ttl scope")
    case (Inr h)
    show ?thesis
    proof (cases "generate_sessions L s t qps ?gp v")
      case (Inr a)
      then show ?thesis using header \<open>kv_priority_header prio ttl scope = Inr h\<close> sessions_account shots_account
        by (cases a) (auto simp: main run_route_def)
    qed (use header Inr shots_account in \<open>auto simp: main run_route_def\<close>)
  qed (use header in \<open>simp add: main\<close>)
  with asks show ?thesis by blast
qed

text \<open>One request with a priority over the round-robin route, every other option at its default\<close>

definition demo_traffic_params :: params where
  "demo_traffic_params =
     [(''route'', VStr ''round-robin''), (''requests'', VInt 1), (''concurrency'', VInt 1), (''kv_priority'', VInt 80)] @
     map (\<lambda>option. (opt_name option, opt_default option))
       (filter (\<lambda>option. opt_name option \<notin> {''route'', ''requests'', ''concurrency'', ''kv_priority''}) traffic_options)"

lemma demo_traffic_list:
  "demo_traffic_params =
     [(''route'', VStr ''round-robin''), (''requests'', VInt 1), (''concurrency'', VInt 1), (''kv_priority'', VInt 80),
      (''qps'', VFloat (Fin 5)), (''workload'', VStr ''single-shot''), (''sessions'', VInt 50), (''turns'', VInt 6),
      (''seed'', VInt 0), (''gateway_url'', VStr GATEWAY_URL), (''kv_ttl'', VNone), (''kv_scope'', VNone),
      (''tool_reliability'', VBool False), (''preset'', VNone)]"
  by (simp add: demo_traffic_params_def traffic_options_def option_eval)

lemma demo_traffic_conforms: "conforms traffic_options demo_traffic_params"
  unfolding demo_traffic_list
  by (simp add: conforms_def traffic_options_def option_eval ROUTES_def d_get_def MIN_PRIORITY_def MAX_PRIORITY_def
      EVICT_FIRST_def PINNED_def
      split: option.splits)

lemma demo_traffic_asks:
  assumes "traffic_asks (\<lambda>k. True) demo_traffic_params (route, url, n, seed) (prio, ttl, scope) (w, s, t, qps, c, rel)"
  shows "route = ''round-robin''" "url = GATEWAY_URL" "n = 1" "prio = Some 80" "ttl = None" "scope = None"
    "w = ''single-shot''" "qps = Fin 5" "c = 1"
  using assms unfolding demo_traffic_list traffic_asks_def
  by (simp_all add: param_def d_get_def or_none_def apply_preset_def option_eval)

theorem traffic_command_accounts_witness:
  "\<exists>h r. traffic_main demo_random (\<lambda>k. True) demo_traffic_params initial_vocab =
       Inr (''round-robin'', GATEWAY_URL, Some h, 1, Single_Shots 1 (Fin 5), initial_vocab) \<and>
     drive_plan (\<lambda>i. (Fin 1, demo_exchange)) (\<lambda>i q. (Fin 1, demo_exchange)) 1 (Single_Shots 1 (Fin 5)) (Inr r) \<and>
     accounts_for 1 r"
proof -
  obtain route url n seed prio ttl scope w s t qps c rel where
    asks: "traffic_asks (\<lambda>k. True) demo_traffic_params (route, url, n, seed) (prio, ttl, scope) (w, s, t, qps, c, rel)"
    and starts: "if retention_refused prio ttl scope
     then traffic_main demo_random (\<lambda>k. True) demo_traffic_params initial_vocab = Inl UsageError
     else if w = ''sessions'' then
       (case generate_sessions demo_random s t qps (default_gen_params\<lparr>tool_reliability := rel, gp_seed := seed\<rparr>) initial_vocab of
          Inl e \<Rightarrow> traffic_main demo_random (\<lambda>k. True) demo_traffic_params initial_vocab = Inl e
        | Inr (reqs, v') \<Rightarrow>
            (\<exists>header. traffic_main demo_random (\<lambda>k. True) demo_traffic_params initial_vocab =
               Inr (route, url, header, c, Replay reqs, v') \<and> (header = None \<longleftrightarrow> prio = None)) \<and>
            (\<forall>shots chats r. drive_plan shots chats c (Replay reqs) (Inr r) \<longrightarrow> accounts_for (nat s * nat t) r))
     else
       (\<exists>header. traffic_main demo_random (\<lambda>k. True) demo_traffic_params initial_vocab =
          Inr (route, url, header, c, Single_Shots n qps, initial_vocab) \<and> (header = None \<longleftrightarrow> prio = None)) \<and>
       (\<forall>shots chats r. drive_plan shots chats c (Single_Shots n qps) (Inr r) \<longrightarrow> accounts_for (nat n) r)"
    using traffic_command_accounts [OF demo_traffic_conforms, of "\<lambda>k. True" demo_random initial_vocab]
    by (elim exE conjE) (rule that)
  have "\<not> retention_refused (Some 80) None None" by (simp add: retention_refused_def)
  then obtain h where start: "traffic_main demo_random (\<lambda>k. True) demo_traffic_params initial_vocab =
       Inr (''round-robin'', GATEWAY_URL, Some h, 1, Single_Shots 1 (Fin 5), initial_vocab)"
    and counts: "\<And>shots chats r. drive_plan shots chats 1 (Single_Shots 1 (Fin 5)) (Inr r) \<Longrightarrow> accounts_for 1 r"
    using starts unfolding demo_traffic_asks [OF asks] by auto
  obtain r where "run_traffic 1 1 (\<lambda>i. (Fin 1, demo_exchange)) (Inr r)"
    using demo_run_returns [of "\<lambda>i. chat_updates (Fin 1) demo_exchange" True] by (auto simp: run_traffic_def demo_chat)
  then have "drive_plan (\<lambda>i. (Fin 1, demo_exchange)) (\<lambda>i q. (Fin 1, demo_exchange)) 1 (Single_Shots 1 (Fin 5)) (Inr r)"
    by (simp add: drive_plan_def)
  with start counts show ?thesis by blast
qed

end
