(* ===== verification/Simulate_Runs.thy ===== *)
theory Simulate_Runs
  imports Feasible Tables Options_Runs
begin

text \<open>
  \<open>bench simulate\<close> from its options to its tables: on options and draws of bounded size every
  stage returns, so the command prints its tables, unless a negative cache capacity makes the
  first admission loop for ever.
\<close>

section \<open>Feasible options\<close>

definition sim_gen :: "sim_options \<Rightarrow> GenParams" where
  "sim_gen opts =
     default_gen_params\<lparr>tool_result_tokens := o_tool_result_tokens opts, think_time := o_think_time opts,
       gp_burst_cv := o_burst_cv opts, tool_reliability := o_tool_reliability opts,
       gp_block_size := o_block_size opts, gp_seed := o_seed opts\<rparr>"

definition sim_mix :: "sim_options \<Rightarrow> MixParams" where
  "sim_mix opts =
     default_mix_params\<lparr>rag_docs := o_rag_docs opts, rag_doc_tokens := o_rag_doc_tokens opts,
       rag_zipf := o_rag_zipf opts\<rparr>"

lemma sim_stream_eq:
  "sim_stream L opts v = generate_mixed L (o_sessions opts) (o_turns opts) (o_qps opts) (Some (o_mix opts))
     (sim_gen opts) (sim_mix opts) v"
  by (simp add: sim_stream_def sim_gen_def sim_mix_def)

lemma sim_gen_block [simp]: "gp_block_size (sim_gen opts) = o_block_size opts"
  by (simp add: sim_gen_def)

definition mix_part :: "sim_options \<Rightarrow> string \<Rightarrow> pyfloat" where
  "mix_part opts k = mix_get (effective_mix (Some (o_mix opts))) k"

text \<open>The ranges the options must lie in\<close>

definition options_ok :: "sim_options \<Rightarrow> bool" where
  "options_ok opts \<longleftrightarrow>
     0 < o_nodes opts \<and> 0 \<le> o_sessions opts \<and> 0 \<le> o_turns opts \<and> 0 < o_block_size opts \<and>
     fin_nonneg (o_bandwidth opts) \<and> o_bandwidth opts \<noteq> 0 \<and> 0 \<le> o_think_time opts \<and>
     list_all (\<lambda>x. x \<le> Fin 1) (map snd (o_mix opts))"

text \<open>Gaps between arrivals are at most \<open>G\<close> seconds for each class in the mix, no turn lasts longer
  than \<open>D\<close> seconds, and no request generates more than \<open>K\<close> tokens.\<close>

definition draws_ok :: "'r random_lib \<Rightarrow> sim_options \<Rightarrow> int \<Rightarrow> int \<Rightarrow> int \<Rightarrow> bool" where
  "draws_ok L opts G D K \<longleftrightarrow>
     random_ok L \<and> 0 \<le> G \<and> tokens_within L (sim_gen opts) K \<and> delays_within (sim_gen opts) D \<and>
     (0 < mix_part opts ''tool'' \<longrightarrow>
        gaps_within L (sim_gen opts) (session_rate (o_qps opts * mix_part opts ''tool'') (o_turns opts)) G) \<and>
     (0 < mix_part opts ''rag'' \<longrightarrow>
        powers_ok L (sim_mix opts) \<and>
        gaps_within L (sim_gen opts) (class_rate (o_qps opts) (mix_part opts ''rag'')) G) \<and>
     (0 < mix_part opts ''oneshot'' \<longrightarrow>
        gaps_within L (sim_gen opts) (class_rate (o_qps opts) (mix_part opts ''oneshot'')) G)"

text \<open>The last arrival, the longest prompt, and the seconds of work in the whole stream\<close>

definition last_arrival :: "sim_options \<Rightarrow> int \<Rightarrow> int \<Rightarrow> int" where
  "last_arrival opts G D = (o_sessions opts * o_turns opts + o_sessions opts) * G + o_turns opts * D"

definition longest_prompt :: "sim_options \<Rightarrow> nat" where
  "longest_prompt opts =
     opening_words + nat (o_turns opts) * turn_words (sim_gen opts) + rag_words (sim_mix opts) +
     nat (oneshot_tokens (sim_mix opts))"

definition total_work :: "sim_options \<Rightarrow> int \<Rightarrow> int \<Rightarrow> int \<Rightarrow> int" where
  "total_work opts G D K =
     last_arrival opts G D + 3 * (o_sessions opts * o_turns opts) * (int (longest_prompt opts) + K + 1)"

definition feasible :: "'r random_lib \<Rightarrow> sim_options \<Rightarrow> int \<Rightarrow> int \<Rightarrow> int \<Rightarrow> bool" where
  "feasible L opts G D K \<longleftrightarrow>
     options_ok opts \<and> draws_ok L opts G D K \<and> total_work opts G D K \<le> 2 ^ 32 \<and>
     o_sessions opts \<le> 2 ^ 32 \<and> o_turns opts \<le> 2 ^ 32 \<and> int (longest_prompt opts) + K + 1 \<le> 2 ^ 53"

section \<open>The stream\<close>

lemma gen_feasible: "options_ok opts \<Longrightarrow> gen_ok (sim_gen opts)"
  using rnd_nonneg [of "1 / 5"]
  by (auto simp: options_ok_def gen_ok_def sim_gen_def default_gen_params_def catalog_def DEFAULT_TOOLS_def zero_pyfloat_def)

lemma part_le_one:
  assumes "options_ok opts"
  shows "mix_part opts k \<le> Fin 1"
proof (cases "d_get (effective_mix (Some (o_mix opts))) k")
  case (Some x)
  then have "(k, x) \<in> set (effective_mix (Some (o_mix opts)))" by (rule d_get_mem)
  then show ?thesis using assms Some
    by (auto simp: mix_part_def mix_get_def effective_mix_def options_ok_def list_all_iff split: if_splits)
qed (simp add: mix_part_def mix_get_def zero_pyfloat_def)

lemma cost_feasible:
  assumes "options_ok opts"
  shows "load_ok (sim_cost_params opts)" "cheap (sim_cost_params opts)"
    "block_size (sim_cost_params opts) = o_block_size opts"
proof -
  have "params_ok (sim_cost_params opts)"
    using assms default_params_ok by (simp add: params_ok_def sim_cost_params_def options_ok_def)
  moreover have "nominal_service (sim_cost_params opts) = nominal_service default_params"
    by (simp add: nominal_service_def sim_cost_params_def)
  ultimately show "load_ok (sim_cost_params opts)" using default_load_ok by (simp add: load_ok_def)
  show "cheap (sim_cost_params opts)"
    by (simp add: cheap_def sim_cost_params_def default_params_def flt_eval)
  show "block_size (sim_cost_params opts) = o_block_size opts" by (simp add: sim_cost_params_def)
qed

lemma tokens_pos: "tokens_within L gp K \<Longrightarrow> 1 \<le> K"
  using tokens_withinD [of L gp K] unfolding tokens_within_def
  by (metis (no_types, lifting) old.sum.exhaust old.sum.simps(5) order_trans prod.exhaust)

lemma feasible_stream:
  assumes "feasible L opts G D K" "mix_ok (o_mix opts)"
  obtains reqs v' T S where "sim_stream L opts v = Inr (reqs, v')"
    "list_all (request_fits (sim_cost_params opts) T S) reqs" "T + int (length reqs) * S \<le> 2 ^ 32"
    "0 \<le> T" "T \<le> 2 ^ 32" "int (length reqs) \<le> 2 ^ 53"
proof -
  let ?N = "o_sessions opts * o_turns opts" and ?T = "last_arrival opts G D" and ?B = "longest_prompt opts"
  let ?S = "int ?B + K + 1"
  note f = assms(1) [unfolded feasible_def]
  have o: "options_ok opts" and dr: "draws_ok L opts G D K" using f by simp_all
  note d = dr [unfolded draws_ok_def]
  have nt: "0 \<le> o_sessions opts" "0 \<le> o_turns opts" using o by (simp_all add: options_ok_def)
  have D: "0 \<le> D" and G: "0 \<le> G" and K: "1 \<le> K" using d delays_nonneg tokens_pos by blast+
  have p: "0 \<le> ?N" "0 \<le> ?N * G" "0 \<le> o_sessions opts * G" "0 \<le> o_turns opts * D" using nt D G by simp_all
  have T: "?T = ?N * G + o_sessions opts * G + o_turns opts * D" by (simp add: last_arrival_def algebra_simps)
  have "?N * 1 \<le> ?N * ?S" using p(1) K by (intro mult_left_mono) simp_all
  then have w: "?T + 3 * (?N * ?S) \<le> 2 ^ 32" "?N \<le> ?N * ?S" using f by (simp_all add: total_work_def algebra_simps)
  then have b: "?N \<le> 2 ^ 32" "?T \<le> 2 ^ 32" "0 \<le> ?T" using T p by linarith+
  have u: "unknown_classes (effective_mix (Some (o_mix opts))) = []"
    using assms(2) by (simp add: mix_ok_def effective_mix_def unknown_classes_def d_keys_def WORKLOAD_CLASSES_def)
  note part = part_le_one [OF o]
  have r: "\<exists>reqs v'. sim_stream L opts v = Inr (reqs, v') \<and> int (length reqs) \<le> 3 * ?N \<and>
      list_all (modest ?T ?B K) reqs \<and> list_all (hashed (o_block_size opts)) reqs"
    unfolding sim_stream_eq longest_prompt_def sim_gen_block [symmetric]
    by (rule mixed_returns [OF _ gen_feasible [OF o] _ G _ u refl refl refl, where D = D])
      (use d f nt b p T part in \<open>simp_all add: mix_part_def\<close>)
  then obtain reqs v' where r: "sim_stream L opts v = Inr (reqs, v')" "int (length reqs) \<le> 3 * ?N"
      "list_all (modest ?T ?B K) reqs" "list_all (hashed (o_block_size opts)) reqs" by blast
  have ps: "params_ok (sim_cost_params opts)" using cost_feasible(1) [OF o] by (simp add: load_ok_def)
  have "list_all (request_fits (sim_cost_params opts) ?T ?S) reqs"
    using r(3,4) f modest_fits [OF ps cost_feasible(2) [OF o], of ?T ?B K] cost_feasible(3) [OF o]
    by (simp add: list_all_iff)
  moreover have "int (length reqs) * ?S \<le> 3 * ?N * ?S" using r(2) K by (intro mult_right_mono) simp_all
  then have "?T + int (length reqs) * ?S \<le> 2 ^ 32" using w(1) by (simp add: mult.assoc)
  moreover have "int (length reqs) \<le> 2 ^ 53" using r(2) b(1) by simp
  ultimately show thesis using that [OF r(1)] b by blast
qed

section \<open>The runs\<close>

lemma policies_return:
  assumes "list_all (request_fits (sim_cost_params opts) T S) reqs" "T + int (length reqs) * S \<le> 2 ^ 32"
    and "options_ok opts" "0 \<le> o_cache_blocks opts \<or> reqs = []"
    and "set names \<subseteq> set POLICY_NAMES" "printable reqs results"
  shows "\<exists>results'. simulate_policies reqs opts names results = Some (Inr results') \<and> printable reqs results' \<and>
    set (d_keys results') = set (d_keys results) \<union> set names"
  using assms(5,6)
proof (induction names arbitrary: results)
  case (Cons name names)
  let ?ps = "sim_cost_params opts"
  obtain pol where pol: "build_policy name (o_retain_margin opts) = Inr pol"
    using Cons.prems(1) known_policies by (fastforce simp: returns_iff)
  have "\<exists>r. run_simulation reqs policy_call pol (o_nodes opts) (o_cache_blocks opts) ?ps (uses_belady name) = Some (Inr r)"
  proof (cases "reqs = []")
    case False
    have "0 < o_nodes opts" using assms(3) by (simp add: options_ok_def)
    from fit_simulation_returns [OF assms(1) False this assms(2) build_policy_ok [OF pol] cost_feasible(1) [OF assms(3)]]
    show ?thesis using assms(4) False by blast
  qed (simp add: run_simulation_def Let_def)
  then obtain r where r: "run_simulation reqs policy_call pol (o_nodes opts) (o_cache_blocks opts) ?ps (uses_belady name) =
      Some (Inr r)" by blast
  have ok: "list_all (request_ok ?ps) reqs" using assms(1) request_fitsD by (auto simp: list_all_iff)
  have "accounts reqs r" using registry.run_simulation_accounts [OF ok r] by simp
  moreover have "gap_by_tool r = tool_gaps reqs" by (rule run_simulation_gaps [OF r])
  ultimately have "printable reqs (d_set name r results)"
    using Cons.prems(2) unfolding printable_def by (intro list_all_d_set) simp_all
  from Cons.IH [OF _ this] Cons.prems(1) show ?case using pol r by (simp add: set_d_keys_set)
qed simp

lemma policies_hang:
  assumes "list_all (request_fits (sim_cost_params opts) T S) reqs" "reqs \<noteq> []" "T \<le> 2 ^ 32"
    and "options_ok opts" "o_cache_blocks opts < 0" "set names \<subseteq> set POLICY_NAMES" "names \<noteq> []"
  shows "simulate_policies reqs opts names results = None"
proof -
  obtain name rest where names: "names = name # rest" using assms(7) by (cases names) auto
  then obtain pol where pol: "build_policy name (o_retain_margin opts) = Inr pol"
    using assms(6) known_policies by (fastforce simp: returns_iff)
  have "0 < o_nodes opts" using assms(4) by (simp add: options_ok_def)
  from fit_simulation_hangs [OF assms(1,2) this assms(3) build_policy_ok [OF pol] cost_feasible(1) [OF assms(4)] assms(5)]
  show ?thesis by (simp add: names pol)
qed

section \<open>The command\<close>

lemma simulate_stages:
  assumes "simulate_args ps = Inr (preset, policies, opts0)"
    and "reread_options (apply_preset is_default preset OFFLINE_PRESETS ps) opts0 = Inr opts"
    and "sim_stream L opts v = Inr (reqs, v')"
  shows "simulate_main L percentile is_default ps v =
    (case simulate_policies reqs opts policies [] of
       None \<Rightarrow> None
     | Some (Inl e) \<Rightarrow> Some (Inl e)
     | Some (Inr results) \<Rightarrow> Some (rbind (sim_report percentile results) (\<lambda>tables. Inr (tables, v'))))"
  using assms by (simp add: simulate_main_def simulate_command_def)

lemma printed_policies:
  assumes "sim_report percentile results = Inr tables"
  shows "map hd (main_rows tables) = d_keys results"
proof -
  obtain rows where rows: "rmap (main_row percentile (baseline_p50 percentile results)) results = Inr rows"
      "main_rows tables = rows"
    using assms by (auto simp: sim_report_def main_table_def)
  have "map hd rows = map fst results" using rmap_cells [OF rows(1), of hd fst] main_row_cells by auto
  then show ?thesis by (simp add: rows(2) d_keys_def)
qed

text \<open>C10: \<open>bench simulate\<close> gets to its tables: with parameters that click accepts, options in their ranges
  and a workload of bounded size (gaps of at most \<open>G\<close> seconds, turns of at most \<open>D\<close> seconds, at most \<open>K\<close>
  tokens to generate, \<open>2 ^ 32\<close> seconds of work in all), the mixed stream is generated, every requested
  policy is simulated on it, and the tables are printed with one row per policy. The one exception is a
  negative cache capacity, with which the command never returns as soon as there is a request to place.\<close>

theorem simulate_returns:
  assumes "conforms simulate_options ps"
    and "simulate_args ps = Inr (preset, policies, opts0)"
    and "reread_options (apply_preset is_default preset OFFLINE_PRESETS ps) opts0 = Inr opts"
    and "feasible L opts G D K"
  shows "\<exists>reqs v'. sim_stream L opts v = Inr (reqs, v') \<and>
    (if o_cache_blocks opts < 0 \<and> reqs \<noteq> [] \<and> policies \<noteq> []
     then simulate_main L percentile is_default ps v = None
     else \<exists>tables. simulate_main L percentile is_default ps v = Some (Inr (tables, v')) \<and>
       set (map hd (main_rows tables)) = set policies)"
proof -
  have policies: "set policies \<subseteq> set POLICY_NAMES" using simulate_reads [OF assms(1)] assms(2) by auto
  have "conforms simulate_options (apply_preset is_default preset OFFLINE_PRESETS ps)"
    by (intro presets_keep [OF assms(1) offline_typed]) simp
  then have mix: "mix_ok (o_mix opts)" using simulate_reads assms(3) by (metis Inr_inject)
  have o: "options_ok opts" using assms(4) by (simp add: feasible_def)
  obtain reqs v' T S where r: "sim_stream L opts v = Inr (reqs, v')"
    "list_all (request_fits (sim_cost_params opts) T S) reqs" "T + int (length reqs) * S \<le> 2 ^ 32"
    "0 \<le> T" "T \<le> 2 ^ 32" "int (length reqs) \<le> 2 ^ 53"
    using feasible_stream [OF assms(4) mix] .
  note main = simulate_stages [OF assms(2,3) r(1), of percentile]
  show ?thesis
  proof (cases "o_cache_blocks opts < 0 \<and> reqs \<noteq> [] \<and> policies \<noteq> []")
    case True
    then have "simulate_main L percentile is_default ps v = None"
      using policies_hang [OF r(2) _ r(5) o _ policies, of "[]"] by (simp add: main)
    then show ?thesis using r(1) True by simp
  next
    case False
    have "\<exists>results. simulate_policies reqs opts policies [] = Some (Inr results) \<and> printable reqs results \<and>
        set (d_keys results) = set policies"
    proof (cases "policies = []")
      case False
      with \<open>\<not> (o_cache_blocks opts < 0 \<and> reqs \<noteq> [] \<and> policies \<noteq> [])\<close> have "0 \<le> o_cache_blocks opts \<or> reqs = []" by auto
      from policies_return [OF r(2,3) o this policies, of "[]"] show ?thesis by (simp add: printable_def)
    qed (simp add: printable_def)
    then obtain results where res: "simulate_policies reqs opts policies [] = Some (Inr results)"
        "printable reqs results" "set (d_keys results) = set policies" by blast
    have "list_all (\<lambda>q. in_span T (r_arrival q)) reqs"
      using r(2) request_fitsD(2,3) by (auto simp: list_all_iff in_span_def)
    moreover have "\<bar>T\<bar> \<le> 2 ^ 53" using r(4,5) by simp
    ultimately have span: "list_all (\<lambda>q. in_span T (r_arrival q)) reqs" "\<bar>T\<bar> \<le> 2 ^ 53" by blast+
    then obtain tables where t: "sim_report percentile results = Inr tables"
      using sim_report_returns [OF res(2) r(6) span] by (auto simp: returns_iff)
    have "simulate_main L percentile is_default ps v = Some (Inr (tables, v'))" by (simp add: main res(1) t)
    moreover have "set (map hd (main_rows tables)) = set policies" by (simp only: printed_policies [OF t] res(3))
    ultimately have "\<exists>tables. simulate_main L percentile is_default ps v = Some (Inr (tables, v')) \<and>
        set (map hd (main_rows tables)) = set policies" by blast
    then show ?thesis
      by (intro exI [of _ reqs] exI [of _ v'] conjI r(1)) (simp only: if_not_P [OF False])
  qed
qed

text \<open>The defaults of every option, on a library that always draws the same\<close>

definition default_sim_options :: sim_options where
  "default_sim_options =
     \<lparr>o_nodes = 4, o_sessions = 200, o_turns = 6, o_qps = Fin 10, o_burst_cv = Fin 1,
      o_mix = [(''tool'', Fin 1)], o_tool_reliability = False, o_tool_result_tokens = 64,
      o_think_time = Fin 2, o_rag_docs = 16, o_rag_doc_tokens = 1024, o_rag_zipf = rnd (11 / 10),
      o_block_size = 16, o_bandwidth = Fin 4000000000, o_cache_blocks = 2048,
      o_retain_margin = DEFAULT_RETAIN_MARGIN, o_seed = 0\<rparr>"

lemma simulate_defaults_list:
  "simulate_defaults =
     [(''policies'', VStrs POLICY_NAMES), (''nodes'', VInt 4), (''sessions'', VInt 200), (''turns'', VInt 6),
      (''tool_result_tokens'', VInt 64), (''think_time'', VFloat (Fin 2)), (''qps'', VFloat (Fin 10)),
      (''burst_cv'', VFloat (Fin 1)), (''mix'', VMix [(''tool'', Fin 1)]), (''rag_docs'', VInt 16),
      (''rag_doc_tokens'', VInt 1024), (''rag_zipf'', VFloat (rnd (11 / 10))), (''block_size'', VInt 16),
      (''bandwidth'', VFloat (Fin 4000000000)), (''cache_blocks'', VInt 2048), (''tool_reliability'', VBool False),
      (''retain_margin'', VFloat DEFAULT_RETAIN_MARGIN), (''seed'', VInt 0), (''preset'', VNone)]"
  using simulate_defaults_eq
  by (simp add: default_values_def simulate_options_def default_value_def default_mix option_eval opt_def)

lemma defaults_read:
  "simulate_args simulate_defaults = Inr (None, POLICY_NAMES, default_sim_options)"
  "reread_options simulate_defaults default_sim_options = Inr default_sim_options"
  by (simp_all add: simulate_args_def reread_options_def default_sim_options_def param_def d_get_def
      simulate_defaults_list option_eval or_none_def strs_value_def)

lemma system_words: "length SYSTEM_TOKENS \<le> 16756"
proof -
  have "length SYSTEM_TOKENS = length (py_split SYSTEM_PROMPT)"
    unfolding SYSTEM_TOKENS_def by (rule tokenize_count) (rule prod.collapse [symmetric])
  moreover have "int (length SYSTEM_PROMPT) < 4 * 4096 + 372"
    using system_prompt_size_and_prefix [of 4096 4096]
    by (simp add: SYSTEM_PROMPT_def SYSTEM_PROMPT_TARGET_TOKENS_def)
  ultimately show ?thesis using split_length [of SYSTEM_PROMPT] by linarith
qed

lemma demo_draws: "draws_ok demo_random default_sim_options 1 3 48"
proof -
  have "gp_burst_cv (sim_gen default_sim_options) = Fin 1" "gen_tokens_mean (sim_gen default_sim_options) = 48"
    by (simp_all add: sim_gen_def default_sim_options_def default_gen_params_def)
  note g = demo_gaps [OF this(1)] and t = demo_tokens [OF this(2)]
  have "delays_within (sim_gen default_sim_options) 3"
    by (simp add: delays_within_def sim_gen_def default_sim_options_def default_gen_params_def
        DEFAULT_RETRY_GAP_def flt_eval)
  moreover have "mix_part default_sim_options ''tool'' = Fin 1" "\<not> 0 < mix_part default_sim_options ''rag''"
      "\<not> 0 < mix_part default_sim_options ''oneshot''"
    by (simp_all add: mix_part_def mix_get_def effective_mix_def default_sim_options_def d_get_def zero_pyfloat_def)
  ultimately show ?thesis using g t demo_random_ok by (simp add: draws_ok_def)
qed

lemma default_feasible: "feasible demo_random default_sim_options 1 3 48"
proof -
  have o: "options_ok default_sim_options"
    using rnd_of_int [of 4000000000]
    by (simp add: options_ok_def default_sim_options_def zero_pyfloat_def fin_nonneg_def)
  have b: "longest_prompt default_sim_options \<le> 40000"
    using system_words
    by (simp add: longest_prompt_def default_sim_options_def opening_words_def turn_words_def rag_words_def
        sim_gen_def sim_mix_def default_gen_params_def default_mix_params_def)
  have "total_work default_sim_options 1 3 48 = 1418 + 3600 * (int (longest_prompt default_sim_options) + 49)"
    by (simp add: total_work_def last_arrival_def default_sim_options_def)
  then have "total_work default_sim_options 1 3 48 \<le> 2 ^ 32" using b by simp
  then show ?thesis using o demo_draws b by (simp add: feasible_def) (simp add: default_sim_options_def)
qed

theorem simulate_returns_witness:
  "\<exists>reqs v' tables. sim_stream demo_random default_sim_options initial_vocab = Inr (reqs, v') \<and>
     simulate_main demo_random (\<lambda>xs p. 0) (\<lambda>k. True) simulate_defaults initial_vocab = Some (Inr (tables, v')) \<and>
     set (map hd (main_rows tables)) = set POLICY_NAMES"
proof -
  have "reread_options (apply_preset (\<lambda>k. True) None OFFLINE_PRESETS simulate_defaults) default_sim_options =
      Inr default_sim_options"
    by (simp add: apply_preset_def defaults_read(2))
  from simulate_returns [OF simulate_defaults_ok defaults_read(1) this default_feasible, of initial_vocab "\<lambda>xs p. 0"]
  show ?thesis by (auto simp: default_sim_options_def)
qed

end
