(* ===== verification/Replay.thy ===== *)
theory Replay
  imports Traffic_Runs Generated
begin

text \<open>
  What the live half sends: the body and the headers of each POST of \<open>src/bench/traffic.py\<close>, and how
  the replay of generated sessions (\<open>src/bench/sim/workload.py\<close>) presents them to the gateway.
\<close>

section \<open>Posts\<close>

type_synonym post = "chat_payload \<times> (string, string) pydict"

definition MAX_TOKENS :: int where "MAX_TOKENS = 50"

definition post_chat :: "string \<Rightarrow> message list \<Rightarrow> string option \<Rightarrow> int option \<Rightarrow> post" where
  "post_chat route messages kv_priority session_id =
     (payload messages MAX_TOKENS, request_headers route kv_priority session_id)"

text \<open>\<open>generate_request\<close> sends one prompt, drawn anew for each request.\<close>

definition generate_request :: "'r random_lib \<Rightarrow> string \<Rightarrow> string option \<Rightarrow> 'r \<Rightarrow> (post \<times> 'r) res" where
  "generate_request L route kv_priority r =
     rbind (request_messages L r) (\<lambda>(messages, r'). Inr (post_chat route messages kv_priority None, r'))"

text \<open>\<open>run_one\<close> sends the transcript of each turn under the id of its session.\<close>

definition session_posts :: "string \<Rightarrow> string option \<Rightarrow> TurnRequest list \<Rightarrow> post list" where
  "session_posts route kv_priority turns =
     map (\<lambda>turn. post_chat route (r_messages turn) kv_priority (Some (r_session_id turn))) turns"

lemma headers_get:
  "d_get (request_headers route kv_priority session_id) ROUTE_HEADER = Some route"
  "d_get (request_headers route kv_priority session_id) KV_CACHE_PRIORITY_HEADER = kv_priority"
  "d_get (request_headers route kv_priority session_id) SESSION_HEADER = map_option str_int session_id"
  by (cases kv_priority; cases session_id; simp add: request_headers_def d_set_def d_get_def ROUTE_HEADER_def
      KV_CACHE_PRIORITY_HEADER_def SESSION_HEADER_def)+

section \<open>Sessions as they are replayed\<close>

lemma queue_turns:
  assumes "sessions_ok gp n ss" "mset reqs = mset (concat ss)" "d_get (group_sessions reqs) sid = Some ts"
  obtains i where "i < length ss" "sid = int i" "ts = ss ! i"
proof -
  have g: "ts \<noteq> []" "mset ts = filter_mset (\<lambda>r. r_session_id r = sid) (mset reqs)" "sorted_by turn_less ts"
    using sessions_grouped [where reqs = reqs and sid = sid] assms(3) by simp_all
  obtain r where "r \<in> set ts" using g(1) by (cases ts) auto
  then have "r \<in># mset ts" by simp
  then have "r \<in># mset reqs" "r_session_id r = sid" unfolding g(2) by simp_all
  then have "r \<in> set (concat ss)" "r_session_id r = sid" unfolding assms(2) by simp_all
  then obtain i where i: "i < length ss" "sid = int i"
    using sessions_member [OF assms(1)] by (metis turn_ok_def)
  have s: "length (ss ! i) = n" "session_ok gp (int i) (ss ! i)" using assms(1) i(1) by (auto simp: sessions_ok_def)
  then have idx: "map r_turn_idx (ss ! i) = map int [0..<n]"
    by (intro nth_equalityI) (auto simp: session_ok_def turn_ok_def)
  have "mset ts = mset (filter (\<lambda>r. r_session_id r = sid) (concat ss))" using g(2) by (simp add: assms(2) mset_filter)
  then have m: "mset ts = mset (ss ! i)" using filter_session [OF assms(1) i(1)] i(2) by simp
  have "sorted (map r_turn_idx ts)"
    using g(3) unfolding sorted_map by (rule sorted_wrt_mono_rel [rotated]) (simp add: turn_less_def)
  moreover have "sorted (map r_turn_idx (ss ! i))" "distinct (map r_turn_idx (ss ! i))"
    unfolding idx by (simp_all add: distinct_map sorted_map)
  moreover have inj: "inj_on r_turn_idx (set (ss ! i))" using calculation(3) by (simp add: distinct_map)
  ultimately have "map r_turn_idx ts = map r_turn_idx (ss ! i)"
    using m by (metis mset_map properties_for_sort sorted_sort_id)
  then have "ts = ss ! i" using inj m by (metis inj_on_map_eq_map set_mset_mset Un_absorb)
  then show thesis using that i by blast
qed

text \<open>The body of a later turn starts with the transcript of an earlier one.\<close>

definition grows :: "post \<Rightarrow> post \<Rightarrow> bool" where
  "grows p q \<longleftrightarrow> strict_prefix (cp_messages (fst p)) (cp_messages (fst q)) \<and> snd p = snd q"

lemma session_posts_grow:
  assumes "session_ok gp sid ts"
  shows "sorted_wrt grows (session_posts route kv_priority ts)"
  unfolding sorted_wrt_iff_nth_less
proof (intro allI impI)
  fix i j assume "i < j" "j < length (session_posts route kv_priority ts)"
  then have ij: "i < j" "j < length ts" by (simp_all add: session_posts_def)
  then have t: "turn_ok gp sid i (ts ! i)" "turn_ok gp sid j (ts ! j)" "extends (ts ! i) (ts ! j)"
    using assms by (auto simp: session_ok_def sorted_wrt_iff_nth_less)
  have "length (r_messages (ts ! i)) < length (r_messages (ts ! j))" using t(1,2) ij(1) by (simp add: turn_ok_def)
  then have "r_messages (ts ! i) \<noteq> r_messages (ts ! j)" by auto
  then have "strict_prefix (r_messages (ts ! i)) (r_messages (ts ! j))"
    using t(3) by (simp add: extends_def strict_prefix_def)
  then show "grows (session_posts route kv_priority ts ! i) (session_posts route kv_priority ts ! j)"
    using ij t(1,2) by (simp add: grows_def session_posts_def post_chat_def payload_def turn_ok_def)
qed

section \<open>Property\<close>

text \<open>C33: the live replay of a generated stream sends what the cache experiment needs: each queue holds
  all turns of one session in order, every POST carries a legal transcript, the route, the retention
  header as given and the id of the session, and each later body strictly extends the earlier ones, so
  that the gateway can reuse the prefix that the turn before has seeded.\<close>

theorem replay_extends_prefixes:
  assumes "generate_sessions L num turns qps gp v = Inr (reqs, v')"
    and "d_get (group_sessions reqs) sid = Some ts"
  shows "map r_turn_idx ts = map int [0..<nat turns] \<and>
    sorted_wrt grows (session_posts route kv_priority ts) \<and>
    list_all (\<lambda>(body, headers). chat_ok (cp_messages body) \<and> d_get headers ROUTE_HEADER = Some route \<and>
        d_get headers KV_CACHE_PRIORITY_HEADER = kv_priority \<and> d_get headers SESSION_HEADER = Some (str_int sid))
      (session_posts route kv_priority ts)"
proof -
  obtain ss where ss: "reqs = py_sort request_less (concat ss)" "length ss = nat num"
      "sessions_ok gp (nat turns) ss" "list_all (list_all (opened L)) ss"
    using generate_sessions_spec [OF assms(1)] .
  have "mset reqs = mset (concat ss)" unfolding ss(1) by (rule mset_py_sort)
  from queue_turns [OF ss(3) this assms(2)] obtain i where i: "i < length ss" "sid = int i" "ts = ss ! i" .
  have s: "length ts = nat turns" "session_ok gp sid ts" using ss(3) i by (auto simp: sessions_ok_def)
  have idx: "map r_turn_idx ts = map int [0..<nat turns]"
    using s by (intro nth_equalityI) (auto simp: session_ok_def turn_ok_def)
  have "turn_ok gp sid k (ts ! k)" if "k < length ts" for k using s(2) that by (simp add: session_ok_def)
  then have "list_all (\<lambda>(body, headers). chat_ok (cp_messages body) \<and> d_get headers ROUTE_HEADER = Some route \<and>
        d_get headers KV_CACHE_PRIORITY_HEADER = kv_priority \<and> d_get headers SESSION_HEADER = Some (str_int sid))
      (session_posts route kv_priority ts)"
    by (simp add: list_all_length session_posts_def post_chat_def payload_def headers_get turn_ok_def)
  then show ?thesis using idx session_posts_grow [OF s(2)] by blast
qed

theorem replay_extends_prefixes_witness:
  "\<exists>reqs v' ts. generate_sessions demo_random 2 2 (Fin 4) default_gen_params initial_vocab = Inr (reqs, v') \<and>
     d_get (group_sessions reqs) 1 = Some ts \<and> map r_turn_idx ts = [0, 1] \<and>
     sorted_wrt grows (session_posts ''round-robin'' None ts)"
proof -
  obtain ss v' where ss: "generate_sessions demo_random 2 2 (Fin 4) default_gen_params initial_vocab =
       Inr (py_sort request_less (concat ss), v')" "length ss = 2" "sessions_ok default_gen_params 2 ss"
    using demo_sessions by metis
  let ?reqs = "py_sort request_less (concat ss)"
  have "length (ss ! 1) = 2" using ss(2,3) by (simp add: sessions_ok_def)
  then have "filter (\<lambda>r. r_session_id r = 1) (concat ss) \<noteq> []"
    using filter_session [OF ss(3), of 1] ss(2) by auto
  then have "\<exists>r \<in> set (concat ss). r_session_id r = 1" by (simp only: filter_empty_conv) blast
  then have "filter (\<lambda>r. r_session_id r = 1) ?reqs \<noteq> []" by (simp only: filter_empty_conv set_py_sort) blast
  then obtain ts where ts: "d_get (group_sessions ?reqs) 1 = Some ts"
    by (auto simp: group_sessions_get Let_def)
  have "map r_turn_idx ts = [0, 1]" "sorted_wrt grows (session_posts ''round-robin'' None ts)"
    using replay_extends_prefixes [OF ss(1) ts, of "''round-robin''" None] by (simp_all add: upt_rec)
  then show ?thesis using ss(1) ts by (intro exI conjI)
qed

end
