(* ===== verification/Spec2Isabelle.thy ===== *)
theory Spec2Isabelle
  imports Simulate_Runs Replay
begin

text \<open>
  A model of \<open>sched_lm\<close>, a benchmark and a simulator for prefix-cache aware routing of LLM requests
  (the Python package under \<open>src/bench\<close>).

  \<^bold>\<open>The program.\<close> A workload generator produces a stream of requests, each a list of token ids cut
  into hashed blocks. The offline simulator replays the stream against a cluster of nodes, each
  with a block cache and a FIFO queue; a routing policy picks a placement, a cost model predicts
  its time to first token, and the result is compared with the argmin over all placements (regret).
  The live half sends the same sessions to a gateway under a concurrency bound, reads counters from
  Prometheus and prints tables.

  \<^bold>\<open>Conventions.\<close> An operation that can raise returns \<open>'a res\<close>, a sum of \<open>py_error\<close> and a value;
  a loop that may not end is a \<open>partial_function (option)\<close> whose \<open>None\<close> is not returning, so no
  fuel is used anywhere. Python integers are \<open>int\<close>; block hashes are 64-bit words read as signed
  integers; floats are the type \<open>pyfloat\<close>, exact rationals rounded to binary64 (nearest, ties to
  even, subnormals) with infinities and NaN, but one zero only; a \<open>dict\<close> is an association list in
  insertion order; strings are lists of 8-bit characters. Names are the source's, with a prefix
  where two classes share a field name. Where the code calls \<open>pow(x, 0.5)\<close> of the C library, the model
  takes the correctly rounded square root, which is what the usual libraries return.

  \<^bold>\<open>Theories and the code they model.\<close>
  \<^item> Library: \<open>Prelude\<close> (exceptions, loops, left-to-right selection), \<open>PyFloat\<close>, \<open>PyNum\<close> (square root,
    \<open>sum\<close> with compensation, \<open>float\<close> of text, fixed-point formatting, mean and deviation),
    \<open>PyDict\<close>, \<open>PySort\<close> (stable sort, bisection), \<open>PyText\<close> (split, join, decimal integers).
  \<^item> \<open>Blocks\<close>: \<open>sim/blocks.py\<close>. \<open>Priority\<close>: \<open>sim/priority.py\<close>. \<open>Node\<close>: \<open>sim/node.py\<close>, with \<open>Eviction\<close>
    (the abstract rank order and what the victim scan computes) and \<open>Admission\<close> (what an admission
    does to a node).
  \<^item> \<open>Cost\<close>: \<open>sim/cost.py\<close>. \<open>Router_Index\<close>, \<open>Tool_Gaps\<close>, \<open>Routing\<close>, \<open>Policies\<close>: \<open>sim/policies.py\<close> (the router-side
    cache index, the gap statistics, the policies, the registry), with \<open>Coarse\<close> and \<open>Weighted\<close> (the
    guarantees of the policies that poll queues).
  \<^item> \<open>Engine\<close>: \<open>sim/engine.py\<close>, with \<open>Accounting\<close> (the books of a result), \<open>Simulation\<close> (the run invariant) and
    \<open>Runs\<close> (termination, exceptions, optimality of the oracle) and \<open>Horizon\<close> (every registered policy
    returns, from a bound on the total work).
  \<^item> \<open>Prompt\<close>: \<open>prompt.py\<close>. \<open>Requests\<close>, \<open>Tokenizer\<close>, \<open>Workload\<close>: \<open>sim/workload.py\<close>, with \<open>Streams\<close>
    (the shape of generated requests), \<open>Arrivals\<close> (the generator returns, arrivals are ordered),
    \<open>Generated\<close> and \<open>Mixed\<close> (session streams and mixed streams), \<open>Bounded\<close> (how large the requests
    of a stream are) and \<open>Feasible\<close> (the mixed stream is generated, within its bounds, and what it is
    composed of).
  \<^item> \<open>Traffic\<close>: \<open>traffic.py\<close>, with \<open>Traffic_Runs\<close> (every interleaving of the task pool and every way
    a run ends) and \<open>Replay\<close> (what is posted). \<open>Metrics\<close>: \<open>metrics.py\<close>. \<open>Report\<close>: \<open>report.py\<close>, with \<open>Tables\<close>
    (its cells are defined). \<open>Cli\<close>: the bodies of the commands of \<open>cli.py\<close>, with \<open>Cli_Runs\<close>.
    \<open>Options\<close>: its option tables and the commands as click calls them, with \<open>Options_Runs\<close> and
    \<open>Simulate_Runs\<close> (\<open>bench simulate\<close> from its options to its tables).

  \<^bold>\<open>What is shown.\<close>
  \<^item> Caches: a priority node evicts a minimum of the effective rank with ties by recency, keeps its
    invariant and its capacity, and returns exactly when the capacity is not negative; without
    directives it is an LRU cache; a Belady node evicts a block of furthest next use; the index a
    router keeps simulates the LRU cache of the node it mirrors.
  \<^item> Routing: the argmin is optimal with the stated tie break; every policy places on a node of the
    cluster and, with bounded queues, never raises; round robin is fair; coarse queue information
    loses nothing on an idle cluster; the reliability policy only adds directives.
  \<^item> Runs: a run of any registered policy returns exactly when the capacity is not negative, its
    books balance, no policy beats the oracle on the same state, and the future-use index is exact.
  \<^item> Workload: requests are well formed, sessions grow by strict prefixes and are replayed in order,
    every class of a mixed stream has its share of the budget and its own ids, classes are recognisable
    from what a router sees, tokenization can be inverted.
  \<^item> Live traffic: at most \<open>concurrency\<close> requests are in flight, every run completes when a permit
    exists, every interleaving records what the sequential run records, no request is lost, and a run
    raises only what escaped one of its requests; a replayed session is posted in order, each body
    extending the one before.
  \<^item> Interfaces: the retention header and the mix option can be read back, refusals are
    characterised, presets respect explicit options and declared types, every command finds the
    options it reads, the printed tables agree with the results.
  \<^item> End to end: on options and draws of bounded size \<open>bench simulate\<close> generates its stream, runs every
    requested policy and prints its tables, or never returns if the capacity is negative; \<open>bench traffic\<close>
    is refused exactly when its retention options are, starts the traffic its options ask for, and the
    counts it prints add up to it; a number read from Prometheus is tabulated for every answer.

  \<^bold>\<open>Bounds.\<close> \<open>query_ok\<close> limits a request to \<open>2 ^ 53\<close> tokens, up to which \<open>float\<close> is exact on
  integers, and asks for a finite clock; \<open>params_ok\<close> asks for finite, nonnegative costs and a
  bandwidth that is not zero; \<open>load_ok\<close> and \<open>calm\<close> bound the waits that some policies round to an
  integer, which raises on an infinity; \<open>request_fits\<close> bounds the arrival and the service time of a
  request, from which the bound on the waits follows; \<open>feasible\<close> bounds the work of a whole simulation, with
  every token priced at one second, far above the cost model's prices. They hold for the defaults.

  \<^bold>\<open>Parameters.\<close> The distributions of \<open>random.Random\<close> (\<open>random_lib\<close>; \<open>random_ok\<close> states their documented
  ranges), the answers of the gateway (\<open>exchange\<close>) and of Prometheus (\<open>prometheus\<close>),
  \<open>numpy.percentile\<close>, and click: \<open>conforms\<close> states what it documents of the parameters of a command.

  \<^bold>\<open>Over-approximations.\<close> The tasks of \<open>run_session_traffic\<close> may take the semaphore in any order, which
  includes the first-in first-out order of \<open>asyncio\<close>; a node is compared with the hot node by its id,
  which \<open>make_nodes\<close> assigns once each.

  \<^bold>\<open>Not modelled.\<close> How click reads the command line, and the progress output; the layout of the
  printed tables; sleeping, beyond the delay that is computed; what the tasks still do after
  \<open>gather\<close> re-raised, since nothing of it is printed; negative zero; characters beyond 8 bits; the Go
  plugin of the gateway and the Kubernetes files.
\<close>

end
